(* ===== verification/Prelude.thy ===== *)
theory Prelude
  imports Main "HOL-Library.AList" "HOL-Library.Char_ord" "HOL-Library.List_Lexorder"
    "HOL-Library.Multiset"
begin

text \<open>
  What every component of the model shares: the names of the model's basic types, Go's error
  values and \<open>errors.Is\<close>, results as a sum of an error and a value, loops that stop at the
  first error, Go maps as association lists, and the order in which a \<open>range\<close> over a map
  visits its keys.

  A Go \<open>string\<close> and a Go \<open>[]byte\<close> are both sequences of bytes, and an Isabelle \<open>char\<close> is
  one byte, so both are the type \<open>string\<close> here; \<open>len\<close> is \<open>length\<close>.
\<close>

named_theorems run_simps \<open>equations that execute the operations of the model\<close>
named_theorems inv_intros \<open>every operation keeps the invariants of its component\<close>

section \<open>Names for the model's types\<close>

type_synonym bytes = string
type_synonym rune = nat

definition byte :: "char \<Rightarrow> nat" where
  "byte c = of_char c"

lemma byte_less_256 [simp]: "byte c < 256"
  unfolding byte_def using range_nat_of_char by auto

lemma char_of_byte [simp]: "char_of (byte c) = c"
  by (simp add: byte_def)

lemma byte_char_of [simp]: "byte (char_of n) = n mod 256"
  by (simp add: byte_def)

lemma byte_inject [simp]: "byte c = byte d \<longleftrightarrow> c = d"
  by (simp add: byte_def)

section \<open>Go errors\<close>

text \<open>
  The sentinel errors of the packages, errors made from a text, and errors that wrap another
  one with \<open>fmt.Errorf("...%w...")\<close>. \<open>errors.Is\<close> walks the chain.
\<close>

datatype goerr =
    ErrOpen
  | ErrUnknownKey
  | ErrNotFound
  | ErrMsg string
  | ErrWrap string goerr

fun errors_is :: "goerr \<Rightarrow> goerr \<Rightarrow> bool" where
  "errors_is (ErrWrap m e) t = (ErrWrap m e = t \<or> errors_is e t)"
| "errors_is e t = (e = t)"

lemma errors_is_refl [simp]: "errors_is e e"
  by (cases e) auto

section \<open>Results\<close>

type_synonym 'a result = "goerr + 'a"

definition is_ok :: "'e + 'a \<Rightarrow> bool" where
  "is_ok r = (case r of Inl _ \<Rightarrow> False | Inr _ \<Rightarrow> True)"

lemma is_ok_simps [simp]: "is_ok (Inr x)" "\<not> is_ok (Inl e)"
  by (simp_all add: is_ok_def)

lemma is_okE: "is_ok r \<Longrightarrow> (\<And>x. r = Inr x \<Longrightarrow> P) \<Longrightarrow> P"
  by (cases r) auto

text \<open>A loop over a slice that returns at the first error.\<close>

fun try_map :: "('a \<Rightarrow> 'e + 'b) \<Rightarrow> 'a list \<Rightarrow> 'e + 'b list" where
  "try_map f [] = Inr []"
| "try_map f (x # xs) =
     (case f x of Inl e \<Rightarrow> Inl e
      | Inr y \<Rightarrow> (case try_map f xs of Inl e \<Rightarrow> Inl e | Inr ys \<Rightarrow> Inr (y # ys)))"

lemma try_map_Inr:
  "try_map f xs = Inr ys \<longleftrightarrow> list_all2 (\<lambda>x y. f x = Inr y) xs ys"
proof (induction xs arbitrary: ys)
  case Nil
  show ?case by auto
next
  case (Cons x xs)
  have inj: "x2a = list" if "list_all2 (\<lambda>x y. f x = Inr y) xs x2a"
    and "list_all2 (\<lambda>x y. f x = Inr y) xs list" for x2a list
    using that Cons.IH by (metis sum.inject(2))
  from Cons show ?case by (cases ys) (auto split: sum.splits intro: inj)
qed

lemma try_map_length: "try_map f xs = Inr ys \<Longrightarrow> length ys = length xs"
  by (auto simp: try_map_Inr dest: list_all2_lengthD)

lemma try_map_Inl:
  "try_map f xs = Inl e \<Longrightarrow> \<exists>x \<in> set xs. f x = Inl e"
  by (induction xs) (auto split: sum.splits)

lemma try_map_total: "\<forall>x \<in> set xs. \<exists>y. f x = Inr y \<Longrightarrow> \<exists>ys. try_map f xs = Inr ys"
  by (induction xs) (auto split: sum.splits)

text \<open>
  A loop over a slice that threads a state through an operation that may fail, and returns at
  the first failure: the state reached so far is kept, as the code's side effects are.
\<close>

fun try_each :: "('a \<Rightarrow> 's \<Rightarrow> ('e + 'b) \<times> 's) \<Rightarrow> 'a list \<Rightarrow> 's \<Rightarrow> ('e + 'b list) \<times> 's" where
  "try_each f [] s = (Inr [], s)"
| "try_each f (x # xs) s =
     (case f x s of
        (Inl e, s1) \<Rightarrow> (Inl e, s1)
      | (Inr y, s1) \<Rightarrow>
          (case try_each f xs s1 of
             (Inl e, s2) \<Rightarrow> (Inl e, s2)
           | (Inr ys, s2) \<Rightarrow> (Inr (y # ys), s2)))"

lemma try_each_invariant:
  assumes "\<And>x s. x \<in> set xs \<Longrightarrow> P s \<Longrightarrow> P (snd (f x s))" and "P s"
  shows "P (snd (try_each f xs s))"
  using assms
proof (induction xs arbitrary: s)
  case Nil
  then show ?case by simp
next
  case (Cons x xs)
  obtain r s1 where fx: "f x s = (r, s1)" by (cases "f x s")
  with Cons.prems have "P s1" by (metis list.set_intros(1) snd_conv)
  with Cons have "P (snd (try_each f xs s1))" by simp
  with fx \<open>P s1\<close> show ?case by (auto split: sum.splits prod.splits)
qed

lemma try_each_length: "try_each f xs s = (Inr ys, s') \<Longrightarrow> length ys = length xs"
  by (induction xs arbitrary: ys s s') (auto split: sum.splits prod.splits)

lemma distinct_map_eq:
  "distinct (map f xs) \<Longrightarrow> x \<in> set xs \<Longrightarrow> y \<in> set xs \<Longrightarrow> f x = f y \<Longrightarrow> x = y"
  by (auto simp: distinct_map dest: inj_onD)

lemma find_SomeD: "find P xs = Some x \<Longrightarrow> x \<in> set xs \<and> P x"
  by (induction xs) (auto split: if_splits)

lemma find_ex: "x \<in> set xs \<Longrightarrow> P x \<Longrightarrow> \<exists>y. find P xs = Some y"
  by (induction xs) auto

section \<open>Go maps\<close>

text \<open>
  A Go map is an association list in which no key occurs twice; \<open>m[k] = v\<close> is
  \<open>AList.update\<close>, \<open>delete(m, k)\<close> is \<open>AList.delete\<close>, and a lookup is \<open>map_of\<close>.
\<close>

type_synonym 'v gomap = "(string \<times> 'v) list"

abbreviation gomap_ok :: "'v gomap \<Rightarrow> bool" where
  "gomap_ok m \<equiv> distinct (map fst m)"

text \<open>
  Go leaves the order of a \<open>range\<close> over a map open. The model takes a function that picks one,
  and reads it as the identity on any list it would not merely permute, so every order is
  covered and nothing is assumed about it.
\<close>

definition visit :: "(string list \<Rightarrow> string list) \<Rightarrow> string list \<Rightarrow> string list" where
  "visit pick ks = (let p = pick ks in if mset p = mset ks then p else ks)"

lemma mset_visit [simp]: "mset (visit pick ks) = mset ks"
  by (simp add: visit_def Let_def)

lemma set_visit [simp]: "set (visit pick ks) = set ks"
  using mset_visit mset_eq_setD by blast

lemma distinct_visit [simp]: "distinct (visit pick ks) = distinct ks"
  using mset_visit mset_eq_imp_distinct_iff by blast

lemma length_visit [simp]: "length (visit pick ks) = length ks"
  using mset_visit mset_eq_length by blast

lemma visit_id [simp]: "visit (\<lambda>ks. ks) ks = ks"
  by (simp add: visit_def)

text \<open>The entries of a map in the order a \<open>range\<close> visits them.\<close>

definition range_over :: "(string list \<Rightarrow> string list) \<Rightarrow> 'v gomap \<Rightarrow> 'v gomap" where
  "range_over pick m =
     concat (map (\<lambda>k. case map_of m k of None \<Rightarrow> [] | Some v \<Rightarrow> [(k, v)])
       (visit pick (map fst m)))"

lemma set_range_over: "gomap_ok m \<Longrightarrow> set (range_over pick m) = set m"
  by (auto simp: range_over_def map_of_eq_Some_iff split: option.splits)

lemma distinct_range_over: "gomap_ok m \<Longrightarrow> gomap_ok (range_over pick m)"
proof -
  have fst: "map fst (concat (map (\<lambda>k. case map_of m k of None \<Rightarrow> [] | Some v \<Rightarrow> [(k, v)]) ks)) = ks"
    if "set ks \<subseteq> set (map fst m)" for ks
    using that by (induction ks) (auto split: option.splits simp: map_of_eq_None_iff)
  assume "gomap_ok m"
  then show ?thesis unfolding range_over_def by (subst fst) auto
qed

text \<open>A \<open>range\<close> visits every entry exactly once.\<close>

lemma mset_range_over: "gomap_ok m \<Longrightarrow> mset (range_over pick m) = mset m"
  by (metis distinct_range_over distinct_map set_range_over set_eq_iff_mset_eq_distinct)

lemma range_over_id: "gomap_ok m \<Longrightarrow> range_over (\<lambda>ks. ks) m = m"
proof -
  assume ok: "gomap_ok m"
  have "concat (map (\<lambda>k. case map_of m k of None \<Rightarrow> [] | Some v \<Rightarrow> [(k, v)]) (map fst xs)) = xs"
    if "set xs \<subseteq> set m" for xs
    using that ok by (induction xs) (auto dest: eq_key_imp_eq_value split: option.splits)
  then show ?thesis by (simp add: range_over_def)
qed

text \<open>Assignments to a map.\<close>

lemma update_member: "(a, b) \<in> set (AList.update k v m) \<Longrightarrow> a = k \<and> b = v \<or> (a, b) \<in> set m"
  by (induction m) (auto split: if_splits)

lemma map_of_fold_update:
  assumes "distinct (map key rows)"
  shows "map_of (fold (\<lambda>r. AList.update (key r) (val r)) rows found) x = Some p \<longleftrightarrow>
    (\<exists>r \<in> set rows. key r = x \<and> val r = p) \<or> x \<notin> key ` set rows \<and> map_of found x = Some p"
  using assms
proof (induction rows arbitrary: found)
  case (Cons r rows)
  then have IH: "map_of (fold (\<lambda>r. AList.update (key r) (val r)) rows (AList.update (key r) (val r) found)) x = Some p
      \<longleftrightarrow> (\<exists>r \<in> set rows. key r = x \<and> val r = p)
        \<or> x \<notin> key ` set rows \<and> map_of (AList.update (key r) (val r) found) x = Some p"
    by simp
  show ?case
  proof (cases "key r = x")
    case True
    with Cons.prems have "x \<notin> key ` set rows" by auto
    with True IH show ?thesis by (auto simp: AList.update_conv')
  next
    case False
    with IH show ?thesis by (auto simp: AList.update_conv')
  qed
qed simp

end
