(* ===== verification/GoStrings.thy ===== *)
theory GoStrings
  imports Prelude
begin

text \<open>
  The functions of Go's \<open>strings\<close>, \<open>unicode\<close> and \<open>unicode/utf8\<close> packages that the program
  uses, on byte strings: how a \<open>range\<close> over a string decodes it into runes, how a rune is
  written back, validity of UTF-8, and the handful of \<open>strings\<close> functions.
\<close>

section \<open>UTF-8\<close>

text \<open>
  \<open>utf8.DecodeRuneInString\<close>: the first rune of a string and how many bytes it takes. A byte
  that starts no well-formed sequence decodes to U+FFFD and takes one byte. Overlong forms,
  surrogates and values above U+10FFFF are not well-formed.
\<close>

definition rune_error :: rune where
  "rune_error = 0xFFFD"

definition is_cont :: "char \<Rightarrow> bool" where
  "is_cont c \<longleftrightarrow> 0x80 \<le> byte c \<and> byte c \<le> 0xBF"

definition second3 :: "nat \<Rightarrow> char \<Rightarrow> bool" where
  "second3 b0 c \<longleftrightarrow>
     (if b0 = 0xE0 then 0xA0 else 0x80) \<le> byte c \<and> byte c \<le> (if b0 = 0xED then 0x9F else 0xBF)"

definition second4 :: "nat \<Rightarrow> char \<Rightarrow> bool" where
  "second4 b0 c \<longleftrightarrow>
     (if b0 = 0xF0 then 0x90 else 0x80) \<le> byte c \<and> byte c \<le> (if b0 = 0xF4 then 0x8F else 0xBF)"

fun decode2 :: "nat \<Rightarrow> string \<Rightarrow> (rune \<times> nat) option" where
  "decode2 b0 (c1 # _) =
     (if is_cont c1 then Some ((b0 - 0xC0) * 64 + (byte c1 - 0x80), 2) else None)"
| "decode2 b0 _ = None"

fun decode3 :: "nat \<Rightarrow> string \<Rightarrow> (rune \<times> nat) option" where
  "decode3 b0 (c1 # c2 # _) =
     (if second3 b0 c1 \<and> is_cont c2
      then Some ((b0 - 0xE0) * 4096 + (byte c1 - 0x80) * 64 + (byte c2 - 0x80), 3) else None)"
| "decode3 b0 _ = None"

fun decode4 :: "nat \<Rightarrow> string \<Rightarrow> (rune \<times> nat) option" where
  "decode4 b0 (c1 # c2 # c3 # _) =
     (if second4 b0 c1 \<and> is_cont c2 \<and> is_cont c3
      then Some ((b0 - 0xF0) * 262144 + (byte c1 - 0x80) * 4096 + (byte c2 - 0x80) * 64
                 + (byte c3 - 0x80), 4) else None)"
| "decode4 b0 _ = None"

fun decode_valid :: "string \<Rightarrow> (rune \<times> nat) option" where
  "decode_valid [] = None"
| "decode_valid (c # s) =
     (let b = byte c in
      if b < 0x80 then Some (b, 1)
      else if 0xC2 \<le> b \<and> b \<le> 0xDF then decode2 b s
      else if 0xE0 \<le> b \<and> b \<le> 0xEF then decode3 b s
      else if 0xF0 \<le> b \<and> b \<le> 0xF4 then decode4 b s
      else None)"

definition decode_rune :: "string \<Rightarrow> rune \<times> nat" where
  "decode_rune s = (case decode_valid s of Some rn \<Rightarrow> rn | None \<Rightarrow> (rune_error, 1))"

lemma decode_valid_width:
  assumes "decode_valid s = Some (r, n)"
  shows "0 < n" and "n \<le> length s"
  using assms
  by (cases s; auto simp: Let_def split: if_splits elim!: decode2.elims decode3.elims decode4.elims)+

lemma decode_rune_width: "0 < snd (decode_rune s)"
  using decode_valid_width(1) by (auto simp: decode_rune_def split: option.splits)

text \<open>
  What a \<open>range\<close> over a string visits: every rune, with the bytes it was read from.
\<close>

function segments :: "string \<Rightarrow> (rune \<times> string) list" where
  "segments s =
     (if s = [] then []
      else (let (r, n) = decode_rune s in (r, take n s) # segments (drop n s)))"
  by pat_completeness auto
termination
proof (relation "measure length", goal_cases)
  case (2 s x r n)
  then have "n = snd (decode_rune s)" by (metis snd_conv)
  with 2 show ?case using decode_rune_width [of s] by (cases s) auto
qed simp

declare segments.simps [simp del]

lemma segments_code [code]:
  "segments s =
     (case s of [] \<Rightarrow> []
      | c # t \<Rightarrow> (case decode_rune s of (r, n) \<Rightarrow> (r, take n s) # segments (drop n s)))"
  by (subst segments.simps) (auto split: list.split)

lemma segments_Nil [simp]: "segments [] = []"
  by (simp add: segments.simps)

definition runes :: "string \<Rightarrow> rune list" where
  "runes s = map fst (segments s)"

lemma concat_segments [simp]: "concat (map snd (segments s)) = s"
proof (induction s rule: segments.induct)
  case (1 s)
  show ?case
  proof (cases "s = []")
    case False
    obtain r n where d: "decode_rune s = (r, n)" by (cases "decode_rune s")
    with 1 False have "concat (map snd (segments (drop n s))) = drop n s" by simp
    with False d show ?thesis by (simp add: segments.simps [of s])
  qed simp
qed

text \<open>A string of ASCII bytes is its own list of runes.\<close>

definition ascii :: "char \<Rightarrow> bool" where
  "ascii c \<longleftrightarrow> byte c < 0x80"

lemma segments_ascii_Cons [simp]:
  "ascii c \<Longrightarrow> segments (c # s) = (byte c, [c]) # segments s"
  by (simp add: segments.simps [of "c # s"] decode_rune_def ascii_def Let_def)

lemma segments_ascii: "list_all ascii s \<Longrightarrow> segments s = map (\<lambda>c. (byte c, [c])) s"
  by (induction s) simp_all

lemma segments_ascii_append: "list_all ascii s \<Longrightarrow> segments (s @ t) = map (\<lambda>c. (byte c, [c])) s @ segments t"
  by (induction s) simp_all

lemma runes_ascii_Cons [simp]: "ascii c \<Longrightarrow> runes (c # s) = byte c # runes s"
  by (simp add: runes_def)

lemma runes_Nil [simp]: "runes [] = []"
  by (simp add: runes_def)

text \<open>\<open>utf8.Valid\<close>.\<close>

function utf8_valid :: "string \<Rightarrow> bool" where
  "utf8_valid s =
     (if s = [] then True
      else (case decode_valid s of None \<Rightarrow> False | Some (r, n) \<Rightarrow> utf8_valid (drop n s)))"
  by pat_completeness auto
termination
proof (relation "measure length", goal_cases)
  case (2 s rn r n)
  then show ?case using decode_valid_width [of s r n] by (cases s) auto
qed simp

declare utf8_valid.simps [simp del]

text \<open>\<open>utf8.AppendRune\<close>: surrogates and values above U+10FFFF are written as U+FFFD.\<close>

definition encode_scalar :: "nat \<Rightarrow> string" where
  "encode_scalar r =
     (if r < 0x80 then [char_of r]
      else if r < 0x800 then [char_of (0xC0 + r div 64), char_of (0x80 + r mod 64)]
      else if r < 0x10000 then
        [char_of (0xE0 + r div 4096), char_of (0x80 + r div 64 mod 64), char_of (0x80 + r mod 64)]
      else
        [char_of (0xF0 + r div 262144), char_of (0x80 + r div 4096 mod 64),
         char_of (0x80 + r div 64 mod 64), char_of (0x80 + r mod 64)])"

definition encode_rune :: "rune \<Rightarrow> string" where
  "encode_rune r =
     encode_scalar (if 0xD800 \<le> r \<and> r \<le> 0xDFFF \<or> 0x10FFFF < r then rune_error else r)"

text \<open>ASCII first, for evaluation.\<close>

lemma encode_rune_code [code]:
  "encode_rune r =
     (if r < 0x80 then [char_of r]
      else encode_scalar (if 0xD800 \<le> r \<and> r \<le> 0xDFFF \<or> 0x10FFFF < r then rune_error else r))"
  by (simp add: encode_rune_def encode_scalar_def)

lemma encode_rune_ascii [simp]: "ascii c \<Longrightarrow> encode_rune (byte c) = [c]"
  by (simp add: encode_rune_def encode_scalar_def ascii_def)

text \<open>
  Runes below U+0080 come from one ASCII byte each, and no byte of a longer sequence is ASCII.
\<close>

lemma decode_valid_cases:
  assumes "decode_valid (c # s) = Some (r, n)"
  shows "(ascii c \<and> r = byte c \<and> n = 1) \<or>
         (0x80 \<le> r \<and> 1 < n \<and> (\<forall>d \<in> set (take n (c # s)). \<not> ascii d))"
  using assms
  by (auto simp: Let_def ascii_def is_cont_def second3_def second4_def
      split: if_splits elim!: decode2.elims decode3.elims decode4.elims)

lemma decode_rune_cases:
  assumes "decode_rune (c # s) = (r, n)"
  shows "(ascii c \<and> r = byte c \<and> n = 1) \<or>
         (0x80 \<le> r \<and> (\<forall>d \<in> set (take n (c # s)). \<not> ascii d))"
proof (cases "decode_valid (c # s)")
  case None
  then have "\<not> ascii c" by (auto simp: ascii_def Let_def)
  with None assms show ?thesis by (auto simp: decode_rune_def rune_error_def)
next
  case (Some rn)
  with assms have "decode_valid (c # s) = Some (r, n)" by (simp add: decode_rune_def)
  then show ?thesis using decode_valid_cases by blast
qed

section \<open>Unicode\<close>

text \<open>
  \<open>unicode.ToLower\<close>: the simple lower case mapping of the Unicode tables, as ranges of
  first rune, last rune, step and distance to the lower case rune.
\<close>

definition lower_ranges :: "(nat \<times> nat \<times> nat \<times> int) list" where
  "lower_ranges =
   [(65, 90, 1, 32),
    (192, 214, 1, 32), (216, 222, 1, 32), (256, 302, 2, 1), (304, 304, 1, -199),
    (306, 310, 2, 1), (313, 327, 2, 1), (330, 374, 2, 1), (376, 376, 1, -121), (377, 381, 2, 1),
    (385, 385, 1, 210), (386, 388, 2, 1), (390, 390, 1, 206), (391, 391, 1, 1),
    (393, 394, 1, 205), (395, 395, 1, 1), (398, 398, 1, 79), (399, 399, 1, 202),
    (400, 400, 1, 203), (401, 401, 1, 1), (403, 403, 1, 205), (404, 404, 1, 207),
    (406, 406, 1, 211), (407, 407, 1, 209), (408, 408, 1, 1), (412, 412, 1, 211),
    (413, 413, 1, 213), (415, 415, 1, 214), (416, 420, 2, 1), (422, 422, 1, 218),
    (423, 423, 1, 1), (425, 425, 1, 218), (428, 428, 1, 1), (430, 430, 1, 218), (431, 431, 1, 1),
    (433, 434, 1, 217), (435, 437, 2, 1), (439, 439, 1, 219), (440, 440, 1, 1), (444, 444, 1, 1),
    (452, 452, 1, 2), (453, 453, 1, 1), (455, 455, 1, 2), (456, 456, 1, 1), (458, 458, 1, 2),
    (459, 475, 2, 1), (478, 494, 2, 1), (497, 497, 1, 2), (498, 500, 2, 1), (502, 502, 1, -97),
    (503, 503, 1, -56), (504, 542, 2, 1), (544, 544, 1, -130), (546, 562, 2, 1),
    (570, 570, 1, 10795), (571, 571, 1, 1), (573, 573, 1, -163), (574, 574, 1, 10792),
    (577, 577, 1, 1), (579, 579, 1, -195), (580, 580, 1, 69), (581, 581, 1, 71),
    (582, 590, 2, 1), (880, 882, 2, 1), (886, 886, 1, 1), (895, 895, 1, 116), (902, 902, 1, 38),
    (904, 906, 1, 37), (908, 908, 1, 64), (910, 911, 1, 63), (913, 929, 1, 32),
    (931, 939, 1, 32), (975, 975, 1, 8), (984, 1006, 2, 1), (1012, 1012, 1, -60),
    (1015, 1015, 1, 1), (1017, 1017, 1, -7), (1018, 1018, 1, 1), (1021, 1023, 1, -130),
    (1024, 1039, 1, 80), (1040, 1071, 1, 32), (1120, 1152, 2, 1), (1162, 1214, 2, 1),
    (1216, 1216, 1, 15), (1217, 1229, 2, 1), (1232, 1326, 2, 1), (1329, 1366, 1, 48),
    (4256, 4293, 1, 7264), (4295, 4295, 1, 7264), (4301, 4301, 1, 7264), (5024, 5103, 1, 38864),
    (5104, 5109, 1, 8), (7312, 7354, 1, -3008), (7357, 7359, 1, -3008), (7680, 7828, 2, 1),
    (7838, 7838, 1, -7615), (7840, 7934, 2, 1), (7944, 7951, 1, -8), (7960, 7965, 1, -8),
    (7976, 7983, 1, -8), (7992, 7999, 1, -8), (8008, 8013, 1, -8), (8025, 8031, 2, -8),
    (8040, 8047, 1, -8), (8072, 8079, 1, -8), (8088, 8095, 1, -8), (8104, 8111, 1, -8),
    (8120, 8121, 1, -8), (8122, 8123, 1, -74), (8124, 8124, 1, -9), (8136, 8139, 1, -86),
    (8140, 8140, 1, -9), (8152, 8153, 1, -8), (8154, 8155, 1, -100), (8168, 8169, 1, -8),
    (8170, 8171, 1, -112), (8172, 8172, 1, -7), (8184, 8185, 1, -128), (8186, 8187, 1, -126),
    (8188, 8188, 1, -9), (8486, 8486, 1, -7517), (8490, 8490, 1, -8383), (8491, 8491, 1, -8262),
    (8498, 8498, 1, 28), (8544, 8559, 1, 16), (8579, 8579, 1, 1), (9398, 9423, 1, 26),
    (11264, 11311, 1, 48), (11360, 11360, 1, 1), (11362, 11362, 1, -10743),
    (11363, 11363, 1, -3814), (11364, 11364, 1, -10727), (11367, 11371, 2, 1),
    (11373, 11373, 1, -10780), (11374, 11374, 1, -10749), (11375, 11375, 1, -10783),
    (11376, 11376, 1, -10782), (11378, 11378, 1, 1), (11381, 11381, 1, 1),
    (11390, 11391, 1, -10815), (11392, 11490, 2, 1), (11499, 11501, 2, 1), (11506, 11506, 1, 1),
    (42560, 42604, 2, 1), (42624, 42650, 2, 1), (42786, 42798, 2, 1), (42802, 42862, 2, 1),
    (42873, 42875, 2, 1), (42877, 42877, 1, -35332), (42878, 42886, 2, 1), (42891, 42891, 1, 1),
    (42893, 42893, 1, -42280), (42896, 42898, 2, 1), (42902, 42920, 2, 1),
    (42922, 42922, 1, -42308), (42923, 42923, 1, -42319), (42924, 42924, 1, -42315),
    (42925, 42925, 1, -42305), (42926, 42926, 1, -42308), (42928, 42928, 1, -42258),
    (42929, 42929, 1, -42282), (42930, 42930, 1, -42261), (42931, 42931, 1, 928),
    (42932, 42946, 2, 1), (42948, 42948, 1, -48), (42949, 42949, 1, -42307),
    (42950, 42950, 1, -35384), (42951, 42953, 2, 1), (42960, 42960, 1, 1), (42966, 42968, 2, 1),
    (42997, 42997, 1, 1), (65313, 65338, 1, 32), (66560, 66599, 1, 40), (66736, 66771, 1, 40),
    (66928, 66938, 1, 39), (66940, 66954, 1, 39), (66956, 66962, 1, 39), (66964, 66965, 1, 39),
    (68736, 68786, 1, 64), (71840, 71871, 1, 32), (93760, 93791, 1, 32), (125184, 125217, 1, 34)]"

definition in_range :: "rune \<Rightarrow> nat \<times> nat \<times> nat \<times> int \<Rightarrow> bool" where
  "in_range r = (\<lambda>(lo, hi, step, d). lo \<le> r \<and> r \<le> hi \<and> (r - lo) mod step = 0)"

definition to_lower_rune :: "rune \<Rightarrow> rune" where
  "to_lower_rune r =
     (case find (in_range r) lower_ranges of
        Some (lo, hi, step, d) \<Rightarrow> nat (int r + d)
      | None \<Rightarrow> r)"

text \<open>
  \<open>strings.ToLower\<close> maps every rune; a byte that is no UTF-8 comes out as U+FFFD.
\<close>

definition to_lower :: "string \<Rightarrow> string" where
  "to_lower s = concat (map (\<lambda>r. encode_rune (to_lower_rune r)) (runes s))"

text \<open>\<open>unicode.IsSpace\<close> and \<open>strings.TrimSpace\<close>.\<close>

definition is_space :: "rune \<Rightarrow> bool" where
  "is_space r \<longleftrightarrow>
     r \<in> set [9, 10, 11, 12, 13, 32, 0x85, 0xA0, 0x1680, 0x2028, 0x2029, 0x202F, 0x205F, 0x3000]
     \<or> (0x2000 \<le> r \<and> r \<le> 0x200A)"

definition trim_by :: "('a \<Rightarrow> bool) \<Rightarrow> 'a list \<Rightarrow> 'a list" where
  "trim_by P xs = rev (dropWhile P (rev (dropWhile P xs)))"

definition trim_space :: "string \<Rightarrow> string" where
  "trim_space s = concat (map snd (trim_by (\<lambda>seg. is_space (fst seg)) (segments s)))"

section \<open>The strings package\<close>

text \<open>
  \<open>strings.Trim\<close> with a cut set of ASCII bytes, \<open>strings.Cut\<close> at one byte,
  \<open>strings.CutPrefix\<close>, \<open>strings.ContainsAny\<close> and \<open>strings.Contains\<close> of one byte,
  \<open>strings.IndexByte\<close>.
\<close>

definition trim_cutset :: "string \<Rightarrow> string \<Rightarrow> string" where
  "trim_cutset s cs = trim_by (\<lambda>c. c \<in> set cs) s"

definition trim_right :: "string \<Rightarrow> string \<Rightarrow> string" where
  "trim_right s cs = rev (dropWhile (\<lambda>c. c \<in> set cs) (rev s))"

definition cut_at :: "char \<Rightarrow> string \<Rightarrow> string \<times> string \<times> bool" where
  "cut_at c s = (takeWhile (\<lambda>x. x \<noteq> c) s, drop 1 (dropWhile (\<lambda>x. x \<noteq> c) s), c \<in> set s)"

fun cut_prefix :: "string \<Rightarrow> string \<Rightarrow> string option" where
  "cut_prefix [] s = Some s"
| "cut_prefix (p # ps) [] = None"
| "cut_prefix (p # ps) (c # s) = (if p = c then cut_prefix ps s else None)"

definition contains_any :: "string \<Rightarrow> string \<Rightarrow> bool" where
  "contains_any s cs \<longleftrightarrow> list_ex (\<lambda>c. c \<in> set cs) s"

fun index_byte :: "char \<Rightarrow> string \<Rightarrow> nat option" where
  "index_byte c [] = None"
| "index_byte c (x # s) = (if x = c then Some 0 else map_option Suc (index_byte c s))"

lemma cut_prefix_Some: "cut_prefix p s = Some t \<longleftrightarrow> s = p @ t"
  by (induction p s rule: cut_prefix.induct) auto

lemma trim_by_eq_Nil: "trim_by P xs = [] \<longleftrightarrow> list_all P xs"
proof -
  have "trim_by P xs = [] \<longleftrightarrow> (\<forall>x \<in> set (dropWhile P xs). P x)"
    by (simp add: trim_by_def dropWhile_eq_Nil_conv)
  also have "\<dots> \<longleftrightarrow> (\<forall>x \<in> set xs. P x)"
  proof (induction xs)
    case Nil
    show ?case by simp
  next
    case (Cons x xs)
    then show ?case by (cases "P x") auto
  qed
  finally show ?thesis by (simp add: list_all_iff)
qed

lemma trim_cutset_Nil: "trim_cutset s cs = [] \<longleftrightarrow> set s \<subseteq> set cs"
  by (auto simp: trim_cutset_def trim_by_eq_Nil list_all_iff)

lemma cut_at_split: "cut_at c s = (l, d, True) \<Longrightarrow> s = l @ c # d"
  unfolding cut_at_def
  by (induction s arbitrary: l) (auto split: if_splits)

lemma index_byte_Some: "index_byte c s = Some i \<Longrightarrow> i < length s \<and> s ! i = c"
  by (induction s arbitrary: i) (auto split: if_splits)

section \<open>Joining and printing\<close>

text \<open>\<open>strings.Join\<close>, and the \<open>%d\<close> of \<open>fmt\<close>.\<close>

fun join :: "string \<Rightarrow> string list \<Rightarrow> string" where
  "join sep [] = []"
| "join sep [x] = x"
| "join sep (x # xs) = x @ sep @ join sep xs"

fun decimal :: "nat \<Rightarrow> string" where
  "decimal n = (if n < 10 then [char_of (0x30 + n)] else decimal (n div 10) @ [char_of (0x30 + n mod 10)])"

declare decimal.simps [simp del]

end
