(* ===== verification/Json.thy ===== *)
theory Json
  imports GoStrings
begin

text \<open>
  The part of Go's \<open>encoding/json\<close> the program uses: syntax checking of a document, decoding
  into \<open>map[string]json.RawMessage\<close>, into strings and into the request structs, and marshalling
  a map of raw messages back (keys sorted, raw values compacted, HTML characters escaped).

  A value is parsed into a tree that keeps the source text of its scalars and of the bodies of
  its strings, so that compaction can print it back as the library does.
\<close>

section \<open>Scalars and string literals\<close>

definition is_ws :: "char \<Rightarrow> bool" where
  "is_ws c \<longleftrightarrow> byte c = 0x20 \<or> byte c = 0x09 \<or> byte c = 0x0A \<or> byte c = 0x0D"

definition skip_ws :: "string \<Rightarrow> string" where
  "skip_ws s = dropWhile is_ws s"

definition is_digit :: "char \<Rightarrow> bool" where
  "is_digit c \<longleftrightarrow> 0x30 \<le> byte c \<and> byte c \<le> 0x39"

definition hex_val :: "char \<Rightarrow> nat option" where
  "hex_val c =
     (if is_digit c then Some (byte c - 0x30)
      else if 0x61 \<le> byte c \<and> byte c \<le> 0x66 then Some (byte c - 0x61 + 10)
      else if 0x41 \<le> byte c \<and> byte c \<le> 0x46 then Some (byte c - 0x41 + 10)
      else None)"

fun hex4 :: "string \<Rightarrow> nat option" where
  "hex4 (a # b # c # d # _) =
     (case (hex_val a, hex_val b, hex_val c, hex_val d) of
        (Some h, Some i, Some j, Some k) \<Rightarrow> Some (((h * 16 + i) * 16 + j) * 16 + k)
      | _ \<Rightarrow> None)"
| "hex4 _ = None"

definition quote :: char where "quote = CHR 0x22"
definition backslash :: char where "backslash = CHR 0x5C"

text \<open>
  The body of a string literal, from after the opening quote: the source text up to the closing
  quote, and what follows it. Control characters are not allowed, and an escape is one of
  the eight letters or \<open>u\<close> with four hexadecimal digits.
\<close>

fun scan_body :: "string \<Rightarrow> (string \<times> string) option" where
  "scan_body [] = None"
| "scan_body (c # s) =
     (if c = quote then Some ([], s)
      else if c = backslash then
        (case s of
           [] \<Rightarrow> None
         | e # t \<Rightarrow>
             if e \<in> set [quote, backslash, CHR ''/'', CHR ''b'', CHR ''f'', CHR ''n'', CHR ''r'',
                         CHR ''t'']
             then map_option (\<lambda>(b, r). (c # e # b, r)) (scan_body t)
             else if e = CHR ''u'' then
               (case t of
                  h1 # h2 # h3 # h4 # u \<Rightarrow>
                    if hex4 [h1, h2, h3, h4] \<noteq> None
                    then map_option (\<lambda>(b, r). (c # e # h1 # h2 # h3 # h4 # b, r)) (scan_body u)
                    else None
                | _ \<Rightarrow> None)
             else None)
      else if byte c < 0x20 then None
      else map_option (\<lambda>(b, r). (c # b, r)) (scan_body s))"

definition span_while :: "('a \<Rightarrow> bool) \<Rightarrow> 'a list \<Rightarrow> 'a list \<times> 'a list" where
  "span_while P xs = (takeWhile P xs, dropWhile P xs)"

text \<open>A number: sign, integer part without leading zeros, fraction, exponent.\<close>

definition scan_int :: "string \<Rightarrow> (string \<times> string) option" where
  "scan_int s =
     (case s of
        [] \<Rightarrow> None
      | c # t \<Rightarrow> if c = CHR ''0'' then Some ([c], t)
                 else if is_digit c then Some (span_while is_digit s) else None)"

definition scan_frac :: "string \<Rightarrow> (string \<times> string) option" where
  "scan_frac s =
     (case s of
        c # d # t \<Rightarrow>
          if c = CHR ''.'' then
            (if is_digit d then (case span_while is_digit (d # t) of (ds, r) \<Rightarrow> Some (c # ds, r)) else None)
          else Some ([], s)
      | [c] \<Rightarrow> if c = CHR ''.'' then None else Some ([], s)
      | [] \<Rightarrow> Some ([], s))"

definition scan_exp :: "string \<Rightarrow> (string \<times> string) option" where
  "scan_exp s =
     (case s of
        [] \<Rightarrow> Some ([], s)
      | c # t \<Rightarrow>
          if c = CHR ''e'' \<or> c = CHR ''E'' then
            (case (case t of g # u \<Rightarrow> if g = CHR ''+'' \<or> g = CHR ''-'' then ([g], u) else ([], t)
                   | [] \<Rightarrow> ([], t)) of
               (sg, u) \<Rightarrow>
                 (case span_while is_digit u of
                    (ds, r) \<Rightarrow> if ds = [] then None else Some (c # sg @ ds, r)))
          else Some ([], s))"

definition scan_number :: "string \<Rightarrow> (string \<times> string) option" where
  "scan_number s =
     (case (case s of c # t \<Rightarrow> if c = CHR ''-'' then ([c], t) else ([], s) | [] \<Rightarrow> ([], s)) of
        (sg, t) \<Rightarrow>
          (case scan_int t of None \<Rightarrow> None | Some (i, r1) \<Rightarrow>
            (case scan_frac r1 of None \<Rightarrow> None | Some (f, r2) \<Rightarrow>
              (case scan_exp r2 of None \<Rightarrow> None | Some (e, r3) \<Rightarrow>
                 Some (sg @ i @ f @ e, r3)))))"

definition scan_scalar :: "string \<Rightarrow> (string \<times> string) option" where
  "scan_scalar s =
     (case cut_prefix ''null'' s of Some r \<Rightarrow> Some (''null'', r) | None \<Rightarrow>
     (case cut_prefix ''true'' s of Some r \<Rightarrow> Some (''true'', r) | None \<Rightarrow>
     (case cut_prefix ''false'' s of Some r \<Rightarrow> Some (''false'', r) | None \<Rightarrow>
       scan_number s)))"

section \<open>Values\<close>

text \<open>
  A value with the source text of its scalars (\<open>JLit\<close>: null, true, false, numbers) and of its
  string bodies and keys (\<open>JStr\<close>, the text between the quotes, escapes included).
\<close>

datatype jval =
    JLit string
  | JStr string
  | JArr "jval list"
  | JObj "(string \<times> jval) list"

text \<open>
  The parser. \<open>pval\<close> reads one value, \<open>pelems\<close> the elements of an array after its first
  bracket, \<open>pmembers\<close> the members of an object after its first brace; elements and members come
  with their source text, which is what a \<open>json.RawMessage\<close> holds. The first argument bounds
  the recursion; \<open>parse_fuel\<close> below is always enough.
\<close>

definition raw_text :: "string \<Rightarrow> string \<Rightarrow> bytes" where
  "raw_text s r = take (length (skip_ws s) - length r) (skip_ws s)"

fun pval :: "nat \<Rightarrow> string \<Rightarrow> (jval \<times> string) option"
  and pelems :: "nat \<Rightarrow> string \<Rightarrow> ((bytes \<times> jval) list \<times> string) option"
  and pmembers :: "nat \<Rightarrow> string \<Rightarrow> ((string \<times> bytes \<times> jval) list \<times> string) option" where
  "pval 0 s = None"
| "pval (Suc n) s =
     (case skip_ws s of
        [] \<Rightarrow> None
      | c # t \<Rightarrow>
          if c = quote then map_option (\<lambda>(b, r). (JStr b, r)) (scan_body t)
          else if c = CHR ''['' then
            (case skip_ws t of
               [] \<Rightarrow> None
             | d # u \<Rightarrow> if d = CHR '']'' then Some (JArr [], u)
                        else map_option (\<lambda>(xs, r). (JArr (map snd xs), r)) (pelems n t))
          else if c = CHR ''{'' then
            (case skip_ws t of
               [] \<Rightarrow> None
             | d # u \<Rightarrow> if d = CHR ''}'' then Some (JObj [], u)
                        else map_option (\<lambda>(ms, r). (JObj (map (\<lambda>(k, w, v). (k, v)) ms), r))
                               (pmembers n t))
          else map_option (\<lambda>(l, r). (JLit l, r)) (scan_scalar (c # t)))"
| "pelems 0 s = None"
| "pelems (Suc n) s =
     (case pval n s of
        None \<Rightarrow> None
      | Some (v, r) \<Rightarrow>
          (case skip_ws r of
             [] \<Rightarrow> None
           | d # u \<Rightarrow>
               if d = CHR '']'' then Some ([(raw_text s r, v)], u)
               else if d = CHR '','' then
                 map_option (\<lambda>(xs, r'). ((raw_text s r, v) # xs, r')) (pelems n u)
               else None))"
| "pmembers 0 s = None"
| "pmembers (Suc n) s =
     (case skip_ws s of
        [] \<Rightarrow> None
      | q # t \<Rightarrow>
          if q \<noteq> quote then None else
          (case scan_body t of
             None \<Rightarrow> None
           | Some (k, r1) \<Rightarrow>
               (case skip_ws r1 of
                  [] \<Rightarrow> None
                | d1 # u1 \<Rightarrow>
                    if d1 \<noteq> CHR '':'' then None else
                    (case pval n u1 of
                       None \<Rightarrow> None
                     | Some (v, r2) \<Rightarrow>
                         (case skip_ws r2 of
                            [] \<Rightarrow> None
                          | d # u \<Rightarrow>
                              if d = CHR ''}'' then Some ([(k, raw_text u1 r2, v)], u)
                              else if d = CHR '','' then
                                map_option (\<lambda>(ms, r'). ((k, raw_text u1 r2, v) # ms, r'))
                                  (pmembers n u)
                              else None)))))"

definition parse_fuel :: "string \<Rightarrow> nat" where
  "parse_fuel s = 2 * length s + 2"

text \<open>How deep arrays and objects are nested; the library refuses more than ten thousand.\<close>

fun depth :: "jval \<Rightarrow> nat" where
  "depth (JLit _) = 0"
| "depth (JStr _) = 0"
| "depth (JArr vs) = Suc (fold max (map depth vs) 0)"
| "depth (JObj ms) = Suc (fold max (map (\<lambda>(k, v). depth v) ms) 0)"

definition max_depth :: nat where
  "max_depth = 10000"

definition shallow :: "jval \<Rightarrow> bool" where
  "shallow v \<longleftrightarrow> depth v \<le> max_depth"

text \<open>In binary, for evaluation.\<close>

lemma shallow_code [code]: "shallow v \<longleftrightarrow> int (depth v) \<le> 10000"
  by (simp add: shallow_def max_depth_def)

text \<open>\<open>checkValid\<close>: the whole document is one value, with white space around it.\<close>

definition json_parse :: "bytes \<Rightarrow> jval option" where
  "json_parse s =
     (case pval (parse_fuel s) s of
        Some (v, r) \<Rightarrow> if skip_ws r = [] \<and> shallow v then Some v else None
      | None \<Rightarrow> None)"

end
