(* ===== verification/JsonCodec.thy ===== *)
theory JsonCodec
  imports Json
begin

text \<open>
  Decoding and encoding on top of the parser: string literals to Go strings and back, maps of
  raw messages, the two request structs, and compaction.
\<close>

section \<open>Unquoting\<close>

definition unescape :: "char \<Rightarrow> char option" where
  "unescape e =
     (if e = quote \<or> e = backslash \<or> e = CHR ''/'' \<or> e = CHR 0x27 then Some e
      else if e = CHR ''b'' then Some (CHR 0x08)
      else if e = CHR ''f'' then Some (CHR 0x0C)
      else if e = CHR ''n'' then Some (CHR 0x0A)
      else if e = CHR ''r'' then Some (CHR 0x0D)
      else if e = CHR ''t'' then Some (CHR 0x09)
      else None)"

definition is_surrogate :: "rune \<Rightarrow> bool" where
  "is_surrogate r \<longleftrightarrow> 0xD800 \<le> r \<and> r \<le> 0xDFFF"

definition getu4 :: "string \<Rightarrow> rune option" where
  "getu4 s = (case s of b # e # u \<Rightarrow> if b = backslash \<and> e = CHR ''u'' then hex4 u else None | _ \<Rightarrow> None)"

definition utf16_pair :: "rune \<Rightarrow> rune \<Rightarrow> rune option" where
  "utf16_pair r1 r2 =
     (if 0xD800 \<le> r1 \<and> r1 < 0xDC00 \<and> 0xDC00 \<le> r2 \<and> r2 < 0xE000
      then Some ((r1 - 0xD800) * 1024 + (r2 - 0xDC00) + 0x10000) else None)"

definition low_half :: "rune \<Rightarrow> string \<Rightarrow> rune option" where
  "low_half r s = Option.bind (getu4 s) (utf16_pair r)"

text \<open>
  The body of a string literal as a Go string. A lone surrogate and bytes that are no UTF-8
  become U+FFFD. \<open>None\<close> is the library's panic on a literal its scanner has not accepted.
\<close>

function unquote :: "string \<Rightarrow> string option" where
  "unquote s =
     (case s of
        [] \<Rightarrow> Some []
      | c # t \<Rightarrow>
          if c = backslash then
            (case t of
               [] \<Rightarrow> None
             | e # u \<Rightarrow>
                 if e = CHR ''u'' then
                   (case hex4 u of
                      None \<Rightarrow> None
                    | Some r \<Rightarrow>
                        if is_surrogate r then
                          (case low_half r (drop 4 u) of
                             Some r' \<Rightarrow> map_option (\<lambda>x. encode_rune r' @ x) (unquote (drop 10 u))
                           | None \<Rightarrow>
                               map_option (\<lambda>x. encode_rune rune_error @ x) (unquote (drop 4 u)))
                        else map_option (\<lambda>x. encode_rune r @ x) (unquote (drop 4 u)))
                 else (case unescape e of
                         None \<Rightarrow> None
                       | Some y \<Rightarrow> map_option (\<lambda>x. y # x) (unquote u)))
          else if c = quote \<or> byte c < 0x20 then None
          else if ascii c then map_option (\<lambda>x. c # x) (unquote t)
          else (case decode_rune s of
                  (r, n) \<Rightarrow> map_option (\<lambda>x. encode_rune r @ x) (unquote (drop n s))))"
  by pat_completeness auto
termination
proof (relation "measure length", goal_cases)
  case (7 s c t r n)
  then have "n = snd (decode_rune s)" by (metis snd_conv)
  with 7 show ?case using decode_rune_width [of s] by auto
qed auto

declare unquote.simps [simp del]

lemma unquote_Nil [simp]: "unquote [] = Some []"
  by (simp add: unquote.simps)

lemma unquote_plain:
  "\<lbrakk>ascii c; c \<noteq> backslash; c \<noteq> quote; \<not> byte c < 0x20\<rbrakk> \<Longrightarrow>
   unquote (c # s) = map_option (\<lambda>x. c # x) (unquote s)"
  by (simp add: unquote.simps [of "c # s"])

section \<open>Strings and maps\<close>

text \<open>
  \<open>json.Unmarshal\<close> of a raw message into a string variable that held \<open>""\<close>: a JSON null leaves
  the variable alone, anything but a string is an error (\<open>None\<close>).
\<close>

definition string_of_val :: "string \<Rightarrow> jval \<Rightarrow> string option" where
  "string_of_val old v =
     (case v of JStr b \<Rightarrow> unquote b | JLit l \<Rightarrow> (if l = ''null'' then Some old else None) | _ \<Rightarrow> None)"

definition unmarshal_string :: "bytes \<Rightarrow> string option" where
  "unmarshal_string raw = Option.bind (json_parse raw) (string_of_val [])"

definition object_members :: "bytes \<Rightarrow> (string \<times> bytes \<times> jval) list" where
  "object_members s =
     (case skip_ws s of
        [] \<Rightarrow> []
      | c # t \<Rightarrow>
          (case skip_ws t of
             [] \<Rightarrow> []
           | d # u \<Rightarrow> if d = CHR ''}'' then []
                      else (case pmembers (parse_fuel s) t of None \<Rightarrow> [] | Some (ms, r) \<Rightarrow> ms)))"

definition array_elems :: "bytes \<Rightarrow> (bytes \<times> jval) list" where
  "array_elems s =
     (case skip_ws s of
        [] \<Rightarrow> []
      | c # t \<Rightarrow>
          (case skip_ws t of
             [] \<Rightarrow> []
           | d # u \<Rightarrow> if d = CHR '']'' then []
                      else (case pelems (parse_fuel s) t of None \<Rightarrow> [] | Some (xs, r) \<Rightarrow> xs)))"

text \<open>
  Decoding into \<open>map[string]json.RawMessage\<close>: \<open>None\<close> is an error, \<open>Some None\<close> the nil map that
  a JSON null leaves behind. A key that occurs twice keeps its last value.
\<close>

fun put_members :: "bytes gomap \<Rightarrow> (string \<times> bytes \<times> jval) list \<Rightarrow> bytes gomap option" where
  "put_members m [] = Some m"
| "put_members m ((k, raw, v) # ms) =
     (case unquote k of None \<Rightarrow> None | Some key \<Rightarrow> put_members (AList.update key raw m) ms)"

definition unmarshal_map :: "bytes \<Rightarrow> bytes gomap option option" where
  "unmarshal_map s =
     (case json_parse s of
        Some (JObj _) \<Rightarrow> map_option Some (put_members [] (object_members s))
      | Some (JLit l) \<Rightarrow> if l = ''null'' then Some None else None
      | _ \<Rightarrow> None)"

text \<open>Decoding into \<open>map[string]string\<close>, for the search query.\<close>

fun put_strings :: "string gomap \<Rightarrow> (string \<times> bytes \<times> jval) list \<Rightarrow> string gomap option" where
  "put_strings m [] = Some m"
| "put_strings m ((k, raw, v) # ms) =
     (case unquote k of
        None \<Rightarrow> None
      | Some key \<Rightarrow>
          (case string_of_val [] v of
             None \<Rightarrow> None
           | Some x \<Rightarrow> put_strings (AList.update key x m) ms))"

definition unmarshal_string_map :: "bytes \<Rightarrow> string gomap option" where
  "unmarshal_string_map s =
     (case json_parse s of
        Some (JObj _) \<Rightarrow> put_strings [] (object_members s)
      | Some (JLit l) \<Rightarrow> if l = ''null'' then Some [] else None
      | _ \<Rightarrow> None)"

text \<open>
  Struct fields are matched by name with case folded, as \<open>foldName\<close> does: ASCII letters, and
  the two runes outside ASCII whose fold is an ASCII letter.
\<close>

definition fold_rune :: "rune \<Rightarrow> rune" where
  "fold_rune r =
     (if 0x61 \<le> r \<and> r \<le> 0x7A then r - 0x20
      else if r = 0x17F then 0x53 else if r = 0x212A then 0x4B else r)"

definition names_field :: "string \<Rightarrow> string \<Rightarrow> bool" where
  "names_field key field \<longleftrightarrow> map fold_rune (runes key) = map fold_rune (runes field)"

text \<open>The body of a batch create: \<open>{"objects": [...]}\<close>.\<close>

fun take_objects :: "bytes list \<Rightarrow> (string \<times> bytes \<times> jval) list \<Rightarrow> bytes list option" where
  "take_objects objs [] = Some objs"
| "take_objects objs ((k, raw, v) # ms) =
     (case unquote k of
        None \<Rightarrow> None
      | Some key \<Rightarrow>
          if names_field key ''objects'' then
            (case v of
               JArr _ \<Rightarrow> take_objects (map fst (array_elems raw)) ms
             | JLit l \<Rightarrow> if l = ''null'' then take_objects [] ms else None
             | _ \<Rightarrow> None)
          else take_objects objs ms)"

definition unmarshal_batch :: "bytes \<Rightarrow> bytes list option" where
  "unmarshal_batch s =
     (case json_parse s of
        Some (JObj _) \<Rightarrow> take_objects [] (object_members s)
      | Some (JLit l) \<Rightarrow> if l = ''null'' then Some [] else None
      | _ \<Rightarrow> None)"

text \<open>
  An array decoded into a slice of strings. A slice that is decoded a second time keeps its
  backing array, so a null element leaves what an earlier decoding wrote there; an empty array is
  a new slice. The state is the backing array and the length of the slice.
\<close>

fun fill_strings :: "string list \<Rightarrow> jval list \<Rightarrow> string list option" where
  "fill_strings old [] = Some []"
| "fill_strings old (v # vs) =
     (case string_of_val (case old of [] \<Rightarrow> [] | x # _ \<Rightarrow> x) v of
        None \<Rightarrow> None
      | Some x \<Rightarrow> map_option (\<lambda>xs. x # xs) (fill_strings (tl old) vs))"

type_synonym string_slice = "string list \<times> nat"

definition slice_of_val :: "string_slice \<Rightarrow> jval \<Rightarrow> string_slice option" where
  "slice_of_val sl v =
     (case v of
        JArr [] \<Rightarrow> Some ([], 0)
      | JArr vs \<Rightarrow>
          map_option (\<lambda>xs. (xs @ drop (length xs) (fst sl), length xs)) (fill_strings (fst sl) vs)
      | JLit l \<Rightarrow> if l = ''null'' then Some ([], 0) else None
      | _ \<Rightarrow> None)"

definition slice_strings :: "string_slice \<Rightarrow> string list" where
  "slice_strings sl = take (snd sl) (fst sl)"

text \<open>The body of a batch reveal: \<open>{"ids": [...], "reveal": "..."}\<close>.\<close>

fun take_reveal ::
  "string_slice \<times> string \<Rightarrow> (string \<times> bytes \<times> jval) list \<Rightarrow> (string list \<times> string) option" where
  "take_reveal (ids, reveal) [] = Some (slice_strings ids, reveal)"
| "take_reveal (ids, reveal) ((k, raw, v) # ms) =
     (case unquote k of
        None \<Rightarrow> None
      | Some key \<Rightarrow>
          if names_field key ''ids'' then
            (case slice_of_val ids v of
               None \<Rightarrow> None | Some ids' \<Rightarrow> take_reveal (ids', reveal) ms)
          else if names_field key ''reveal'' then
            (case string_of_val reveal v of
               None \<Rightarrow> None | Some reveal' \<Rightarrow> take_reveal (ids, reveal') ms)
          else take_reveal (ids, reveal) ms)"

definition unmarshal_reveal :: "bytes \<Rightarrow> (string list \<times> string) option" where
  "unmarshal_reveal s =
     (case json_parse s of
        Some (JObj _) \<Rightarrow> take_reveal (([], 0), []) (object_members s)
      | Some (JLit l) \<Rightarrow> if l = ''null'' then Some ([], []) else None
      | _ \<Rightarrow> None)"

section \<open>Marshalling\<close>

definition hex_digit :: "nat \<Rightarrow> char" where
  "hex_digit n = (if n < 10 then char_of (0x30 + n) else char_of (0x61 + n - 10))"

definition u_escape :: "nat \<Rightarrow> string" where
  "u_escape b = [backslash, CHR ''u'', CHR ''0'', CHR ''0'', hex_digit (b div 16), hex_digit (b mod 16)]"

definition is_html :: "char \<Rightarrow> bool" where
  "is_html c \<longleftrightarrow> c = CHR ''<'' \<or> c = CHR ''>'' \<or> c = CHR ''&''"

text \<open>U+2028 and U+2029 are the bytes E2 80 A8 and E2 80 A9; they are written as escapes.\<close>

definition line_sep :: "string \<Rightarrow> (char \<times> string) option" where
  "line_sep s =
     (case s of
        a # b # c # r \<Rightarrow>
          if byte a = 0xE2 \<and> byte b = 0x80 \<and> (byte c = 0xA8 \<or> byte c = 0xA9)
          then Some (if byte c = 0xA8 then CHR ''8'' else CHR ''9'', r) else None
      | _ \<Rightarrow> None)"

lemma line_sep_shorter: "line_sep s = Some (d, r) \<Longrightarrow> length r < length s"
  by (auto simp: line_sep_def split: list.splits if_splits)

definition sep_escape :: "char \<Rightarrow> string" where
  "sep_escape d = [backslash, CHR ''u'', CHR ''2'', CHR ''0'', CHR ''2'', d]"

text \<open>Compaction of a string body: only the HTML characters and the two separators change.\<close>

function html_escape :: "string \<Rightarrow> string" where
  "html_escape s =
     (case line_sep s of
        Some (d, r) \<Rightarrow> sep_escape d @ html_escape r
      | None \<Rightarrow>
          (case s of
             [] \<Rightarrow> []
           | c # t \<Rightarrow> (if is_html c then u_escape (byte c) else [c]) @ html_escape t))"
  by pat_completeness auto
termination
  by (relation "measure length") (auto dest: line_sep_shorter)

declare html_escape.simps [simp del]

fun print_val :: "jval \<Rightarrow> string" where
  "print_val (JLit l) = l"
| "print_val (JStr b) = quote # html_escape b @ [quote]"
| "print_val (JArr vs) = CHR ''['' # join '','' (map print_val vs) @ [CHR '']'']"
| "print_val (JObj ms) =
     CHR ''{'' # join '','' (map (\<lambda>(k, v). quote # html_escape k @ quote # CHR '':'' # print_val v) ms)
       @ [CHR ''}'']"

definition compact :: "bytes \<Rightarrow> bytes option" where
  "compact raw = map_option print_val (json_parse raw)"

text \<open>A Go string as a string literal, as map keys are written.\<close>

definition escape_ascii :: "char \<Rightarrow> string" where
  "escape_ascii c =
     (if c = quote \<or> c = backslash then [backslash, c]
      else if byte c = 0x08 then [backslash, CHR ''b'']
      else if byte c = 0x0C then [backslash, CHR ''f'']
      else if byte c = 0x0A then [backslash, CHR ''n'']
      else if byte c = 0x0D then [backslash, CHR ''r'']
      else if byte c = 0x09 then [backslash, CHR ''t'']
      else if byte c < 0x20 \<or> is_html c then u_escape (byte c)
      else [c])"

definition escape_rune :: "rune \<times> string \<Rightarrow> string" where
  "escape_rune seg =
     (case seg of (r, src) \<Rightarrow>
        if r < 0x80 then concat (map escape_ascii src)
        else if r = rune_error \<and> length src = 1 then backslash # ''ufffd''
        else if r = 0x2028 then sep_escape (CHR ''8'')
        else if r = 0x2029 then sep_escape (CHR ''9'')
        else src)"

definition quote_string :: "string \<Rightarrow> string" where
  "quote_string s = quote # concat (map escape_rune (segments s)) @ [quote]"

text \<open>\<open>json.Marshal\<close> of a map of raw messages: keys sorted, values compacted.\<close>

definition marshal_member :: "string \<times> bytes \<Rightarrow> string option" where
  "marshal_member kv =
     (case kv of (k, raw) \<Rightarrow>
        map_option (\<lambda>w. quote_string k @ CHR '':'' # w) (compact raw))"

definition marshal_map :: "bytes gomap \<Rightarrow> bytes option" where
  "marshal_map m =
     map_option (\<lambda>ws. CHR ''{'' # join '','' ws @ [CHR ''}''])
       (those (map marshal_member (sort_key fst m)))"

end
