(* ===== verification/Documents.thy ===== *)
theory Documents
  imports JsonCodec Complex_Main "HOL-Library.Log_Nat"
begin

text \<open>
  The two JSON documents the program is configured with, decoded the way \<open>encoding/json\<close> does
  with \<open>DisallowUnknownFields\<close>: the schema file and the keys file. A \<open>json.Decoder\<close> reads the
  first value of its input and never looks at what follows.

  The keys file holds numbers. A Go \<open>float64\<close> is the rational it stands for; \<open>round64\<close> is
  rounding to the nearest one, ties to even.
\<close>

section \<open>Numbers\<close>

type_synonym float64 = rat

definition round_half_even :: "rat \<Rightarrow> int" where
  "round_half_even x =
     (let f = \<lfloor>x\<rfloor>; d = x - of_int f in
      if d < 1 / 2 then f else if d > 1 / 2 then f + 1 else if even f then f else f + 1)"

definition pow2 :: "int \<Rightarrow> rat" where
  "pow2 e = (if 0 \<le> e then 2 ^ nat e else 1 / 2 ^ nat (- e))"

text \<open>
  The exponent of the last bit of the 53-bit significand of a positive number; numbers below the
  normal range keep the smallest one.
\<close>

definition ulp_exponent :: "rat \<Rightarrow> int" where
  "ulp_exponent x =
     (case quotient_of x of (n, d) \<Rightarrow>
        let e = int (floorlog 2 (nat n)) - int (floorlog 2 (nat d)) - 53 in
        max (-1074) (if x < pow2 (e + 53) then e else e + 1))"

definition round64 :: "rat \<Rightarrow> float64" where
  "round64 x =
     (if x = 0 then 0
      else let e = ulp_exponent \<bar>x\<bar> in
           (if x < 0 then -1 else 1) * of_int (round_half_even (\<bar>x\<bar> / pow2 e)) * pow2 e)"

definition decimal_value :: "string \<Rightarrow> nat" where
  "decimal_value ds = foldl (\<lambda>n c. 10 * n + (byte c - 0x30)) 0 ds"

definition sign_of :: "string \<Rightarrow> bool \<times> string" where
  "sign_of s =
     (case s of c # t \<Rightarrow> if c = CHR ''-'' then (True, t) else if c = CHR ''+'' then (False, t)
                         else (False, s)
      | [] \<Rightarrow> (False, s))"

definition exponent_value :: "string \<Rightarrow> int" where
  "exponent_value s =
     (case s of
        [] \<Rightarrow> 0
      | c # t \<Rightarrow> (case sign_of t of (neg, ds) \<Rightarrow>
                   (if neg then - int (decimal_value ds) else int (decimal_value ds))))"

text \<open>The number a literal of the JSON grammar denotes: sign, digits, fraction, exponent.\<close>

definition number_value :: "string \<Rightarrow> rat" where
  "number_value lit =
     (case sign_of lit of (neg, t) \<Rightarrow>
      (case span_while is_digit t of (i, r1) \<Rightarrow>
      (case (case r1 of c # u \<Rightarrow> if c = CHR ''.'' then span_while is_digit u else ([], r1)
               | [] \<Rightarrow> ([], r1)) of (f, r2) \<Rightarrow>
        (let m = of_nat (decimal_value (i @ f)); k = exponent_value r2 - int (length f);
             x = (if 0 \<le> k then m * 10 ^ nat k else m / 10 ^ nat (- k))
         in if neg then - x else x))))"

text \<open>\<open>strconv.ParseFloat\<close>: out of range is an error.\<close>

definition parse_float :: "string \<Rightarrow> float64 option" where
  "parse_float lit =
     (let x = round64 (number_value lit) in if \<bar>x\<bar> < 2 ^ 1024 then Some x else None)"

section \<open>The first value of the input\<close>

definition decode_first :: "bytes \<Rightarrow> jval option" where
  "decode_first s =
     (case pval (parse_fuel s) s of
        Some (v, r) \<Rightarrow> if shallow v then Some v else None
      | None \<Rightarrow> None)"

text \<open>
  Fields of a struct. A JSON null leaves a string, a number or a boolean as it was, empties a
  slice or a map, and as an element of a map is the zero value.
\<close>

definition bool_of_val :: "bool \<Rightarrow> jval \<Rightarrow> bool option" where
  "bool_of_val old v =
     (case v of
        JLit l \<Rightarrow> if l = ''true'' then Some True else if l = ''false'' then Some False
                  else if l = ''null'' then Some old else None
      | _ \<Rightarrow> None)"

definition float_of_val :: "float64 \<Rightarrow> jval \<Rightarrow> float64 option" where
  "float_of_val old v =
     (case v of
        JLit l \<Rightarrow> if l = ''null'' then Some old
                  else if l = ''true'' \<or> l = ''false'' then None else parse_float l
      | _ \<Rightarrow> None)"

text \<open>The members of a value that must be an object; null is \<open>Some None\<close>.\<close>

definition members_of :: "bytes \<Rightarrow> jval \<Rightarrow> (string \<times> bytes \<times> jval) list option option" where
  "members_of raw v =
     (case v of
        JObj _ \<Rightarrow> Some (Some (object_members raw))
      | JLit l \<Rightarrow> if l = ''null'' then Some None else None
      | _ \<Rightarrow> None)"

text \<open>A map decoded member by member; every element starts from the zero value.\<close>

fun take_elements ::
  "(bytes \<Rightarrow> jval \<Rightarrow> 'v option) \<Rightarrow> 'v gomap \<Rightarrow> (string \<times> bytes \<times> jval) list \<Rightarrow> 'v gomap option" where
  "take_elements f m [] = Some m"
| "take_elements f m ((k, raw, v) # ms) =
     (case unquote k of
        None \<Rightarrow> None
      | Some key \<Rightarrow>
          (case f raw v of None \<Rightarrow> None | Some x \<Rightarrow> take_elements f (AList.update key x m) ms))"

lemma take_elements_gomap: "take_elements f m ms = Some m' \<Longrightarrow> gomap_ok m \<Longrightarrow> gomap_ok m'"
  by (induction f m ms rule: take_elements.induct)
    (auto simp: distinct_update split: option.splits)

lemma take_elements_all:
  "take_elements f m ms = Some m' \<Longrightarrow> \<forall>(k, x) \<in> set m. P x \<Longrightarrow>
   (\<And>raw v x. f raw v = Some x \<Longrightarrow> P x) \<Longrightarrow> (k, x) \<in> set m' \<Longrightarrow> P x"
proof (induction f m ms rule: take_elements.induct)
  case (2 f m k' raw v ms)
  then obtain key y where u: "unquote k' = Some key" "f raw v = Some y"
    "take_elements f (AList.update key y m) ms = Some m'"
    by (auto split: option.splits)
  have "\<forall>(k, x) \<in> set (AList.update key y m). P x"
    using 2(3,4) u(2) by (auto dest!: update_member)
  with 2(1) [OF u(1,2,3)] 2(4,5) show ?case by blast
qed auto

text \<open>A struct decoded member by member; \<open>f\<close> refuses names the struct has no field for.\<close>

fun take_fields ::
  "(string \<Rightarrow> bytes \<Rightarrow> jval \<Rightarrow> 's \<Rightarrow> 's option) \<Rightarrow> 's \<Rightarrow> (string \<times> bytes \<times> jval) list \<Rightarrow> 's option" where
  "take_fields f s [] = Some s"
| "take_fields f s ((k, raw, v) # ms) =
     (case unquote k of
        None \<Rightarrow> None
      | Some key \<Rightarrow> (case f key raw v s of None \<Rightarrow> None | Some s' \<Rightarrow> take_fields f s' ms))"

lemma take_fields_invariant:
  "take_fields f s ms = Some s' \<Longrightarrow> P s \<Longrightarrow>
   (\<And>key raw v s s'. P s \<Longrightarrow> f key raw v s = Some s' \<Longrightarrow> P s') \<Longrightarrow> P s'"
  by (induction f s ms rule: take_fields.induct) (auto split: option.splits)

end
