(* ===== verification/Auth.thy ===== *)
theory Auth
  imports Documents
begin

text \<open>
  Clients and their keys (internal/api/auth.go): the keys file, its validation, and the check of
  a request's bearer key. SHA-256 is an argument; what is used of it is that it does not map the
  presented key and another client's key to one hash.
\<close>

section \<open>Roles and clients\<close>

definition RoleWrite :: string where "RoleWrite = ''write''"
definition RoleDelete :: string where "RoleDelete = ''delete''"
definition RoleReadMasked :: string where "RoleReadMasked = ''read_masked''"
definition RoleReadFull :: string where "RoleReadFull = ''read_full''"
definition RoleSearch :: string where "RoleSearch = ''search''"

definition AllRoles :: "string list" where
  "AllRoles = [RoleWrite, RoleDelete, RoleReadMasked, RoleReadFull, RoleSearch]"

definition minKeyLen :: nat where
  "minKeyLen = 16"

record client =
  c_name :: string
  c_key :: string
  c_roles :: "string list"
  c_reveal_per_second :: float64

definition no_client :: client where
  "no_client = \<lparr>c_name = [], c_key = [], c_roles = [], c_reveal_per_second = 0\<rparr>"

definition defaultRevealPerSecond :: float64 where
  "defaultRevealPerSecond = 200"

definition has :: "client \<Rightarrow> string \<Rightarrow> bool" where
  "has c role \<longleftrightarrow> role \<in> set (c_roles c)"

section \<open>The keys file\<close>

datatype keys_error =
    Cannot_read_keys goerr
  | Bad_keys_document
  | Client_without_name
  | Two_clients_named string
  | Key_too_short string
  | Shared_key string string
  | No_roles string
  | Unknown_role string string
  | Negative_rate string

text \<open>One round of the loop of \<open>ValidateClients\<close>, with the names and the key owners seen so far.\<close>

definition check_client ::
  "client \<Rightarrow> string list \<times> string gomap \<Rightarrow> keys_error + string list \<times> string gomap" where
  "check_client c st =
     (case st of (names, owner) \<Rightarrow>
        if c_name c = [] then Inl Client_without_name
        else if c_name c \<in> set names then Inl (Two_clients_named (c_name c))
        else if length (c_key c) < minKeyLen then Inl (Key_too_short (c_name c))
        else
          (case map_of owner (c_key c) of
             Some other \<Rightarrow> Inl (Shared_key other (c_name c))
           | None \<Rightarrow>
               if length (c_roles c) = 0 then Inl (No_roles (c_name c))
               else
                 (case find (\<lambda>r. r \<notin> set AllRoles) (c_roles c) of
                    Some r \<Rightarrow> Inl (Unknown_role (c_name c) r)
                  | None \<Rightarrow>
                      if c_reveal_per_second c < 0 then Inl (Negative_rate (c_name c))
                      else Inr (c_name c # names, AList.update (c_key c) (c_name c) owner))))"

fun check_clients ::
  "client list \<Rightarrow> string list \<times> string gomap \<Rightarrow> keys_error + string list \<times> string gomap" where
  "check_clients [] st = Inr st"
| "check_clients (c # cs) st =
     (case check_client c st of Inl e \<Rightarrow> Inl e | Inr st' \<Rightarrow> check_clients cs st')"

definition ValidateClients :: "client list \<Rightarrow> keys_error + unit" where
  "ValidateClients clients =
     (case check_clients clients ([], []) of Inl e \<Rightarrow> Inl e | Inr _ \<Rightarrow> Inr ())"

definition client_member ::
  "string \<Rightarrow> bytes \<Rightarrow> jval \<Rightarrow> string \<times> string_slice \<times> float64
   \<Rightarrow> (string \<times> string_slice \<times> float64) option" where
  "client_member key raw v st =
     (case st of (k, rs, per) \<Rightarrow>
        if names_field key ''key'' then map_option (\<lambda>k'. (k', rs, per)) (string_of_val k v)
        else if names_field key ''roles'' then map_option (\<lambda>rs'. (k, rs', per)) (slice_of_val rs v)
        else if names_field key ''reveal_per_second''
        then map_option (\<lambda>per'. (k, rs, per')) (float_of_val per v)
        else None)"

definition decode_client :: "bytes \<Rightarrow> jval \<Rightarrow> client option" where
  "decode_client raw v =
     (case members_of raw v of
        None \<Rightarrow> None
      | Some ms \<Rightarrow>
          map_option
            (\<lambda>(k, rs, per). no_client\<lparr>c_key := k, c_roles := slice_strings rs, c_reveal_per_second := per\<rparr>)
            (take_fields client_member ([], ([], 0), 0) (case ms of None \<Rightarrow> [] | Some l \<Rightarrow> l)))"

definition decode_clients :: "bytes \<Rightarrow> client gomap option" where
  "decode_clients data =
     (case decode_first data of
        None \<Rightarrow> None
      | Some v \<Rightarrow>
          (case members_of data v of
             None \<Rightarrow> None
           | Some None \<Rightarrow> Some []
           | Some (Some ms) \<Rightarrow> take_elements decode_client [] ms))"

definition ParseClients ::
  "(string list \<Rightarrow> string list) \<Rightarrow> bytes \<Rightarrow> keys_error + client list" where
  "ParseClients pick data =
     (case decode_clients data of
        None \<Rightarrow> Inl Bad_keys_document
      | Some byName \<Rightarrow>
          (let clients = map (\<lambda>(name, c). c\<lparr>c_name := name\<rparr>) (range_over pick byName) in
           (case ValidateClients clients of Inl e \<Rightarrow> Inl e | Inr _ \<Rightarrow> Inr clients)))"

definition LoadClients ::
  "(string list \<Rightarrow> string list) \<Rightarrow> (string \<Rightarrow> bytes result) \<Rightarrow> string \<Rightarrow> keys_error + client list" where
  "LoadClients pick read_file path =
     (if path = [] then Inr []
      else (case read_file path of
              Inl e \<Rightarrow> Inl (Cannot_read_keys e)
            | Inr data \<Rightarrow> ParseClients pick data))"

section \<open>Authentication\<close>

text \<open>Every client is compared and the last match stays; hashes of one length, so the constant-time
  comparison is equality.\<close>

definition authenticate ::
  "(bytes \<Rightarrow> bytes) \<Rightarrow> client list \<Rightarrow> string \<Rightarrow> client \<times> bool" where
  "authenticate sha256 clients header =
     (case cut_prefix ''Bearer '' header of
        None \<Rightarrow> (no_client, False)
      | Some key \<Rightarrow>
          (let got = sha256 key in
           foldl (\<lambda>(found, matched) c. if got = sha256 (c_key c) then (c, True) else (found, matched))
             (no_client, False) clients))"

section \<open>What validation guarantees\<close>

definition client_ok :: "client \<Rightarrow> bool" where
  "client_ok c \<longleftrightarrow>
     c_name c \<noteq> [] \<and> minKeyLen \<le> length (c_key c) \<and> c_roles c \<noteq> []
     \<and> set (c_roles c) \<subseteq> set AllRoles \<and> 0 \<le> c_reveal_per_second c"

definition clients_ok :: "client list \<Rightarrow> bool" where
  "clients_ok cs \<longleftrightarrow>
     list_all client_ok cs \<and> distinct (map c_name cs) \<and> distinct (map c_key cs)"

lemma find_bad_role: "find (\<lambda>r. r \<notin> A) rs = None \<longleftrightarrow> set rs \<subseteq> A"
  by (auto simp: find_None_iff)

lemma map_of_update_None: "map_of (AList.update k v m) k' = None \<longleftrightarrow> k \<noteq> k' \<and> map_of m k' = None"
  by (auto simp: update_conv')

lemma check_client_Inr:
  "check_client c (names, owner) = Inr st \<longleftrightarrow>
     client_ok c \<and> c_name c \<notin> set names \<and> map_of owner (c_key c) = None
     \<and> st = (c_name c # names, AList.update (c_key c) (c_name c) owner)"
  by (auto simp: check_client_def client_ok_def find_bad_role not_less not_le
      split: option.splits if_splits dest: find_SomeD)

lemma check_clients_Inr:
  "(\<exists>st. check_clients cs (names, owner) = Inr st) \<longleftrightarrow>
     clients_ok cs \<and> (\<forall>c \<in> set cs. c_name c \<notin> set names \<and> map_of owner (c_key c) = None)"
proof (induction cs arbitrary: names owner)
  case Nil
  show ?case by (simp add: clients_ok_def)
next
  case (Cons c cs)
  show ?case
  proof (cases "check_client c (names, owner)")
    case (Inl e)
    then have "\<not> (client_ok c \<and> c_name c \<notin> set names \<and> map_of owner (c_key c) = None)"
      using check_client_Inr [of c names owner] by auto
    with Inl show ?thesis by (auto simp: clients_ok_def)
  next
    case (Inr st)
    then have c: "client_ok c" "c_name c \<notin> set names" "map_of owner (c_key c) = None"
      and st: "st = (c_name c # names, AList.update (c_key c) (c_name c) owner)"
      by (simp_all add: check_client_Inr)
    have "(\<exists>st'. check_clients (c # cs) (names, owner) = Inr st') \<longleftrightarrow>
        (\<exists>st'. check_clients cs (c_name c # names, AList.update (c_key c) (c_name c) owner) = Inr st')"
      by (simp add: Inr st)
    also have "\<dots> \<longleftrightarrow> clients_ok cs \<and> (\<forall>d \<in> set cs. c_name d \<notin> set (c_name c # names)
        \<and> map_of (AList.update (c_key c) (c_name c) owner) (c_key d) = None)"
      by (rule Cons.IH)
    also have "\<dots> \<longleftrightarrow> clients_ok (c # cs) \<and>
        (\<forall>d \<in> set (c # cs). c_name d \<notin> set names \<and> map_of owner (c_key d) = None)"
      using c by (auto simp: clients_ok_def map_of_update_None image_iff)
    finally show ?thesis .
  qed
qed

lemma ValidateClients_ok: "ValidateClients cs = Inr () \<longleftrightarrow> clients_ok cs"
  using check_clients_Inr [of cs "[]" "[]"]
  by (auto simp: ValidateClients_def split: sum.splits)

lemma authenticate_fold:
  "foldl (\<lambda>(found, matched) c. if got = sha256 (c_key c) then (c, True) else (found, matched)) st cs =
     (case filter (\<lambda>c. got = sha256 (c_key c)) cs of [] \<Rightarrow> st | ms \<Rightarrow> (last ms, True))"
  by (induction cs arbitrary: st) (auto split: list.splits)

lemma authenticate_matched:
  assumes "authenticate sha256 cs header = (c, True)"
  shows "c \<in> set cs \<and> (\<exists>key. header = ''Bearer '' @ key \<and> sha256 key = sha256 (c_key c))"
proof -
  from assms obtain key where k: "cut_prefix ''Bearer '' header = Some key"
    by (auto simp: authenticate_def split: option.splits)
  let ?ms = "filter (\<lambda>c. sha256 key = sha256 (c_key c)) cs"
  from assms k have ms: "?ms \<noteq> []" "c = last ?ms"
    by (auto simp: authenticate_def authenticate_fold Let_def split: list.splits)
  then have "c \<in> set ?ms" by (metis last_in_set)
  with k show ?thesis by (auto simp: cut_prefix_Some)
qed

end
