(* ===== verification/FieldTypes.thy ===== *)
theory FieldTypes
  imports JsonCodec
begin

text \<open>
  The declarable field types (internal/schema/types.go): what each accepts, how it is masked and
  how it is normalized for search. A type without a normal form has no normalize function, which
  is Go's nil function value and \<open>None\<close> here.
\<close>

section \<open>Types and their functions\<close>

record field_type =
  ft_validate :: "string \<Rightarrow> unit result"
  ft_mask :: "string \<Rightarrow> string"
  ft_normalize :: "(string \<Rightarrow> string) option"

definition hidden :: string where
  "hidden = ''***''"

definition normalizeEmail :: "string \<Rightarrow> string" where
  "normalizeEmail v = to_lower (trim_space v)"

definition validateEmail :: "string \<Rightarrow> unit result" where
  "validateEmail v =
     (case cut_at (CHR ''@'') v of
        (local_part, domain, ok) \<Rightarrow>
          if \<not> ok \<or> local_part = [] \<or> domain = []
             \<or> contains_any v [CHR '' '', CHR 0x09, CHR 0x0D, CHR 0x0A] \<or> CHR ''@'' \<in> set domain
          then Inl (ErrMsg ''not an email address'')
          else Inr ())"

definition first_rune :: "string \<Rightarrow> string" where
  "first_rune s = (case runes s of [] \<Rightarrow> [] | r # _ \<Rightarrow> encode_rune r)"

definition maskEmail :: "string \<Rightarrow> string" where
  "maskEmail v =
     (case cut_at (CHR ''@'') v of
        (local_part, domain, _) \<Rightarrow>
          if domain = [] then hidden
          else first_rune local_part @ hidden @ ''@'' @ domain)"

definition digits :: "string \<Rightarrow> string" where
  "digits v = concat (map encode_rune (filter (\<lambda>r. 0x30 \<le> r \<and> r \<le> 0x39) (runes v)))"

definition last4 :: "string \<Rightarrow> string" where
  "last4 d = (if length d < 4 then [] else drop (length d - 4) d)"

definition validatePhone :: "string \<Rightarrow> unit result" where
  "validatePhone v =
     (if trim_cutset v ''0123456789 +-().'' \<noteq> [] then Inl (ErrMsg ''not a phone number'')
      else (let n = length (digits v) in
            if n < 7 \<or> n > 15 then Inl (ErrMsg ''not a phone number'') else Inr ()))"

definition maskPhone :: "string \<Rightarrow> string" where
  "maskPhone v = (let tail = last4 (digits v) in if tail = [] then hidden else hidden @ tail)"

text \<open>
  The loop of \<open>luhn\<close> runs over the digits from the last one; \<open>d[i] - '0'\<close> is a byte
  subtraction, so it wraps around.
\<close>

fun luhn_sum :: "bool \<Rightarrow> nat \<Rightarrow> string \<Rightarrow> nat" where
  "luhn_sum dbl acc [] = acc"
| "luhn_sum dbl acc (c # cs) =
     (let n = (byte c + 256 - byte (CHR ''0'')) mod 256;
          m = (if dbl then (if n * 2 > 9 then n * 2 - 9 else n * 2) else n)
      in luhn_sum (\<not> dbl) (acc + m) cs)"

definition luhn :: "string \<Rightarrow> bool" where
  "luhn d = (luhn_sum False 0 (rev d) mod 10 = 0)"

definition validateCard :: "string \<Rightarrow> unit result" where
  "validateCard v =
     (if trim_cutset v ''0123456789 -'' \<noteq> [] then Inl (ErrMsg ''not a card number'')
      else (let d = digits v in
            if length d < 13 \<or> length d > 19 \<or> \<not> luhn d then Inl (ErrMsg ''not a card number'')
            else Inr ()))"

definition maskCard :: "string \<Rightarrow> string" where
  "maskCard v =
     (let tail = last4 (digits v) in if tail = [] then hidden else ''**** **** **** '' @ tail)"

definition type_string :: field_type where
  "type_string = \<lparr>ft_validate = (\<lambda>_. Inr ()), ft_mask = (\<lambda>_. hidden), ft_normalize = None\<rparr>"

definition type_email :: field_type where
  "type_email = \<lparr>ft_validate = validateEmail, ft_mask = maskEmail, ft_normalize = Some normalizeEmail\<rparr>"

definition type_phone :: field_type where
  "type_phone = \<lparr>ft_validate = validatePhone, ft_mask = maskPhone, ft_normalize = Some digits\<rparr>"

definition type_card :: field_type where
  "type_card = \<lparr>ft_validate = validateCard, ft_mask = maskCard, ft_normalize = Some digits\<rparr>"

definition types :: "field_type gomap" where
  "types = [(''string'', type_string), (''email'', type_email), (''phone'', type_phone),
            (''card'', type_card)]"

section \<open>Digits\<close>

text \<open>
  Runes are decoded one by one, but a digit is one byte and no byte of a longer sequence is a
  digit, so the digits of a string are its digit bytes, whatever else it holds.
\<close>

lemma segments_Cons_cases:
  obtains r n where "decode_rune (c # s) = (r, n)" "0 < n"
    and "segments (c # s) = (r, take n (c # s)) # segments (drop n (c # s))"
proof -
  obtain r n where d: "decode_rune (c # s) = (r, n)" by (cases "decode_rune (c # s)")
  then have "0 < n" using decode_rune_width [of "c # s"] by simp
  with d show thesis using that by (simp add: segments.simps [of "c # s"])
qed

lemma is_digit_ascii: "is_digit c \<Longrightarrow> ascii c"
  by (simp add: is_digit_def ascii_def)

lemma digits_eq_filter: "digits v = filter is_digit v"
proof (induction "length v" arbitrary: v rule: less_induct)
  case less
  show ?case
  proof (cases v)
    case Nil
    then show ?thesis by (simp add: digits_def)
  next
    case (Cons c s)
    obtain r n where d: "decode_rune (c # s) = (r, n)" and n: "0 < n"
      and seg: "segments (c # s) = (r, take n (c # s)) # segments (drop n (c # s))"
      by (rule segments_Cons_cases)
    have IH: "digits (drop n (c # s)) = filter is_digit (drop n (c # s))"
      using less [of "drop n v"] Cons n by simp
    have hd: "concat (map encode_rune (filter (\<lambda>r. 0x30 \<le> r \<and> r \<le> 0x39) [r]))
              = filter is_digit (take n (c # s))"
    proof (cases "ascii c")
      case True
      with d have "r = byte c" "n = 1"
        using decode_rune_cases [OF d] by (auto simp: decode_rune_def ascii_def Let_def)
      with True show ?thesis by (auto simp: is_digit_def)
    next
      case False
      with decode_rune_cases [OF d]
      have "0x80 \<le> r" and "\<forall>x \<in> set (take n (c # s)). \<not> ascii x" by auto
      then have "filter is_digit (take n (c # s)) = []"
        by (auto simp: filter_empty_conv simp del: take_Cons' dest: is_digit_ascii)
      with \<open>0x80 \<le> r\<close> show ?thesis by simp
    qed
    have "digits v = filter is_digit (take n (c # s)) @ digits (drop n (c # s))"
      using hd by (auto simp: Cons digits_def runes_def seg)
    also have "\<dots> = filter is_digit (take n (c # s) @ drop n (c # s))"
      by (simp only: IH filter_append)
    finally show ?thesis by (simp only: Cons append_take_drop_id)
  qed
qed

lemma digits_idem: "digits (digits v) = digits v"
  by (simp add: digits_eq_filter)

lemma last4_length: "last4 d = [] \<or> length (last4 d) = 4"
  by (auto simp: last4_def)

section \<open>The Luhn checksum\<close>

definition luhn_term :: "bool \<Rightarrow> char \<Rightarrow> nat" where
  "luhn_term dbl c =
     (let n = (byte c + 256 - byte (CHR ''0'')) mod 256
      in (if dbl then (if n * 2 > 9 then n * 2 - 9 else n * 2) else n))"

lemma luhn_sum_step: "luhn_sum dbl acc (c # cs) = luhn_sum (\<not> dbl) (acc + luhn_term dbl c) cs"
  by (simp only: luhn_sum.simps Let_def luhn_term_def)

declare luhn_sum.simps(2) [simp del]

lemma luhn_sum_acc: "luhn_sum dbl acc cs = acc + luhn_sum dbl 0 cs"
proof (induction cs arbitrary: dbl acc)
  case Nil
  show ?case by simp
next
  case (Cons c cs)
  show ?case
    using Cons.IH [of "\<not> dbl" "acc + luhn_term dbl c"] Cons.IH [of "\<not> dbl" "0 + luhn_term dbl c"]
    by (simp add: luhn_sum_step)
qed

lemma luhn_sum_Cons: "luhn_sum dbl 0 (c # cs) = luhn_term dbl c + luhn_sum (\<not> dbl) 0 cs"
  by (simp add: luhn_sum_step) (rule luhn_sum_acc)

lemma luhn_sum_append:
  "luhn_sum dbl 0 (xs @ ys) = luhn_sum dbl 0 xs + luhn_sum (dbl \<noteq> odd (length xs)) 0 ys"
proof (induction xs arbitrary: dbl)
  case Nil
  show ?case by simp
next
  case (Cons x xs)
  have par: "((\<not> dbl) \<noteq> odd (length xs)) = (dbl \<noteq> odd (length (x # xs)))" by auto
  show ?case
    using Cons.IH [of "\<not> dbl"] unfolding par
    by (simp only: append_Cons luhn_sum_Cons add.assoc)
qed

lemma digit_cases:
  assumes "is_digit c"
  obtains n :: nat where "n < 10" and "c = char_of (48 + n)"
proof
  show "byte c - 48 < 10" using assms unfolding is_digit_def by linarith
  show "c = char_of (48 + (byte c - 48))"
    using assms by (metis is_digit_def char_of_byte le_add_diff_inverse)
qed

lemma luhn_term_digit:
  "n < 10 \<Longrightarrow> luhn_term dbl (char_of (48 + n)) =
     (if dbl then (if n * 2 > 9 then n * 2 - 9 else n * 2) else n)"
  by (simp add: luhn_term_def Let_def byte_def)

lemma luhn_term_less: "is_digit c \<Longrightarrow> luhn_term dbl c < 10"
  by (auto elim!: digit_cases simp: luhn_term_digit)

lemma luhn_term_inj:
  assumes "is_digit c" and "is_digit d" and "luhn_term dbl c = luhn_term dbl d"
  shows "c = d"
proof -
  obtain m :: nat where m: "m < 10" "c = char_of (48 + m)" using assms(1) by (rule digit_cases)
  obtain n :: nat where n: "n < 10" "d = char_of (48 + n)" using assms(2) by (rule digit_cases)
  have "m = n" using assms(3) m n by (auto simp: luhn_term_digit split: if_splits; presburger)
  with m n show ?thesis by simp
qed

text \<open>Two neighbouring digits swapped change the sum unless they are 0 and 9.\<close>

definition swap_safe :: "bool \<Rightarrow> nat \<Rightarrow> nat \<Rightarrow> bool" where
  "swap_safe dbl m n =
     (m = n \<or> (m = 0 \<and> n = 9) \<or> (m = 9 \<and> n = 0) \<or>
      (let g = (\<lambda>b k. if b then (if k * 2 > 9 then k * 2 - 9 else k * 2) else k)
       in (g dbl m + g (\<not> dbl) n) mod 10 \<noteq> (g dbl n + g (\<not> dbl) m) mod 10))"

lemma swap_safe_table:
  "list_all (\<lambda>dbl. list_all (\<lambda>m. list_all (swap_safe dbl m) [0..<10]) [0..<10]) [False, True]"
  by code_simp

lemma luhn_term_swap:
  assumes "is_digit c" and "is_digit d" and "c \<noteq> d"
    and "{c, d} \<noteq> {CHR ''0'', CHR ''9''}"
  shows "(luhn_term dbl c + luhn_term (\<not> dbl) d) mod 10
       \<noteq> (luhn_term dbl d + luhn_term (\<not> dbl) c) mod 10"
proof -
  obtain m :: nat where m: "m < 10" "c = char_of (48 + m)" using assms(1) by (rule digit_cases)
  obtain n :: nat where n: "n < 10" "d = char_of (48 + n)" using assms(2) by (rule digit_cases)
  have c0: "CHR ''0'' = char_of (48 + 0 :: nat)" and c9: "CHR ''9'' = char_of (48 + 9 :: nat)"
    by code_simp+
  have mn: "m \<noteq> n" "\<not> (m = 0 \<and> n = 9)" "\<not> (m = 9 \<and> n = 0)"
    using assms(3,4) m(2) n(2) unfolding c0 c9 by blast+
  have "swap_safe dbl m n"
    using swap_safe_table m(1) n(1) by (cases dbl) (auto simp: list_all_iff simp del: upt_rec_numeral)
  with mn have "(let g = (\<lambda>b k. if b then (if k * 2 > 9 then k * 2 - 9 else k * 2) else k)
       in (g dbl m + g (\<not> dbl) n) mod 10 \<noteq> (g dbl n + g (\<not> dbl) m) mod 10)"
    unfolding swap_safe_def by blast
  then show ?thesis
    by (simp only: m(2) n(2) luhn_term_digit [OF m(1)] luhn_term_digit [OF n(1)] Let_def not_False_eq_True)
qed

lemma luhn_split:
  "luhn (xs @ ys) \<longleftrightarrow>
     (luhn_sum False 0 (rev ys) + luhn_sum (odd (length ys)) 0 (rev xs)) mod 10 = 0"
  by (simp add: luhn_def luhn_sum_append)

end
