(* ===== verification/Schema.thy ===== *)
theory Schema
  imports FieldTypes Documents
begin

text \<open>
  Collection schemas (internal/schema/schema.go): the declaration of a collection, the checks of
  \<open>Parse\<close>, and the four operations on objects, \<open>Validate\<close>, \<open>Mask\<close>, \<open>Indexed\<close> and
  \<open>Normalize\<close>. An object is the map of raw JSON messages its fields hold.

  A call through a nil function value panics in Go; that is the error \<open>Nil_call\<close> here, and a
  lemma shows that no schema \<open>Parse\<close> accepts can reach it.
\<close>

section \<open>Declarations\<close>

record field =
  f_type :: string
  f_index :: bool
  f_fragments :: "string list"

record collection_decl =
  c_fields :: "field gomap"

type_synonym schema = "collection_decl gomap"
type_synonym json_object = "bytes gomap"

datatype schema_error =
    Nil_call
  | Cannot_read goerr
  | Bad_document
  | Unknown_type string string string
  | Cannot_be_indexed string string string
  | Unknown_fragment string string string
  | Fragment_needs_digits string string string
  | Unknown_field string
  | Must_be_a_string string
  | Bad_value string goerr
  | Not_indexed string
  | Last_four_only string

definition fragmentLast4 :: string where
  "fragmentLast4 = ''last4''"

definition fragment_name :: "string \<Rightarrow> string" where
  "fragment_name name = name @ ''#'' @ fragmentLast4"

text \<open>\<open>s[collection].Fields\<close>: a collection that is not declared has no fields.\<close>

definition fields_of :: "schema \<Rightarrow> string \<Rightarrow> field gomap" where
  "fields_of s cname = (case map_of s cname of None \<Rightarrow> [] | Some c \<Rightarrow> c_fields c)"

definition normalize_fn :: "string \<Rightarrow> (string \<Rightarrow> string) option" where
  "normalize_fn t = Option.bind (map_of types t) ft_normalize"

section \<open>Parse\<close>

definition check_fragment :: "string \<Rightarrow> string \<Rightarrow> field \<Rightarrow> string \<Rightarrow> schema_error + unit" where
  "check_fragment cname fname f fr =
     (if fr \<noteq> fragmentLast4 then Inl (Unknown_fragment cname fname fr)
      else if f_type f \<noteq> ''phone'' \<and> f_type f \<noteq> ''card'' then Inl (Fragment_needs_digits cname fname fr)
      else Inr ())"

definition check_field :: "string \<Rightarrow> string \<times> field \<Rightarrow> schema_error + unit list" where
  "check_field cname nf =
     (case nf of (fname, f) \<Rightarrow>
        (case map_of types (f_type f) of
           None \<Rightarrow> Inl (Unknown_type cname fname (f_type f))
         | Some t \<Rightarrow>
             if f_index f \<and> ft_normalize t = None then Inl (Cannot_be_indexed cname fname (f_type f))
             else try_map (check_fragment cname fname f) (f_fragments f)))"

definition check_collection ::
  "(string list \<Rightarrow> string list) \<Rightarrow> string \<times> collection_decl \<Rightarrow> schema_error + unit list list" where
  "check_collection pick cc =
     (case cc of (cname, c) \<Rightarrow> try_map (check_field cname) (range_over pick (c_fields c)))"

text \<open>The document: the fields of the two structs, and the maps that hold them.\<close>

definition field_member ::
  "string \<Rightarrow> bytes \<Rightarrow> jval \<Rightarrow> string \<times> bool \<times> string_slice \<Rightarrow> (string \<times> bool \<times> string_slice) option" where
  "field_member key raw v st =
     (case st of (t, ix, frs) \<Rightarrow>
        if names_field key ''type'' then map_option (\<lambda>t'. (t', ix, frs)) (string_of_val t v)
        else if names_field key ''index'' then map_option (\<lambda>ix'. (t, ix', frs)) (bool_of_val ix v)
        else if names_field key ''fragments'' then map_option (\<lambda>frs'. (t, ix, frs')) (slice_of_val frs v)
        else None)"

definition decode_field :: "bytes \<Rightarrow> jval \<Rightarrow> field option" where
  "decode_field raw v =
     (case members_of raw v of
        None \<Rightarrow> None
      | Some ms \<Rightarrow>
          map_option
            (\<lambda>(t, ix, frs). \<lparr>f_type = t, f_index = ix, f_fragments = slice_strings frs\<rparr>)
            (take_fields field_member ([], False, ([], 0)) (case ms of None \<Rightarrow> [] | Some l \<Rightarrow> l)))"

definition collection_member ::
  "string \<Rightarrow> bytes \<Rightarrow> jval \<Rightarrow> field gomap \<Rightarrow> field gomap option" where
  "collection_member key raw v m =
     (if names_field key ''fields'' then
        (case members_of raw v of
           None \<Rightarrow> None
         | Some None \<Rightarrow> Some []
         | Some (Some ms) \<Rightarrow> take_elements decode_field m ms)
      else None)"

definition decode_collection :: "bytes \<Rightarrow> jval \<Rightarrow> collection_decl option" where
  "decode_collection raw v =
     (case members_of raw v of
        None \<Rightarrow> None
      | Some ms \<Rightarrow>
          map_option (\<lambda>m. \<lparr>c_fields = m\<rparr>)
            (take_fields collection_member [] (case ms of None \<Rightarrow> [] | Some l \<Rightarrow> l)))"

definition decode_schema :: "bytes \<Rightarrow> schema option" where
  "decode_schema data =
     (case decode_first data of
        None \<Rightarrow> None
      | Some v \<Rightarrow>
          (case members_of data v of
             None \<Rightarrow> None
           | Some None \<Rightarrow> Some []
           | Some (Some ms) \<Rightarrow> take_elements decode_collection [] ms))"

definition Parse :: "(string list \<Rightarrow> string list) \<Rightarrow> bytes \<Rightarrow> schema_error + schema" where
  "Parse pick data =
     (case decode_schema data of
        None \<Rightarrow> Inl Bad_document
      | Some s \<Rightarrow>
          (case try_map (check_collection pick) (range_over pick s) of
             Inl e \<Rightarrow> Inl e
           | Inr _ \<Rightarrow> Inr s))"

definition Load ::
  "(string list \<Rightarrow> string list) \<Rightarrow> (string \<Rightarrow> bytes result) \<Rightarrow> string \<Rightarrow> schema_error + schema" where
  "Load pick read_file path =
     (if path = [] then Inr []
      else (case read_file path of
              Inl e \<Rightarrow> Inl (Cannot_read e)
            | Inr data \<Rightarrow> Parse pick data))"

section \<open>Operations on objects\<close>

text \<open>\<open>Indexed\<close>: one round of its loop, then the loop.\<close>

definition index_field ::
  "json_object \<Rightarrow> string \<times> field \<Rightarrow> string gomap \<Rightarrow> schema_error + string gomap" where
  "index_field object nf out =
     (case nf of (name, f) \<Rightarrow>
        (case map_of object name of
           None \<Rightarrow> Inr out
         | Some raw \<Rightarrow>
             if \<not> f_index f \<and> f_fragments f = [] then Inr out
             else (case unmarshal_string raw of
                     None \<Rightarrow> Inr out
                   | Some v \<Rightarrow>
                       (case normalize_fn (f_type f) of
                          None \<Rightarrow> Inl Nil_call
                        | Some nfun \<Rightarrow>
                            (let normalized = nfun v;
                                 out1 = (if f_index f then AList.update name normalized out else out)
                             in Inr (if fragmentLast4 \<in> set (f_fragments f) \<and> length normalized \<ge> 4
                                     then AList.update (fragment_name name)
                                            (drop (length normalized - 4) normalized) out1
                                     else out1))))))"

fun index_fields ::
  "json_object \<Rightarrow> field gomap \<Rightarrow> string gomap \<Rightarrow> schema_error + string gomap" where
  "index_fields object [] out = Inr out"
| "index_fields object (nf # nfs) out =
     (case index_field object nf out of Inl e \<Rightarrow> Inl e | Inr out1 \<Rightarrow> index_fields object nfs out1)"

definition Indexed ::
  "(string list \<Rightarrow> string list) \<Rightarrow> schema \<Rightarrow> string \<Rightarrow> json_object \<Rightarrow> schema_error + string gomap"
where
  "Indexed pick s cname object = index_fields object (range_over pick (fields_of s cname)) []"

definition Normalize :: "schema \<Rightarrow> string \<Rightarrow> string \<Rightarrow> string \<Rightarrow> schema_error + string \<times> string" where
  "Normalize s cname field value =
     (case map_of (fields_of s cname) field of
        None \<Rightarrow> Inl (Not_indexed field)
      | Some f \<Rightarrow>
          if \<not> f_index f \<and> f_fragments f = [] then Inl (Not_indexed field)
          else (case normalize_fn (f_type f) of
                  None \<Rightarrow> Inl Nil_call
                | Some nfun \<Rightarrow>
                    (let normalized = nfun value in
                     if length normalized = 4 \<and> fragmentLast4 \<in> set (f_fragments f)
                     then Inr (fragment_name field, normalized)
                     else if \<not> f_index f then Inl (Last_four_only field)
                     else Inr (field, normalized))))"

definition validate_member ::
  "collection_decl \<Rightarrow> string \<times> bytes \<Rightarrow> schema_error + unit" where
  "validate_member c nr =
     (case nr of (name, raw) \<Rightarrow>
        (case map_of (c_fields c) name of
           None \<Rightarrow> Inl (Unknown_field name)
         | Some f \<Rightarrow>
             if trim_space raw = ''null'' then Inl (Must_be_a_string name)
             else (case unmarshal_string raw of
                     None \<Rightarrow> Inl (Must_be_a_string name)
                   | Some v \<Rightarrow>
                       (case map_of types (f_type f) of
                          None \<Rightarrow> Inl Nil_call
                        | Some t \<Rightarrow>
                            (case ft_validate t v of
                               Inl e \<Rightarrow> Inl (Bad_value name e)
                             | Inr _ \<Rightarrow> Inr ())))))"

definition Validate ::
  "(string list \<Rightarrow> string list) \<Rightarrow> schema \<Rightarrow> string \<Rightarrow> json_object \<Rightarrow> schema_error + unit" where
  "Validate pick s cname object =
     (case map_of s cname of
        None \<Rightarrow> Inr ()
      | Some c \<Rightarrow>
          (case try_map (validate_member c) (range_over pick object) of
             Inl e \<Rightarrow> Inl e
           | Inr _ \<Rightarrow> Inr ()))"

definition mask_member :: "schema \<Rightarrow> string \<Rightarrow> string \<times> bytes \<Rightarrow> schema_error + (string \<times> string)" where
  "mask_member s cname nr =
     (case nr of (name, raw) \<Rightarrow>
        (case unmarshal_string raw of
           None \<Rightarrow> Inr (name, hidden)
         | Some v \<Rightarrow>
             (let t = (case map_of (fields_of s cname) name of
                         Some f \<Rightarrow> f_type f | None \<Rightarrow> ''string'')
              in (case map_of types t of
                    None \<Rightarrow> Inl Nil_call
                  | Some ft \<Rightarrow> Inr (name, ft_mask ft v)))))"

definition Mask :: "schema \<Rightarrow> string \<Rightarrow> json_object \<Rightarrow> schema_error + string gomap" where
  "Mask s cname object = try_map (mask_member s cname) object"

section \<open>What Parse guarantees\<close>

definition field_ok :: "field \<Rightarrow> bool" where
  "field_ok f \<longleftrightarrow>
     map_of types (f_type f) \<noteq> None
     \<and> (f_index f \<longrightarrow> normalize_fn (f_type f) \<noteq> None)
     \<and> (\<forall>fr \<in> set (f_fragments f). fr = fragmentLast4 \<and> f_type f \<in> {''phone'', ''card''})"

definition schema_ok :: "schema \<Rightarrow> bool" where
  "schema_ok s \<longleftrightarrow> (\<forall>(cname, c) \<in> set s. \<forall>(fname, f) \<in> set (c_fields c). field_ok f)"

definition maps_ok :: "schema \<Rightarrow> bool" where
  "maps_ok s \<longleftrightarrow> gomap_ok s \<and> (\<forall>(cname, c) \<in> set s. gomap_ok (c_fields c))"

lemma normalize_fn_phone_card [simp]:
  "normalize_fn ''phone'' = Some digits" "normalize_fn ''card'' = Some digits"
  "normalize_fn ''email'' = Some normalizeEmail" "normalize_fn ''string'' = None"
  by (simp_all add: normalize_fn_def types_def type_phone_def type_card_def type_email_def
      type_string_def)

lemma types_total: "map_of types t = Some ft \<Longrightarrow> t \<in> {''string'', ''email'', ''phone'', ''card''}"
  by (auto simp: types_def split: if_splits)

lemma try_map_ok_all:
  "try_map f xs = Inr ys \<Longrightarrow> x \<in> set xs \<Longrightarrow> \<exists>y. f x = Inr y"
  by (auto simp: try_map_Inr list_all2_conv_all_nth in_set_conv_nth)

lemma check_field_ok:
  assumes "check_field cname (fname, f) = Inr r"
  shows "field_ok f"
proof -
  from assms obtain t where t: "map_of types (f_type f) = Some t"
    and idx: "\<not> (f_index f \<and> ft_normalize t = None)"
    and frs: "try_map (check_fragment cname fname f) (f_fragments f) = Inr r"
    by (auto simp: check_field_def split: option.splits if_splits)
  have "fr = fragmentLast4 \<and> f_type f \<in> {''phone'', ''card''}" if "fr \<in> set (f_fragments f)" for fr
    using try_map_ok_all [OF frs that] by (auto simp: check_fragment_def split: if_splits)
  with t idx show ?thesis by (auto simp: field_ok_def normalize_fn_def)
qed

lemma collection_member_gomap:
  "gomap_ok m \<Longrightarrow> collection_member key raw v m = Some m' \<Longrightarrow> gomap_ok m'"
  by (auto simp: collection_member_def intro: take_elements_gomap
      split: option.splits if_splits)

lemma decode_collection_gomap:
  assumes "decode_collection raw v = Some c"
  shows "gomap_ok (c_fields c)"
proof -
  from assms obtain ms where "take_fields collection_member [] ms = Some (c_fields c)"
    by (auto simp: decode_collection_def simp del: take_fields.simps split: option.splits)
  from take_fields_invariant [where P = gomap_ok, OF this] collection_member_gomap
  show ?thesis by (metis distinct.simps(1) list.map_disc_iff)
qed

lemma decode_schema_maps_ok:
  assumes "decode_schema data = Some s"
  shows "maps_ok s"
proof (cases "s = []")
  case False
  with assms obtain ms where ms: "take_elements decode_collection [] ms = Some s"
    by (auto simp: decode_schema_def split: option.splits)
  have "gomap_ok (c_fields c)" if "(cname, c) \<in> set s" for cname c
    by (rule take_elements_all [OF ms _ decode_collection_gomap that]) auto
  with take_elements_gomap [OF ms] show ?thesis by (auto simp: maps_ok_def)
qed (simp add: maps_ok_def)

lemma Parse_schema_ok:
  assumes "Parse pick data = Inr s"
  shows "maps_ok s \<and> schema_ok s"
proof -
  from assms obtain r where d: "decode_schema data = Some s"
    and r: "try_map (check_collection pick) (range_over pick s) = Inr r"
    by (auto simp: Parse_def split: sum.splits option.splits)
  from d have maps: "maps_ok s" by (rule decode_schema_maps_ok)
  have "field_ok f" if c: "(cname, c) \<in> set s" and f: "(fname, f) \<in> set (c_fields c)"
    for cname c fname f
  proof -
    from maps c have "gomap_ok s" "gomap_ok (c_fields c)" by (auto simp: maps_ok_def)
    with c f have cc: "(cname, c) \<in> set (range_over pick s)"
      and ff: "(fname, f) \<in> set (range_over pick (c_fields c))" by (simp_all add: set_range_over)
    from try_map_ok_all [OF r cc] obtain rs
      where "try_map (check_field cname) (range_over pick (c_fields c)) = Inr rs"
      by (auto simp: check_collection_def)
    from try_map_ok_all [OF this ff] show ?thesis by (auto dest: check_field_ok)
  qed
  with maps show ?thesis by (auto simp: schema_ok_def)
qed

lemma fields_of_ok: "schema_ok s \<Longrightarrow> map_of (fields_of s cname) name = Some f \<Longrightarrow> field_ok f"
  by (fastforce simp: fields_of_def schema_ok_def split: option.splits dest: map_of_SomeD)

lemma fields_of_member_ok: "schema_ok s \<Longrightarrow> (name, f) \<in> set (fields_of s cname) \<Longrightarrow> field_ok f"
proof (cases "map_of s cname")
  case (Some c)
  assume "schema_ok s" and "(name, f) \<in> set (fields_of s cname)"
  then show "field_ok f"
    using map_of_SomeD [OF Some] unfolding schema_ok_def by (auto simp: fields_of_def Some)
qed (simp add: fields_of_def)

lemma fields_of_gomap: "maps_ok s \<Longrightarrow> gomap_ok (fields_of s cname)"
  by (fastforce simp: fields_of_def maps_ok_def split: option.splits dest: map_of_SomeD)

lemma field_ok_normalizes:
  "field_ok f \<Longrightarrow> f_index f \<or> f_fragments f \<noteq> [] \<Longrightarrow> normalize_fn (f_type f) \<noteq> None"
  by (auto simp: field_ok_def neq_Nil_conv)

section \<open>No nil function is called\<close>

lemma index_field_no_panic:
  "field_ok f \<Longrightarrow> \<exists>out'. index_field object (name, f) out = Inr out'"
  using field_ok_normalizes [of f]
  by (auto simp: index_field_def Let_def split: option.splits)

lemma index_fields_no_panic:
  "\<forall>(name, f) \<in> set nfs. field_ok f \<Longrightarrow> \<exists>out'. index_fields object nfs out = Inr out'"
proof (induction nfs arbitrary: out)
  case Nil
  show ?case by simp
next
  case (Cons nf nfs)
  obtain name f where nf: "nf = (name, f)" by (cases nf)
  with Cons.prems have "field_ok f" by simp
  then obtain out1 where "index_field object nf out = Inr out1"
    using index_field_no_panic nf by blast
  with Cons show ?case by simp
qed

lemma Indexed_no_panic:
  "schema_ok s \<Longrightarrow> maps_ok s \<Longrightarrow> \<exists>m. Indexed pick s cname object = Inr m"
  unfolding Indexed_def
  by (rule index_fields_no_panic)
     (auto simp: set_range_over fields_of_gomap dest: fields_of_member_ok)

lemma Normalize_no_panic: "schema_ok s \<Longrightarrow> Normalize s cname field value \<noteq> Inl Nil_call"
proof (cases "map_of (fields_of s cname) field")
  case (Some f)
  assume "schema_ok s"
  then have "field_ok f" using Some by (rule fields_of_ok)
  then show ?thesis
    using field_ok_normalizes [of f]
    by (cases "f_fragments f = []"; cases "f_index f")
       (auto simp: Normalize_def Some Let_def split: option.splits)
qed (simp add: Normalize_def)

lemma mask_member_no_panic:
  assumes "schema_ok s"
  shows "\<exists>y. mask_member s cname nr = Inr y"
proof (cases nr)
  case (Pair name raw)
  show ?thesis
  proof (cases "map_of (fields_of s cname) name")
    case None
    then show ?thesis
      by (simp add: mask_member_def Pair types_def Let_def split: option.splits)
  next
    case (Some f)
    with assms have "field_ok f" by (rule fields_of_ok)
    then obtain ft where "map_of types (f_type f) = Some ft" by (auto simp: field_ok_def)
    with Some show ?thesis
      by (simp add: mask_member_def Pair Let_def split: option.splits)
  qed
qed

lemma Mask_no_panic: "schema_ok s \<Longrightarrow> \<exists>m. Mask s cname object = Inr m"
  unfolding Mask_def by (rule try_map_total) (blast intro: mask_member_no_panic)

lemma Validate_no_panic:
  assumes "schema_ok s"
  shows "Validate pick s cname object \<noteq> Inl Nil_call"
proof (cases "map_of s cname")
  case (Some c)
  have "validate_member c nr \<noteq> Inl Nil_call" for nr
  proof -
    obtain name raw where nr: "nr = (name, raw)" by (cases nr)
    have "map_of types (f_type f) \<noteq> None" if "map_of (c_fields c) name = Some f" for f
      using fields_of_ok [OF assms, of cname name f] that
      by (simp add: fields_of_def Some field_ok_def)
    then show ?thesis by (auto simp: validate_member_def nr split: option.split sum.split)
  qed
  then have "try_map (validate_member c) xs \<noteq> Inl Nil_call" for xs
    by (metis try_map_Inl)
  then show ?thesis by (auto simp: Validate_def Some split: sum.splits)
qed (simp add: Validate_def)

end
