(* ===== verification/Envelope.thy ===== *)
theory Envelope
  imports Prelude
begin

text \<open>
  Envelope encryption (internal/envelope/envelope.go): the wrapper interface as a record of
  functions, the local wrapper, and the envelope that seals, opens and re-wraps values.

  The cryptographic primitives are not part of the program: XChaCha20-Poly1305 comes from
  golang.org/x/crypto and HMAC-SHA256 from the standard library. They are the record
  \<open>crypto\<close>, an argument of every definition that uses them, and what the code relies on is
  stated as the predicates \<open>aead_correct\<close> and \<open>aead_binding\<close>.
\<close>

section \<open>The world a call runs in\<close>

text \<open>
  What lies outside the process and changes as calls are made: the source of random bytes, the
  state of the key service, and the choice Go makes when it ranges over a map. The store keeps
  this record beside the database.
\<close>

record 'k host =
  entropy :: "nat \<Rightarrow> char"
  service :: 'k
  ranges :: "string list \<Rightarrow> string list"

text \<open>\<open>rand.Read\<close> never fails: it fills its buffer with the next bytes of the source.\<close>

definition rand_read :: "nat \<Rightarrow> 'k host \<Rightarrow> bytes \<times> 'k host" where
  "rand_read n w = (map (entropy w) [0..<n], w\<lparr>entropy := (\<lambda>i. entropy w (n + i))\<rparr>)"

lemma rand_read_length: "rand_read n w = (b, w1) \<Longrightarrow> length b = n"
  by (auto simp: rand_read_def)

lemma rand_read_frame:
  "rand_read n w = (b, w1) \<Longrightarrow> service w1 = service w \<and> ranges w1 = ranges w"
  by (auto simp: rand_read_def)

section \<open>Primitives\<close>

definition KeySize :: nat where "KeySize = 32"
definition NonceSize :: nat where "NonceSize = 24"

record crypto =
  aead_seal :: "bytes \<Rightarrow> bytes \<Rightarrow> bytes \<Rightarrow> bytes \<Rightarrow> bytes"
  aead_open :: "bytes \<Rightarrow> bytes \<Rightarrow> bytes \<Rightarrow> bytes \<Rightarrow> bytes option"
  hmac_sha256 :: "bytes \<Rightarrow> bytes \<Rightarrow> bytes"

text \<open>
  The arguments are key, nonce, plaintext or ciphertext, and associated data. What is sealed
  opens under the same key, nonce and associated data; and it opens under no other.
\<close>

definition aead_correct :: "crypto \<Rightarrow> bool" where
  "aead_correct C \<longleftrightarrow>
     (\<forall>k n p a. length k = KeySize \<longrightarrow> length n = NonceSize \<longrightarrow>
        aead_open C k n (aead_seal C k n p a) a = Some p)"

definition aead_binding :: "crypto \<Rightarrow> bool" where
  "aead_binding C \<longleftrightarrow>
     (\<forall>k n p a k' n' a' p'. aead_open C k' n' (aead_seal C k n p a) a' = Some p' \<longrightarrow>
        k' = k \<and> n' = n \<and> a' = a)"

definition hextable :: string where
  "hextable = ''0123456789abcdef''"

definition hex_byte :: "char \<Rightarrow> string" where
  "hex_byte c = [hextable ! (byte c div 16), hextable ! (byte c mod 16)]"

definition hex_encode :: "bytes \<Rightarrow> string" where
  "hex_encode b = concat (map hex_byte b)"

text \<open>The same on the bits of a byte, for evaluation.\<close>

lemma hex_byte_code [code]:
  "hex_byte (Char b0 b1 b2 b3 b4 b5 b6 b7) =
     [hextable ! (of_bool b4 + 2 * of_bool b5 + 4 * of_bool b6 + 8 * of_bool b7),
      hextable ! (of_bool b0 + 2 * of_bool b1 + 4 * of_bool b2 + 8 * of_bool b3)]"
proof -
  define lo hi :: nat where "lo = of_bool b0 + 2 * of_bool b1 + 4 * of_bool b2 + 8 * of_bool b3"
    and "hi = of_bool b4 + 2 * of_bool b5 + 4 * of_bool b6 + 8 * of_bool b7"
  have "byte (Char b0 b1 b2 b3 b4 b5 b6 b7) = lo + 16 * hi"
    by (simp add: byte_def of_char_def horner_sum_simps lo_def hi_def)
  moreover have "lo < 16"
    by (cases b0; cases b1; cases b2; cases b3) (simp_all add: lo_def)
  ultimately show ?thesis by (simp add: hex_byte_def flip: lo_def hi_def)
qed

section \<open>Wrappers\<close>

text \<open>
  The interface \<open>Wrapper\<close> as the dictionary of its methods. \<open>w_rewrap\<close> and
  \<open>w_unwrap_many\<close> are there when the dynamic type also implements \<open>Rewrapper\<close> and
  \<open>BatchUnwrapper\<close>, which is what the type assertions in the code ask. One result of
  \<open>UnwrapMany\<close> is a key or an error.
\<close>

type_synonym unwrapped = "bytes result"

record 'w wrapper =
  w_id :: string
  w_wrap :: "bytes \<Rightarrow> bytes \<Rightarrow> 'w \<Rightarrow> bytes result \<times> 'w"
  w_unwrap :: "bytes \<Rightarrow> bytes \<Rightarrow> 'w \<Rightarrow> bytes result \<times> 'w"
  w_rewrap :: "(bytes \<Rightarrow> bytes \<Rightarrow> 'w \<Rightarrow> (bytes \<times> bool) result \<times> 'w) option"
  w_unwrap_many :: "((bytes \<times> bytes) list \<Rightarrow> 'w \<Rightarrow> unwrapped list result \<times> 'w) option"

text \<open>\<open>seal\<close> and \<open>open\<close>: the nonce is a prefix of the blob.\<close>

definition seal_blob ::
  "crypto \<Rightarrow> bytes \<Rightarrow> bytes \<Rightarrow> bytes \<Rightarrow> 'k host \<Rightarrow> bytes \<times> 'k host" where
  "seal_blob C key plaintext aad w =
     (case rand_read NonceSize w of
        (nonce, w1) \<Rightarrow> (nonce @ aead_seal C key nonce plaintext aad, w1))"

definition open_blob :: "crypto \<Rightarrow> bytes \<Rightarrow> bytes \<Rightarrow> bytes \<Rightarrow> bytes result" where
  "open_blob C key blob aad =
     (if length blob < NonceSize then Inl ErrOpen
      else (case aead_open C key (take NonceSize blob) (drop NonceSize blob) aad of
              None \<Rightarrow> Inl (ErrMsg ''chacha20poly1305: message authentication failed'')
            | Some p \<Rightarrow> Inr p))"

definition KeyID :: "crypto \<Rightarrow> bytes \<Rightarrow> string" where
  "KeyID C masterKey = take 16 (hex_encode (hmac_sha256 C masterKey ''sealbox/key-id/v1''))"

definition local_wrap ::
  "crypto \<Rightarrow> bytes \<Rightarrow> bytes \<Rightarrow> bytes \<Rightarrow> 'k host \<Rightarrow> bytes result \<times> 'k host" where
  "local_wrap C kek dek aad w = (case seal_blob C kek dek aad w of (b, w1) \<Rightarrow> (Inr b, w1))"

definition local_unwrap ::
  "crypto \<Rightarrow> bytes \<Rightarrow> bytes \<Rightarrow> bytes \<Rightarrow> 'k host \<Rightarrow> bytes result \<times> 'k host" where
  "local_unwrap C kek wrapped aad w =
     (case open_blob C kek wrapped aad of Inl _ \<Rightarrow> (Inl ErrOpen, w) | Inr dek \<Rightarrow> (Inr dek, w))"

definition local_wrapper :: "crypto \<Rightarrow> bytes \<Rightarrow> 'k host wrapper" where
  "local_wrapper C masterKey =
     \<lparr>w_id = KeyID C masterKey, w_wrap = local_wrap C masterKey, w_unwrap = local_unwrap C masterKey,
      w_rewrap = None, w_unwrap_many = None\<rparr>"

definition NewLocal :: "crypto \<Rightarrow> bytes \<Rightarrow> 'k host wrapper result" where
  "NewLocal C masterKey =
     (if length masterKey \<noteq> KeySize then Inl (ErrMsg ''chacha20poly1305: bad key length'')
      else Inr (local_wrapper C masterKey))"

section \<open>The envelope\<close>

record sealed =
  s_key_id :: string
  s_wrapped :: bytes
  s_ciphertext :: bytes

record 'w envelope =
  env_current :: "'w wrapper"
  env_all :: "'w wrapper gomap"

fun add_previous :: "'w wrapper gomap \<Rightarrow> 'w wrapper list \<Rightarrow> 'w wrapper gomap" where
  "add_previous m [] = m"
| "add_previous m (p # ps) =
     add_previous (case map_of m (w_id p) of None \<Rightarrow> AList.update (w_id p) p m | Some _ \<Rightarrow> m) ps"

definition new_envelope :: "'w wrapper \<Rightarrow> 'w wrapper list \<Rightarrow> 'w envelope" where
  "new_envelope current previous =
     \<lparr>env_current = current, env_all = add_previous [(w_id current, current)] previous\<rparr>"

definition CurrentKeyID :: "'w envelope \<Rightarrow> string" where
  "CurrentKeyID e = w_id (env_current e)"

definition RewrapsInPlace :: "'w envelope \<Rightarrow> bool" where
  "RewrapsInPlace e = (w_rewrap (env_current e) \<noteq> None)"

text \<open>
  \<open>Seal\<close> cannot fail at \<open>chacha20poly1305.NewX\<close>, which only checks the length of the key it has
  just made.
\<close>

definition Seal ::
  "crypto \<Rightarrow> 'k host envelope \<Rightarrow> bytes \<Rightarrow> bytes \<Rightarrow> 'k host
   \<Rightarrow> sealed result \<times> 'k host" where
  "Seal C e plaintext aad w =
     (case rand_read KeySize w of (dek, w1) \<Rightarrow>
        (case w_wrap (env_current e) dek aad w1 of
           (Inl err, w2) \<Rightarrow> (Inl err, w2)
         | (Inr wrapped, w2) \<Rightarrow>
             (case seal_blob C dek plaintext aad w2 of (ct, w3) \<Rightarrow>
                (Inr \<lparr>s_key_id = w_id (env_current e), s_wrapped = wrapped, s_ciphertext = ct\<rparr>, w3))))"

definition unwrap_dek ::
  "'w envelope \<Rightarrow> sealed \<Rightarrow> bytes \<Rightarrow> 'w \<Rightarrow> bytes result \<times> 'w" where
  "unwrap_dek e s aad w =
     (case map_of (env_all e) (s_key_id s) of
        None \<Rightarrow> (Inl ErrUnknownKey, w)
      | Some wr \<Rightarrow>
          (case w_unwrap wr (s_wrapped s) aad w of
             (Inl err, w1) \<Rightarrow> (Inl err, w1)
           | (Inr dek, w1) \<Rightarrow> if length dek \<noteq> KeySize then (Inl ErrOpen, w1) else (Inr dek, w1)))"

definition openWithDEK :: "crypto \<Rightarrow> bytes \<Rightarrow> bytes \<Rightarrow> bytes \<Rightarrow> bytes result" where
  "openWithDEK C dek ciphertext aad =
     (if length dek \<noteq> KeySize then Inl ErrOpen
      else (case open_blob C dek ciphertext aad of Inl _ \<Rightarrow> Inl ErrOpen | Inr p \<Rightarrow> Inr p))"

definition Open ::
  "crypto \<Rightarrow> 'w envelope \<Rightarrow> sealed \<Rightarrow> bytes \<Rightarrow> 'w \<Rightarrow> bytes result \<times> 'w" where
  "Open C e s aad w =
     (case unwrap_dek e s aad w of
        (Inl err, w1) \<Rightarrow> (Inl err, w1)
      | (Inr dek, w1) \<Rightarrow> (openWithDEK C dek (s_ciphertext s) aad, w1))"

definition Rewrap ::
  "'w envelope \<Rightarrow> sealed \<Rightarrow> bytes \<Rightarrow> 'w \<Rightarrow> (sealed \<times> bool) result \<times> 'w" where
  "Rewrap e s aad w =
     (if s_key_id s = w_id (env_current e) then
        (case w_rewrap (env_current e) of
           None \<Rightarrow> (Inr (s, False), w)
         | Some rw \<Rightarrow>
             (case rw (s_wrapped s) aad w of
                (Inl err, w1) \<Rightarrow> (Inl err, w1)
              | (Inr (wrapped, changed), w1) \<Rightarrow>
                  if \<not> changed then (Inr (s, False), w1)
                  else (Inr (\<lparr>s_key_id = s_key_id s, s_wrapped = wrapped,
                              s_ciphertext = s_ciphertext s\<rparr>, True), w1)))
      else
        (case unwrap_dek e s aad w of
           (Inl err, w1) \<Rightarrow> (Inl err, w1)
         | (Inr dek, w1) \<Rightarrow>
             (case w_wrap (env_current e) dek aad w1 of
                (Inl err, w2) \<Rightarrow> (Inl err, w2)
              | (Inr wrapped, w2) \<Rightarrow>
                  (Inr (\<lparr>s_key_id = w_id (env_current e), s_wrapped = wrapped,
                         s_ciphertext = s_ciphertext s\<rparr>, True), w2))))"

section \<open>Opening many values\<close>

text \<open>
  \<open>OpenMany\<close> takes two slices the caller builds in step; here they are one list of pairs.
  \<open>by_key\<close> is the first loop, which groups the positions by key id.
\<close>

fun by_key :: "nat \<Rightarrow> (sealed \<times> bytes) list \<Rightarrow> nat list gomap \<Rightarrow> nat list gomap" where
  "by_key i [] m = m"
| "by_key i ((s, a) # items) m =
     by_key (Suc i) items
       (AList.update (s_key_id s)
          ((case map_of m (s_key_id s) of None \<Rightarrow> [] | Some js \<Rightarrow> js) @ [i]) m)"

text \<open>One by one, for a wrapper without batches: only a backend failure stops the loop.\<close>

fun unwrap_each ::
  "'w wrapper \<Rightarrow> (bytes \<times> bytes) list \<Rightarrow> 'w \<Rightarrow> unwrapped list result \<times> 'w" where
  "unwrap_each wr [] w = (Inr [], w)"
| "unwrap_each wr ((x, a) # reqs) w =
     (case w_unwrap wr x a w of
        (r, w1) \<Rightarrow>
          (case r of
             Inl err \<Rightarrow>
               if \<not> errors_is err ErrOpen then (Inl err, w1)
               else (case unwrap_each wr reqs w1 of
                       (Inl e, w2) \<Rightarrow> (Inl e, w2) | (Inr ds, w2) \<Rightarrow> (Inr (Inl err # ds), w2))
           | Inr dek \<Rightarrow>
               (case unwrap_each wr reqs w1 of
                  (Inl e, w2) \<Rightarrow> (Inl e, w2) | (Inr ds, w2) \<Rightarrow> (Inr (Inr dek # ds), w2))))"

definition unwrap_group ::
  "'w wrapper \<Rightarrow> (bytes \<times> bytes) list \<Rightarrow> 'w \<Rightarrow> unwrapped list result \<times> 'w" where
  "unwrap_group wr reqs w =
     (case w_unwrap_many wr of
        Some unwrap_many \<Rightarrow> unwrap_many reqs w
      | None \<Rightarrow> unwrap_each wr reqs w)"

definition open_unwrapped :: "crypto \<Rightarrow> sealed \<times> bytes \<Rightarrow> unwrapped \<Rightarrow> bytes result" where
  "open_unwrapped C item d =
     (case d of Inl err \<Rightarrow> Inl err | Inr dek \<Rightarrow> openWithDEK C dek (s_ciphertext (fst item)) (snd item))"

fun put_opened ::
  "crypto \<Rightarrow> (sealed \<times> bytes) list \<Rightarrow> (nat \<times> unwrapped) list \<Rightarrow> bytes result list \<Rightarrow> bytes result list"
where
  "put_opened C items [] res = res"
| "put_opened C items ((i, d) # ds) res =
     put_opened C items ds (res[i := open_unwrapped C (items ! i) d])"

text \<open>One round of the loop over the groups; a batch shorter than its group is an index panic.\<close>

definition open_group ::
  "crypto \<Rightarrow> 'w envelope \<Rightarrow> (sealed \<times> bytes) list \<Rightarrow> string \<times> nat list \<Rightarrow> bytes result list \<Rightarrow> 'w
   \<Rightarrow> bytes result list result \<times> 'w" where
  "open_group C e items grp res w =
     (case grp of (keyID, idx) \<Rightarrow>
        (case map_of (env_all e) keyID of
           None \<Rightarrow> (Inr (fold (\<lambda>i r. r[i := Inl ErrUnknownKey]) idx res), w)
         | Some wr \<Rightarrow>
             (case unwrap_group wr (map (\<lambda>i. (s_wrapped (fst (items ! i)), snd (items ! i))) idx) w of
                (Inl err, w1) \<Rightarrow> (Inl err, w1)
              | (Inr deks, w1) \<Rightarrow>
                  if length deks < length idx
                  then (Inl (ErrMsg ''runtime error: index out of range''), w1)
                  else (Inr (put_opened C items (zip idx deks) res), w1))))"

fun open_groups ::
  "crypto \<Rightarrow> 'w envelope \<Rightarrow> (sealed \<times> bytes) list \<Rightarrow> nat list gomap \<Rightarrow> bytes result list \<Rightarrow> 'w
   \<Rightarrow> bytes result list result \<times> 'w" where
  "open_groups C e items [] res w = (Inr res, w)"
| "open_groups C e items (g # gs) res w =
     (case open_group C e items g res w of
        (Inl err, w1) \<Rightarrow> (Inl err, w1)
      | (Inr res1, w1) \<Rightarrow> open_groups C e items gs res1 w1)"

text \<open>
  Every position starts out as a nil plaintext with a nil error, which is \<open>Inr []\<close>.
\<close>

definition OpenMany ::
  "crypto \<Rightarrow> 'k host envelope \<Rightarrow> (sealed \<times> bytes) list \<Rightarrow> 'k host
   \<Rightarrow> bytes result list result \<times> 'k host" where
  "OpenMany C e items w =
     open_groups C e items (range_over (ranges w) (by_key 0 items []))
       (replicate (length items) (Inr [])) w"

section \<open>The blind index\<close>

record blind_key =
  ix_key :: bytes

definition NewIndex :: "bytes \<Rightarrow> blind_key result" where
  "NewIndex key =
     (if length key \<noteq> KeySize then Inl (ErrMsg ''envelope: index key must be 32 bytes'')
      else Inr \<lparr>ix_key = key\<rparr>)"

definition nul :: char where "nul = CHR 0x00"

definition Hash :: "crypto \<Rightarrow> blind_key \<Rightarrow> string \<Rightarrow> string \<Rightarrow> string \<Rightarrow> bytes" where
  "Hash C x collection field normalized =
     hmac_sha256 C (ix_key x) (collection @ [nul] @ field @ [nul] @ normalized)"

end
