(* ===== verification/Database.thy ===== *)
theory Database
  imports Envelope GoStrings
begin

text \<open>
  The tables of internal/store/migrations and the SQL statements of internal/store/store.go, as
  functions on the database. A table is the list of its rows in insertion order. A statement
  gives its result and the new database, or an error when a constraint refuses it; text is
  compared byte by byte.

  The second half is how statements reach Postgres: through the pool, each in a transaction of
  its own, or inside an explicit transaction. Any round trip may fail, before or after the
  server has done its work, and other processes may change the database between round trips.
\<close>

section \<open>Tables\<close>

text \<open>
  \<open>o_deleted\<close> says that \<open>deleted_at\<close> is not NULL; \<open>o_wrapped\<close> is \<open>wrapped_dek\<close>, \<open>None\<close> for NULL.
\<close>

record object_row =
  o_id :: string
  o_collection :: string
  o_key_id :: string
  o_wrapped :: "bytes option"
  o_ciphertext :: bytes
  o_deleted :: bool
  o_subject :: "string option"

record index_row =
  x_collection :: string
  x_field :: string
  x_hash :: bytes
  x_object :: string

record key_row =
  k_name :: string
  k_key_id :: string
  k_wrapped :: bytes
  k_ciphertext :: bytes

record audit_row =
  a_client :: string
  a_action :: string
  a_collection :: string
  a_object :: "string option"
  a_field :: "string option"

record db =
  objects :: "object_row list"
  blind_index :: "index_row list"
  service_keys :: "key_row list"
  audit_log :: "audit_row list"

definition empty_db :: db where
  "empty_db = \<lparr>objects = [], blind_index = [], service_keys = [], audit_log = []\<rparr>"

type_synonym 'a stmt = "db \<Rightarrow> ('a \<times> db) result"

definition nullif_empty :: "string \<Rightarrow> string option" where
  "nullif_empty s = (if s = [] then None else Some s)"

section \<open>Statements\<close>

definition sql_insert_object :: "object_row \<Rightarrow> unit stmt" where
  "sql_insert_object r d =
     (if o_id r \<in> set (map o_id (objects d))
      then Inl (ErrMsg ''duplicate key value violates unique constraint'')
      else Inr ((), d\<lparr>objects := objects d @ [r]\<rparr>))"

definition sql_insert_index :: "index_row \<Rightarrow> unit stmt" where
  "sql_insert_index r d =
     (if r \<in> set (blind_index d)
      then Inl (ErrMsg ''duplicate key value violates unique constraint'')
      else if x_object r \<notin> set (map o_id (objects d))
      then Inl (ErrMsg ''violates foreign key constraint'')
      else Inr ((), d\<lparr>blind_index := blind_index d @ [r]\<rparr>))"

definition sql_delete_index :: "string \<Rightarrow> string \<Rightarrow> unit stmt" where
  "sql_delete_index collection oid d =
     Inr ((), d\<lparr>blind_index :=
       filter (\<lambda>x. \<not> (x_collection x = collection \<and> x_object x = oid)) (blind_index d)\<rparr>)"

definition sql_insert_audit :: "audit_row list \<Rightarrow> unit stmt" where
  "sql_insert_audit rows d = Inr ((), d\<lparr>audit_log := audit_log d @ rows\<rparr>)"

definition shred :: "object_row \<Rightarrow> object_row" where
  "shred r = r\<lparr>o_wrapped := None, o_deleted := True\<rparr>"

text \<open>\<open>UPDATE objects SET wrapped_dek = NULL, deleted_at = now() WHERE p\<close>: rows updated, in table order.\<close>

definition sql_shred :: "(object_row \<Rightarrow> bool) \<Rightarrow> object_row list stmt" where
  "sql_shred p d =
     Inr (filter p (objects d),
          d\<lparr>objects := map (\<lambda>r. if p r then shred r else r) (objects d)\<rparr>)"

definition sql_select_objects :: "(object_row \<Rightarrow> bool) \<Rightarrow> object_row list stmt" where
  "sql_select_objects p d = Inr (filter p (objects d), d)"

text \<open>The same with \<open>ORDER BY id LIMIT n\<close>.\<close>

definition sql_select_page :: "(object_row \<Rightarrow> bool) \<Rightarrow> nat \<Rightarrow> object_row list stmt" where
  "sql_select_page p n d = Inr (take n (sort_key o_id (filter p (objects d))), d)"

definition sql_select_index :: "(index_row \<Rightarrow> bool) \<Rightarrow> nat \<Rightarrow> string list stmt" where
  "sql_select_index p n d = Inr (take n (sort (map x_object (filter p (blind_index d)))), d)"

definition sql_insert_key :: "key_row \<Rightarrow> unit stmt" where
  "sql_insert_key r d =
     Inr ((), if k_name r \<in> set (map k_name (service_keys d)) then d
              else d\<lparr>service_keys := service_keys d @ [r]\<rparr>)"

definition no_rows :: goerr where
  "no_rows = ErrMsg ''no rows in result set''"

definition sql_select_key :: "string \<Rightarrow> key_row stmt" where
  "sql_select_key name d =
     (case find (\<lambda>r. k_name r = name) (service_keys d) of
        None \<Rightarrow> Inl no_rows | Some r \<Rightarrow> Inr (r, d))"

definition sql_update_key :: "string \<Rightarrow> string \<Rightarrow> string \<Rightarrow> bytes \<Rightarrow> nat stmt" where
  "sql_update_key name old_key_id key_id wrapped d =
     (let p = (\<lambda>r. k_name r = name \<and> k_key_id r = old_key_id) in
      Inr (length (filter p (service_keys d)),
           d\<lparr>service_keys :=
             map (\<lambda>r. if p r then r\<lparr>k_key_id := key_id, k_wrapped := wrapped\<rparr> else r) (service_keys d)\<rparr>))"

text \<open>The guarded write of \<open>Rotate\<close>: only a row that is still live and still under the key it was read with.\<close>

definition sql_rewrap_object :: "string \<Rightarrow> string \<Rightarrow> string \<Rightarrow> bytes \<Rightarrow> nat stmt" where
  "sql_rewrap_object oid old_key_id key_id wrapped d =
     (let p = (\<lambda>r. o_id r = oid \<and> o_key_id r = old_key_id \<and> \<not> o_deleted r) in
      Inr (length (filter p (objects d)),
           d\<lparr>objects :=
             map (\<lambda>r. if p r then r\<lparr>o_key_id := key_id, o_wrapped := Some wrapped\<rparr> else r) (objects d)\<rparr>))"

definition sql_is_live :: "string \<Rightarrow> bool stmt" where
  "sql_is_live oid d =
     (case find (\<lambda>r. o_id r = oid) (objects d) of
        None \<Rightarrow> Inl no_rows | Some r \<Rightarrow> Inr (\<not> o_deleted r, d))"

section \<open>The world around the store\<close>

text \<open>
  \<open>w_weather n\<close> is what becomes of the n-th round trip to Postgres: \<open>Fine\<close>, \<open>Lost\<close> before the
  server acted, or \<open>Unheard\<close>, when the server acted and the answer did not arrive.
  \<open>w_rivals n\<close> is what other processes have done to the database by then. \<open>w_shipped\<close> are
  the entries copied to the audit logger.
\<close>

datatype weather = Fine | Lost | Unheard

record audit_entry =
  ae_client :: string
  ae_action :: string
  ae_collection :: string
  ae_object_id :: string
  ae_field :: string

record 'k world =
  w_host :: "'k host"
  w_db :: db
  w_weather :: "nat \<Rightarrow> weather"
  w_rivals :: "nat \<Rightarrow> db \<Rightarrow> db"
  w_clock :: nat
  w_shipped :: "audit_entry list"

definition db_down :: goerr where
  "db_down = ErrMsg ''database unavailable''"

definition on_host :: "('k host \<Rightarrow> 'a \<times> 'k host) \<Rightarrow> 'k world \<Rightarrow> 'a \<times> 'k world" where
  "on_host f w = (case f (w_host w) of (r, h) \<Rightarrow> (r, w\<lparr>w_host := h\<rparr>))"

definition tick :: "'k world \<Rightarrow> weather \<times> 'k world" where
  "tick w = (w_weather w (w_clock w), w\<lparr>w_clock := Suc (w_clock w)\<rparr>)"

text \<open>Time passes and the other processes act before a statement reaches the pool.\<close>

definition pool_tick :: "'k world \<Rightarrow> weather \<times> 'k world" where
  "pool_tick w = tick (w\<lparr>w_db := w_rivals w (w_clock w) (w_db w)\<rparr>)"

text \<open>One statement, or one implicit transaction, on a connection of the pool.\<close>

definition pool_exec :: "'a stmt \<Rightarrow> 'k world \<Rightarrow> 'a result \<times> 'k world" where
  "pool_exec q w =
     (case pool_tick w of (sky, w1) \<Rightarrow>
        (if sky = Lost then (Inl db_down, w1)
         else (case q (w_db w1) of
                 Inl e \<Rightarrow> (Inl e, w1)
               | Inr (x, d) \<Rightarrow>
                   (if sky = Fine then Inr x else Inl db_down, w1\<lparr>w_db := d\<rparr>))))"

text \<open>
  Inside a transaction the statements work on the transaction's own view, the first component;
  the rows they touch are locked, so nobody interferes. A failed statement ends the function, and
  its deferred rollback drops the view.
\<close>

type_synonym 'k tx = "db \<times> 'k world"

definition tx_exec :: "'a stmt \<Rightarrow> 'k tx \<Rightarrow> 'a result \<times> 'k tx" where
  "tx_exec q s =
     (case s of (d, w) \<Rightarrow>
        (case tick w of (sky, w1) \<Rightarrow>
           (if sky \<noteq> Fine then (Inl db_down, (d, w1))
            else (case q d of
                    Inl e \<Rightarrow> (Inl e, (d, w1))
                  | Inr (x, d1) \<Rightarrow> (Inr x, (d1, w1))))))"

definition tx_host :: "('k host \<Rightarrow> 'a \<times> 'k host) \<Rightarrow> 'k tx \<Rightarrow> 'a \<times> 'k tx" where
  "tx_host f s = (case s of (d, w) \<Rightarrow> (case on_host f w of (r, w1) \<Rightarrow> (r, (d, w1))))"

text \<open>\<open>Begin\<close>, the body, \<open>Commit\<close>. When the answer to the commit is lost the writes may have landed.\<close>

definition in_tx :: "('k tx \<Rightarrow> 'a result \<times> 'k tx) \<Rightarrow> 'k world \<Rightarrow> 'a result \<times> 'k world" where
  "in_tx body w =
     (case pool_tick w of (sky, w1) \<Rightarrow>
        (if sky \<noteq> Fine then (Inl db_down, w1)
         else (case body (w_db w1, w1) of
                 (Inl e, (d, w2)) \<Rightarrow> (Inl e, w2)
               | (Inr x, (d, w2)) \<Rightarrow>
                   (case tick w2 of (sky2, w3) \<Rightarrow>
                      (case sky2 of
                         Fine \<Rightarrow> (Inr x, w3\<lparr>w_db := d\<rparr>)
                       | Lost \<Rightarrow> (Inl db_down, w3)
                       | Unheard \<Rightarrow> (Inl db_down, w3\<lparr>w_db := d\<rparr>))))))"

text \<open>
  The same for a function that may also return early, without an error and without committing
  (\<open>None\<close>): the deferred rollback then ends the transaction.
\<close>

definition in_tx_opt ::
  "('k tx \<Rightarrow> 'a option result \<times> 'k tx) \<Rightarrow> 'k world \<Rightarrow> 'a option result \<times> 'k world" where
  "in_tx_opt body w =
     (case pool_tick w of (sky, w1) \<Rightarrow>
        (if sky \<noteq> Fine then (Inl db_down, w1)
         else (case body (w_db w1, w1) of
                 (Inl e, (d, w2)) \<Rightarrow> (Inl e, w2)
               | (Inr None, (d, w2)) \<Rightarrow> (Inr None, w2)
               | (Inr (Some x), (d, w2)) \<Rightarrow>
                   (case tick w2 of (sky2, w3) \<Rightarrow>
                      (case sky2 of
                         Fine \<Rightarrow> (Inr (Some x), w3\<lparr>w_db := d\<rparr>)
                       | Lost \<Rightarrow> (Inl db_down, w3)
                       | Unheard \<Rightarrow> (Inl db_down, w3\<lparr>w_db := d\<rparr>))))))"

end
