(* ===== verification/Store.thy ===== *)
theory Store
  imports Database
begin

text \<open>
  The store (internal/store/store.go): every exported operation, with its transactions, its
  audit entries and its error paths, on the world of the Database theory.
\<close>

section \<open>The store\<close>

record 'k store =
  st_env :: "'k host envelope"
  st_index :: blind_key
  st_audit_to :: bool

definition indexKeyName :: string where
  "indexKeyName = ''blind-index''"

text \<open>The associated data that binds a wrapped key and its ciphertext to their row.\<close>

definition aad :: "string \<Rightarrow> string \<Rightarrow> bytes" where
  "aad collection oid = ''objects'' @ [nul] @ collection @ [nul] @ oid"

definition indexKeyAAD :: bytes where
  "indexKeyAAD = ''keys'' @ [nul] @ indexKeyName"

record item =
  it_plaintext :: bytes
  it_indexed :: "string gomap"
  it_subject :: string

record ref =
  ref_collection :: string
  ref_id :: string

definition ref_of :: "object_row \<Rightarrow> ref" where
  "ref_of r = \<lparr>ref_collection = o_collection r, ref_id = o_id r\<rparr>"

definition emit :: "'k store \<Rightarrow> audit_entry list \<Rightarrow> 'k world \<Rightarrow> 'k world" where
  "emit st entries w = (if st_audit_to st then w\<lparr>w_shipped := w_shipped w @ entries\<rparr> else w)"

definition audit_row_of :: "audit_entry \<Rightarrow> audit_row" where
  "audit_row_of e =
     \<lparr>a_client = ae_client e, a_action = ae_action e, a_collection = ae_collection e,
      a_object = nullif_empty (ae_object_id e), a_field = nullif_empty (ae_field e)\<rparr>"

definition audit_in_tx :: "audit_entry \<Rightarrow> 'k tx \<Rightarrow> unit result \<times> 'k tx" where
  "audit_in_tx e = tx_exec (sql_insert_audit [audit_row_of e])"

definition object_entry :: "string \<Rightarrow> string \<Rightarrow> string \<Rightarrow> string \<Rightarrow> audit_entry" where
  "object_entry actor action collection oid =
     \<lparr>ae_client = actor, ae_action = action, ae_collection = collection, ae_object_id = oid,
      ae_field = []\<rparr>"

definition newID :: "'k host \<Rightarrow> string \<times> 'k host" where
  "newID h = (case rand_read 16 h of (b, h1) \<Rightarrow> (''tok_'' @ hex_encode b, h1))"

section \<open>PutMany\<close>

definition insert_index_value ::
  "crypto \<Rightarrow> 'k store \<Rightarrow> string \<Rightarrow> string \<Rightarrow> string \<times> string \<Rightarrow> 'k tx \<Rightarrow> unit result \<times> 'k tx" where
  "insert_index_value C st collection oid fv =
     (case fv of (field, value) \<Rightarrow>
        tx_exec (sql_insert_index
          \<lparr>x_collection = collection, x_field = field,
           x_hash = Hash C (st_index st) collection field value, x_object = oid\<rparr>))"

definition object_of :: "string \<Rightarrow> string \<Rightarrow> sealed \<Rightarrow> string \<Rightarrow> object_row" where
  "object_of oid collection s subject =
     \<lparr>o_id = oid, o_collection = collection, o_key_id = s_key_id s, o_wrapped = Some (s_wrapped s),
      o_ciphertext = s_ciphertext s, o_deleted = False, o_subject = nullif_empty subject\<rparr>"

definition put_item ::
  "crypto \<Rightarrow> 'k store \<Rightarrow> string \<Rightarrow> string \<Rightarrow> item \<Rightarrow> 'k tx \<Rightarrow> (string \<times> audit_entry) result \<times> 'k tx" where
  "put_item C st actor collection it s0 =
     (case tx_host newID s0 of (oid, s1) \<Rightarrow>
     (case tx_host (Seal C (st_env st) (it_plaintext it) (aad collection oid)) s1 of
        (Inl e, s2) \<Rightarrow> (Inl e, s2)
      | (Inr sealed, s2) \<Rightarrow>
     (case tx_exec (sql_insert_object (object_of oid collection sealed (it_subject it))) s2 of
        (Inl e, s3) \<Rightarrow> (Inl e, s3)
      | (Inr _, s3) \<Rightarrow>
     (case try_each (insert_index_value C st collection oid)
             (range_over (ranges (w_host (snd s3))) (it_indexed it)) s3 of
        (Inl e, s4) \<Rightarrow> (Inl e, s4)
      | (Inr _, s4) \<Rightarrow>
     (let entry = object_entry actor ''create'' collection oid in
     (case audit_in_tx entry s4 of
        (Inl e, s5) \<Rightarrow> (Inl e, s5)
      | (Inr _, s5) \<Rightarrow> (Inr (oid, entry), s5)))))))"

definition PutMany ::
  "crypto \<Rightarrow> 'k store \<Rightarrow> string \<Rightarrow> string \<Rightarrow> item list \<Rightarrow> 'k world \<Rightarrow> string list result \<times> 'k world"
where
  "PutMany C st actor collection items w =
     (case in_tx (try_each (put_item C st actor collection) items) w of
        (Inl e, w1) \<Rightarrow> (Inl e, w1)
      | (Inr puts, w1) \<Rightarrow> (Inr (map fst puts), emit st (map snd puts) w1))"

section \<open>Reading\<close>

definition nil_if_null :: "bytes option \<Rightarrow> bytes" where
  "nil_if_null b = (case b of None \<Rightarrow> [] | Some x \<Rightarrow> x)"

definition sealed_of :: "object_row \<Rightarrow> sealed" where
  "sealed_of r =
     \<lparr>s_key_id = o_key_id r, s_wrapped = nil_if_null (o_wrapped r), s_ciphertext = o_ciphertext r\<rparr>"

fun collect_found :: "(string \<times> bytes result) list \<Rightarrow> bytes gomap \<Rightarrow> bytes gomap result" where
  "collect_found [] found = Inr found"
| "collect_found ((oid, r) # rs) found =
     (case r of
        Inl e \<Rightarrow> Inl (ErrWrap (''object '' @ oid) e)
      | Inr p \<Rightarrow> collect_found rs (AList.update oid p found))"

definition GetMany ::
  "crypto \<Rightarrow> 'k store \<Rightarrow> string \<Rightarrow> string list \<Rightarrow> 'k world \<Rightarrow> bytes gomap result \<times> 'k world" where
  "GetMany C st collection ids w =
     (case pool_exec (sql_select_objects
             (\<lambda>r. o_collection r = collection \<and> o_id r \<in> set ids \<and> \<not> o_deleted r)) w of
        (Inl e, w1) \<Rightarrow> (Inl e, w1)
      | (Inr rows, w1) \<Rightarrow>
          (case on_host (OpenMany C (st_env st)
                  (map (\<lambda>r. (sealed_of r, aad collection (o_id r))) rows)) w1 of
             (Inl e, w2) \<Rightarrow> (Inl e, w2)
           | (Inr opened, w2) \<Rightarrow> (collect_found (zip (map o_id rows) opened) [], w2)))"

definition SearchPage :: nat where "SearchPage = 100"

definition Search ::
  "crypto \<Rightarrow> 'k store \<Rightarrow> string \<Rightarrow> string \<Rightarrow> string \<Rightarrow> string \<Rightarrow> 'k world
   \<Rightarrow> string list result \<times> 'k world" where
  "Search C st collection field normalized after =
     (let h = Hash C (st_index st) collection field normalized in
      pool_exec (sql_select_index
        (\<lambda>x. x_collection x = collection \<and> x_field x = field \<and> x_hash x = h \<and> x_object x > after)
        SearchPage))"

definition ref_order :: "ref list \<Rightarrow> ref list" where
  "ref_order = sort_key (\<lambda>r. ref_collection r) \<circ> sort_key (\<lambda>r. ref_id r)"

definition Subject :: "string \<Rightarrow> 'k world \<Rightarrow> ref list result \<times> 'k world" where
  "Subject subject w =
     (case pool_exec (sql_select_objects (\<lambda>r. o_subject r = Some subject \<and> \<not> o_deleted r)) w of
        (Inl e, w1) \<Rightarrow> (Inl e, w1)
      | (Inr rows, w1) \<Rightarrow> (Inr (ref_order (map ref_of rows)), w1))"

section \<open>Shredding\<close>

definition delete_in_tx ::
  "string \<Rightarrow> string \<Rightarrow> string \<Rightarrow> 'k tx \<Rightarrow> audit_entry result \<times> 'k tx" where
  "delete_in_tx actor collection oid s0 =
     (case tx_exec (sql_shred
             (\<lambda>r. o_id r = oid \<and> o_collection r = collection \<and> \<not> o_deleted r)) s0 of
        (Inl e, s1) \<Rightarrow> (Inl e, s1)
      | (Inr rows, s1) \<Rightarrow>
          if length rows = 0 then (Inl ErrNotFound, s1)
          else
     (case tx_exec (sql_delete_index collection oid) s1 of
        (Inl e, s2) \<Rightarrow> (Inl e, s2)
      | (Inr _, s2) \<Rightarrow>
     (let entry = object_entry actor ''delete'' collection oid in
     (case audit_in_tx entry s2 of
        (Inl e, s3) \<Rightarrow> (Inl e, s3)
      | (Inr _, s3) \<Rightarrow> (Inr entry, s3)))))"

definition Delete ::
  "'k store \<Rightarrow> string \<Rightarrow> string \<Rightarrow> string \<Rightarrow> 'k world \<Rightarrow> unit result \<times> 'k world" where
  "Delete st actor collection oid w =
     (case in_tx (delete_in_tx actor collection oid) w of
        (Inl e, w1) \<Rightarrow> (Inl e, w1)
      | (Inr entry, w1) \<Rightarrow> (Inr (), emit st [entry] w1))"

definition erase_ref :: "string \<Rightarrow> ref \<Rightarrow> 'k tx \<Rightarrow> audit_entry result \<times> 'k tx" where
  "erase_ref actor r s0 =
     (case tx_exec (sql_delete_index (ref_collection r) (ref_id r)) s0 of
        (Inl e, s1) \<Rightarrow> (Inl e, s1)
      | (Inr _, s1) \<Rightarrow>
     (let entry = object_entry actor ''delete'' (ref_collection r) (ref_id r) in
     (case audit_in_tx entry s1 of
        (Inl e, s2) \<Rightarrow> (Inl e, s2)
      | (Inr _, s2) \<Rightarrow> (Inr entry, s2))))"

definition delete_subject_in_tx ::
  "string \<Rightarrow> string \<Rightarrow> 'k tx \<Rightarrow> (ref list \<times> audit_entry list) result \<times> 'k tx" where
  "delete_subject_in_tx actor subject s0 =
     (case tx_exec (sql_shred (\<lambda>r. o_subject r = Some subject \<and> \<not> o_deleted r)) s0 of
        (Inl e, s1) \<Rightarrow> (Inl e, s1)
      | (Inr rows, s1) \<Rightarrow>
     (let erased = map ref_of rows in
     (case try_each (erase_ref actor) erased s1 of
        (Inl e, s2) \<Rightarrow> (Inl e, s2)
      | (Inr entries, s2) \<Rightarrow> (Inr (erased, entries), s2))))"

definition DeleteSubject ::
  "'k store \<Rightarrow> string \<Rightarrow> string \<Rightarrow> 'k world \<Rightarrow> ref list result \<times> 'k world" where
  "DeleteSubject st actor subject w =
     (case in_tx (delete_subject_in_tx actor subject) w of
        (Inl e, w1) \<Rightarrow> (Inl e, w1)
      | (Inr (erased, entries), w1) \<Rightarrow> (Inr erased, emit st entries w1))"

section \<open>The audit log\<close>

definition AuditMany :: "'k store \<Rightarrow> audit_entry list \<Rightarrow> 'k world \<Rightarrow> unit result \<times> 'k world" where
  "AuditMany st entries w =
     (if entries = [] then (Inr (), w)
      else (case pool_exec (sql_insert_audit (map audit_row_of entries)) w of
              (Inl e, w1) \<Rightarrow> (Inl e, w1)
            | (Inr _, w1) \<Rightarrow> (Inr (), emit st entries w1)))"

end
