(* ===== verification/Api.thy ===== *)
theory Api
  imports Auth Schema Store
begin

text \<open>
  The HTTP API (internal/api/api.go): requests and answers, the reveal budget, the checks every
  handler makes, and parsing and rendering of objects. The handlers themselves are in the
  Handlers theory.

  The vault is an interface in the code and a record of operations on an arbitrary state here;
  the Gateway theory puts the store behind it. The rate limiter is a package of its own: \<open>AllowN\<close>
  is an argument. A Go panic, which \<open>net/http\<close> turns into a dropped connection, is the answer
  \<open>Dropped\<close>.
\<close>

section \<open>Limits and patterns\<close>

definition maxBody :: nat where "maxBody = 1048576"
definition maxBatch :: nat where "maxBatch = 1000"
definition maxBatchBody :: nat where "maxBatchBody = 16777216"
definition maxIDsBody :: nat where "maxIDsBody = 131072"
definition maxQuery :: nat where "maxQuery = 4096"

definition lower_alnum :: "char \<Rightarrow> bool" where
  "lower_alnum c \<longleftrightarrow> is_digit c \<or> (0x61 \<le> byte c \<and> byte c \<le> 0x7A)"

definition collectionRe :: "string \<Rightarrow> bool" where
  "collectionRe s \<longleftrightarrow>
     (case s of
        [] \<Rightarrow> False
      | c # cs \<Rightarrow> lower_alnum c \<and> length cs \<le> 63
                  \<and> list_all (\<lambda>x. lower_alnum x \<or> x = CHR ''_'' \<or> x = CHR ''-'') cs)"

definition lower_hex :: "char \<Rightarrow> bool" where
  "lower_hex c \<longleftrightarrow> is_digit c \<or> (0x61 \<le> byte c \<and> byte c \<le> 0x66)"

definition idRe :: "string \<Rightarrow> bool" where
  "idRe s \<longleftrightarrow>
     (case cut_prefix ''tok_'' s of None \<Rightarrow> False | Some h \<Rightarrow> length h = 32 \<and> list_all lower_hex h)"

definition subject_char :: "char \<Rightarrow> bool" where
  "subject_char c \<longleftrightarrow>
     lower_alnum c \<or> (0x41 \<le> byte c \<and> byte c \<le> 0x5A) \<or> c \<in> set ''._:@-''"

definition subjectRe :: "string \<Rightarrow> bool" where
  "subjectRe s \<longleftrightarrow> 1 \<le> length s \<and> length s \<le> 128 \<and> list_all subject_char s"

definition subjectKey :: string where
  "subjectKey = ''_subject''"

section \<open>The vault\<close>

record 'v vault =
  v_PutMany :: "string \<Rightarrow> string \<Rightarrow> item list \<Rightarrow> 'v \<Rightarrow> string list result \<times> 'v"
  v_GetMany :: "string \<Rightarrow> string list \<Rightarrow> 'v \<Rightarrow> bytes gomap result \<times> 'v"
  v_Delete :: "string \<Rightarrow> string \<Rightarrow> string \<Rightarrow> 'v \<Rightarrow> unit result \<times> 'v"
  v_Search :: "string \<Rightarrow> string \<Rightarrow> string \<Rightarrow> string \<Rightarrow> 'v \<Rightarrow> string list result \<times> 'v"
  v_Subject :: "string \<Rightarrow> 'v \<Rightarrow> ref list result \<times> 'v"
  v_DeleteSubject :: "string \<Rightarrow> string \<Rightarrow> 'v \<Rightarrow> ref list result \<times> 'v"
  v_AuditMany :: "audit_entry list \<Rightarrow> 'v \<Rightarrow> unit result \<times> 'v"

record limiter =
  l_rate :: float64
  l_burst :: int

text \<open>
  A server: its vault, its schema, its limiters, \<open>AllowN\<close>, and the order its \<open>range\<close> loops use.
\<close>

record ('v, 'l) server =
  s_vault :: "'v vault"
  s_schema :: schema
  s_limiters :: "limiter gomap"
  s_allowN :: "string \<Rightarrow> limiter \<Rightarrow> nat \<Rightarrow> 'l \<Rightarrow> bool \<times> 'l"
  s_range :: "string list \<Rightarrow> string list"

text \<open>What a request changes: the vault, the budgets, and the lines logged on errors.\<close>

record ('v, 'l) site =
  at_vault :: 'v
  at_budget :: 'l
  at_log :: "(string \<times> goerr) list"

definition on_vault :: "('v \<Rightarrow> 'a \<times> 'v) \<Rightarrow> ('v, 'l) site \<Rightarrow> 'a \<times> ('v, 'l) site" where
  "on_vault f s = (case f (at_vault s) of (r, v) \<Rightarrow> (r, s\<lparr>at_vault := v\<rparr>))"

section \<open>Requests and answers\<close>

text \<open>
  A body that arrives whole, or one whose connection fails after some bytes. A path is the list
  of its segments, unescaped.
\<close>

datatype upload = Whole bytes | Broken bytes

record request =
  r_method :: string
  r_path :: "string list"
  r_query :: "(string \<times> string) list"
  r_authorization :: string
  r_body :: upload

definition query_get :: "request \<Rightarrow> string \<Rightarrow> string" where
  "query_get r k = (case map_of (r_query r) k of None \<Rightarrow> [] | Some v \<Rightarrow> v)"

datatype object_error =
    Exceeds_1MiB
  | Not_UTF8
  | Not_a_JSON_object
  | Bad_subject
  | Refused schema_error

datatype rendered = Raw bytes | Masked "string gomap"

text \<open>The body of an answer, before its encoding as JSON; \<open>Refusal\<close> with the position in a batch.\<close>

datatype payload =
    Empty
  | Failure string
  | Refusal "nat option" object_error
  | Created_id string
  | Created_ids "string list"
  | Shown rendered
  | Batch "rendered gomap" "string list"
  | Page "string list" "string option"
  | Listed "ref list"
  | Erased "ref list"

datatype answer = Answer nat payload | Dropped

definition writeError :: "nat \<Rightarrow> string \<Rightarrow> answer" where
  "writeError status msg = Answer status (Failure msg)"

definition internalError :: "string \<Rightarrow> goerr \<Rightarrow> ('v, 'l) site \<Rightarrow> answer \<times> ('v, 'l) site" where
  "internalError op e s = (writeError 500 ''internal error'', s\<lparr>at_log := at_log s @ [(op, e)]\<rparr>)"

text \<open>
  \<open>require\<close>, \<open>allow\<close>, \<open>readBody\<close> and \<open>auditMany\<close> answer the request themselves when they refuse
  it: \<open>Some\<close> answer, and the handler returns.
\<close>

definition require :: "client \<Rightarrow> string \<Rightarrow> answer option" where
  "require c role =
     (if has c role then None else Some (writeError 403 (''role '' @ role @ '' required'')))"

definition allow ::
  "('v, 'l) server \<Rightarrow> client \<Rightarrow> nat \<Rightarrow> ('v, 'l) site \<Rightarrow> answer option \<times> ('v, 'l) site" where
  "allow srv c n s =
     (case map_of (s_limiters srv) (c_name c) of
        None \<Rightarrow> (None, s)
      | Some l \<Rightarrow>
          (case s_allowN srv (c_name c) l n (at_budget s) of
             (ok, b) \<Rightarrow> (if ok then None else Some (writeError 429 ''rate limit exceeded''),
                          s\<lparr>at_budget := b\<rparr>)))"

definition readBody :: "request \<Rightarrow> nat \<Rightarrow> answer + bytes" where
  "readBody r limit =
     (case r_body r of
        Whole b \<Rightarrow>
          if length b > limit then Inl (writeError 413 (''body exceeds '' @ decimal limit @ '' bytes''))
          else Inr b
      | Broken b \<Rightarrow>
          Inl (if length b > limit then writeError 413 (''body exceeds '' @ decimal limit @ '' bytes'')
               else writeError 400 ''cannot read body''))"

definition auditMany ::
  "('v, 'l) server \<Rightarrow> client \<Rightarrow> audit_entry list \<Rightarrow> ('v, 'l) site \<Rightarrow> answer option \<times> ('v, 'l) site" where
  "auditMany srv c entries s =
     (case on_vault (v_AuditMany (s_vault srv) (map (\<lambda>e. e\<lparr>ae_client := c_name c\<rparr>) entries)) s of
        (Inl e, s1) \<Rightarrow> (case internalError ''audit'' e s1 of (a, s2) \<Rightarrow> (Some a, s2))
      | (Inr _, s1) \<Rightarrow> (None, s1))"

definition audit ::
  "('v, 'l) server \<Rightarrow> client \<Rightarrow> string \<Rightarrow> string \<Rightarrow> string \<Rightarrow> string \<Rightarrow> ('v, 'l) site
   \<Rightarrow> answer option \<times> ('v, 'l) site" where
  "audit srv c action collection objectID field =
     auditMany srv c
       [\<lparr>ae_client = [], ae_action = action, ae_collection = collection, ae_object_id = objectID,
         ae_field = field\<rparr>]"

definition revealRole :: "string \<Rightarrow> string" where
  "revealRole reveal = (if reveal = ''full'' then RoleReadFull else RoleReadMasked)"

definition reveal_known :: "string \<Rightarrow> bool" where
  "reveal_known reveal \<longleftrightarrow> reveal = [] \<or> reveal = ''masked'' \<or> reveal = ''full''"

definition reveal_action :: "string \<Rightarrow> string" where
  "reveal_action reveal = ''reveal_'' @ (if reveal = [] then ''masked'' else reveal)"

section \<open>Objects\<close>

text \<open>
  \<open>parseObject\<close>: \<open>Inl Nil_call\<close> inside is a panic, which the handlers below pass on as one. The
  subject is taken out of the map before the rest is validated and encoded.
\<close>

definition take_subject :: "bytes gomap \<Rightarrow> object_error + string \<times> bytes gomap" where
  "take_subject obj =
     (case map_of obj subjectKey of
        None \<Rightarrow> Inr ([], obj)
      | Some raw \<Rightarrow>
          (case unmarshal_string raw of
             None \<Rightarrow> Inl Bad_subject
           | Some subject \<Rightarrow>
               if \<not> subjectRe subject then Inl Bad_subject
               else Inr (subject, AList.delete subjectKey obj)))"

definition parseObject :: "('v, 'l) server \<Rightarrow> string \<Rightarrow> bytes \<Rightarrow> object_error + item" where
  "parseObject srv collection raw =
     (if length raw > maxBody then Inl Exceeds_1MiB
      else if \<not> utf8_valid raw then Inl Not_UTF8
      else
        (case unmarshal_map raw of
           None \<Rightarrow> Inl Not_a_JSON_object
         | Some None \<Rightarrow> Inl Not_a_JSON_object
         | Some (Some obj) \<Rightarrow>
             (case take_subject obj of
                Inl e \<Rightarrow> Inl e
              | Inr (subject, rest) \<Rightarrow>
                  (case Validate (s_range srv) (s_schema srv) collection rest of
                     Inl e \<Rightarrow> Inl (Refused e)
                   | Inr _ \<Rightarrow>
                       (case marshal_map rest of
                          None \<Rightarrow> Inl Not_a_JSON_object
                        | Some canonical \<Rightarrow>
                            (case Indexed (s_range srv) (s_schema srv) collection rest of
                               Inl e \<Rightarrow> Inl (Refused e)
                             | Inr values \<Rightarrow>
                                 Inr \<lparr>it_plaintext = canonical, it_indexed = values,
                                      it_subject = subject\<rparr>))))))"

datatype render_error = Not_an_object | Render_panic

text \<open>\<open>json.Unmarshal\<close> of null leaves the nil map, which masks to the empty object.\<close>

definition render ::
  "('v, 'l) server \<Rightarrow> string \<Rightarrow> bytes \<Rightarrow> bool \<Rightarrow> render_error + rendered" where
  "render srv collection plaintext full =
     (if full then Inr (Raw plaintext)
      else
        (case unmarshal_map plaintext of
           None \<Rightarrow> Inl Not_an_object
         | Some obj \<Rightarrow>
             (case Mask (s_schema srv) collection (case obj of None \<Rightarrow> [] | Some m \<Rightarrow> m) of
                Inl _ \<Rightarrow> Inl Render_panic
              | Inr m \<Rightarrow> Inr (Masked m))))"

end
