(* ===== verification/Handlers.thy ===== *)
theory Handlers
  imports Api
begin

text \<open>
  The handlers of internal/api/api.go, each as the sequence of its checks and calls, the routes
  that lead to them, and \<open>New\<close>, which puts authentication in front. A handler takes the server,
  the authenticated client, its path values and the request.
\<close>

section \<open>Writing\<close>

text \<open>The answer to an object that is refused, alone or at its place in a batch.\<close>

definition refuse :: "nat option \<Rightarrow> object_error \<Rightarrow> answer" where
  "refuse i e = (if e = Refused Nil_call then Dropped else Answer 400 (Refusal i e))"

definition create ::
  "('v, 'l) server \<Rightarrow> client \<Rightarrow> string \<Rightarrow> request \<Rightarrow> ('v, 'l) site \<Rightarrow> answer \<times> ('v, 'l) site" where
  "create srv c collection r s =
     (case require c RoleWrite of Some a \<Rightarrow> (a, s) | None \<Rightarrow>
      if \<not> collectionRe collection then (writeError 400 ''invalid collection name'', s) else
     (case readBody r maxBody of Inl a \<Rightarrow> (a, s) | Inr body \<Rightarrow>
     (case parseObject srv collection body of
        Inl e \<Rightarrow> (refuse None e, s)
      | Inr it \<Rightarrow>
     (case on_vault (v_PutMany (s_vault srv) (c_name c) collection [it]) s of
        (Inl e, s1) \<Rightarrow> internalError ''put'' e s1
      | (Inr ids, s1) \<Rightarrow>
          (case ids of [] \<Rightarrow> (Dropped, s1) | i # _ \<Rightarrow> (Answer 201 (Created_id i), s1))))))"

text \<open>The objects of a batch, up to the first that is refused, with its position.\<close>

fun parse_batch ::
  "('v, 'l) server \<Rightarrow> string \<Rightarrow> nat \<Rightarrow> bytes list \<Rightarrow> (nat \<times> object_error) + item list" where
  "parse_batch srv collection i [] = Inr []"
| "parse_batch srv collection i (raw # raws) =
     (case parseObject srv collection raw of
        Inl e \<Rightarrow> Inl (i, e)
      | Inr it \<Rightarrow>
          (case parse_batch srv collection (Suc i) raws of
             Inl e \<Rightarrow> Inl e | Inr its \<Rightarrow> Inr (it # its)))"

definition createBatch ::
  "('v, 'l) server \<Rightarrow> client \<Rightarrow> string \<Rightarrow> request \<Rightarrow> ('v, 'l) site \<Rightarrow> answer \<times> ('v, 'l) site" where
  "createBatch srv c collection r s =
     (case require c RoleWrite of Some a \<Rightarrow> (a, s) | None \<Rightarrow>
      if \<not> collectionRe collection then (writeError 400 ''invalid collection name'', s) else
     (case readBody r maxBatchBody of Inl a \<Rightarrow> (a, s) | Inr body \<Rightarrow>
     (let objs = (case unmarshal_batch body of None \<Rightarrow> [] | Some os \<Rightarrow> os) in
      if objs = []
      then (writeError 400 (''body must be {'' @ [quote] @ ''objects'' @ [quote]
              @ '': [...]} with at least one object''), s)
      else if length objs > maxBatch
      then (writeError 400 (''at most '' @ decimal maxBatch @ '' objects per batch''), s) else
     (case parse_batch srv collection 0 objs of
        Inl (i, e) \<Rightarrow> (refuse (Some i) e, s)
      | Inr items \<Rightarrow>
     (case on_vault (v_PutMany (s_vault srv) (c_name c) collection items) s of
        (Inl e, s1) \<Rightarrow> internalError ''put batch'' e s1
      | (Inr ids, s1) \<Rightarrow> (Answer 201 (Created_ids ids), s1))))))"

definition delete ::
  "('v, 'l) server \<Rightarrow> client \<Rightarrow> string \<Rightarrow> string \<Rightarrow> ('v, 'l) site \<Rightarrow> answer \<times> ('v, 'l) site" where
  "delete srv c collection oid s =
     (case require c RoleDelete of Some a \<Rightarrow> (a, s) | None \<Rightarrow>
      if \<not> idRe oid then (writeError 404 ''object not found'', s) else
     (case on_vault (v_Delete (s_vault srv) (c_name c) collection oid) s of
        (Inl e, s1) \<Rightarrow>
          if errors_is e ErrNotFound then (writeError 404 ''object not found'', s1)
          else internalError ''delete'' e s1
      | (Inr _, s1) \<Rightarrow> (Answer 204 Empty, s1)))"

section \<open>Reading\<close>

definition bad_json :: goerr where
  "bad_json = ErrMsg ''invalid JSON''"

definition get ::
  "('v, 'l) server \<Rightarrow> client \<Rightarrow> string \<Rightarrow> string \<Rightarrow> request \<Rightarrow> ('v, 'l) site
   \<Rightarrow> answer \<times> ('v, 'l) site" where
  "get srv c collection oid r s =
     (let reveal = query_get r ''reveal'' in
      if \<not> reveal_known reveal then (writeError 400 ''reveal must be masked or full'', s) else
     (case require c (revealRole reveal) of Some a \<Rightarrow> (a, s) | None \<Rightarrow>
     (case (if reveal = ''full'' then allow srv c 1 s else (None, s)) of
        (Some a, s1) \<Rightarrow> (a, s1)
      | (None, s1) \<Rightarrow>
      if \<not> idRe oid then (writeError 404 ''object not found'', s1) else
     (case on_vault (v_GetMany (s_vault srv) collection [oid]) s1 of
        (Inl e, s2) \<Rightarrow> internalError ''get'' e s2
      | (Inr found, s2) \<Rightarrow>
     (case map_of found oid of
        None \<Rightarrow> (writeError 404 ''object not found'', s2)
      | Some plaintext \<Rightarrow>
     (case audit srv c (reveal_action reveal) collection oid [] s2 of
        (Some a, s3) \<Rightarrow> (a, s3)
      | (None, s3) \<Rightarrow>
      if reveal = ''full'' then (Answer 200 (Shown (Raw plaintext)), s3) else
     (case render srv collection plaintext False of
        Inl Render_panic \<Rightarrow> (Dropped, s3)
      | Inl Not_an_object \<Rightarrow> internalError ''get: stored object is not a JSON object'' bad_json s3
      | Inr shown \<Rightarrow> (Answer 200 (Shown shown), s3))))))))"

text \<open>
  The loop of \<open>revealBatch\<close> over the requested ids: what has been seen, the objects rendered, the
  missing ids and the audit entries so far.
\<close>

type_synonym batch_state = "string list \<times> rendered gomap \<times> string list \<times> audit_entry list"

fun reveal_each ::
  "('v, 'l) server \<Rightarrow> string \<Rightarrow> string \<Rightarrow> bytes gomap \<Rightarrow> string list \<Rightarrow> batch_state
   \<Rightarrow> render_error + batch_state" where
  "reveal_each srv collection reveal found [] st = Inr st"
| "reveal_each srv collection reveal found (oid # oids) (seen, objs, missing, entries) =
     (if oid \<in> set seen then reveal_each srv collection reveal found oids (seen, objs, missing, entries)
      else
        (case map_of found oid of
           None \<Rightarrow>
             reveal_each srv collection reveal found oids (oid # seen, objs, missing @ [oid], entries)
         | Some plaintext \<Rightarrow>
             (case render srv collection plaintext (reveal = ''full'') of
                Inl e \<Rightarrow> Inl e
              | Inr shown \<Rightarrow>
                  reveal_each srv collection reveal found oids
                    (oid # seen, AList.update oid shown objs, missing,
                     entries @ [\<lparr>ae_client = [], ae_action = reveal_action reveal,
                                 ae_collection = collection, ae_object_id = oid, ae_field = []\<rparr>]))))"

definition revealBatch ::
  "('v, 'l) server \<Rightarrow> client \<Rightarrow> string \<Rightarrow> request \<Rightarrow> ('v, 'l) site \<Rightarrow> answer \<times> ('v, 'l) site" where
  "revealBatch srv c collection r s =
     (case readBody r maxIDsBody of Inl a \<Rightarrow> (a, s) | Inr body \<Rightarrow>
     (case (case unmarshal_reveal body of None \<Rightarrow> ([], []) | Some q \<Rightarrow> q) of (oids, reveal) \<Rightarrow>
      if oids = []
      then (writeError 400 (''body must be {'' @ [quote] @ ''ids'' @ [quote] @ '': [...], '' @ [quote]
              @ ''reveal'' @ [quote] @ '': '' @ [quote] @ ''masked'' @ [quote] @ ''|'' @ [quote]
              @ ''full'' @ [quote] @ ''}''), s)
      else if length oids > maxBatch
      then (writeError 400 (''at most '' @ decimal maxBatch @ '' ids per request''), s)
      else if \<not> reveal_known reveal then (writeError 400 ''reveal must be masked or full'', s) else
     (case require c (revealRole reveal) of Some a \<Rightarrow> (a, s) | None \<Rightarrow>
     (case on_vault (v_GetMany (s_vault srv) collection oids) s of
        (Inl e, s1) \<Rightarrow> internalError ''reveal batch'' e s1
      | (Inr found, s1) \<Rightarrow>
     (case (if reveal = ''full'' then allow srv c (length found) s1 else (None, s1)) of
        (Some a, s2) \<Rightarrow> (a, s2)
      | (None, s2) \<Rightarrow>
     (case reveal_each srv collection reveal found oids ([], [], [], []) of
        Inl Render_panic \<Rightarrow> (Dropped, s2)
      | Inl Not_an_object \<Rightarrow>
          internalError ''reveal batch: stored object is not a JSON object'' bad_json s2
      | Inr (_, objs, missing, entries) \<Rightarrow>
     (case auditMany srv c entries s2 of
        (Some a, s3) \<Rightarrow> (a, s3)
      | (None, s3) \<Rightarrow> (Answer 200 (Batch objs missing), s3))))))))"

section \<open>Searching and subjects\<close>

definition search ::
  "('v, 'l) server \<Rightarrow> client \<Rightarrow> string \<Rightarrow> request \<Rightarrow> ('v, 'l) site \<Rightarrow> answer \<times> ('v, 'l) site" where
  "search srv c collection r s =
     (case require c RoleSearch of Some a \<Rightarrow> (a, s) | None \<Rightarrow>
     (case allow srv c 1 s of (Some a, s1) \<Rightarrow> (a, s1) | (None, s1) \<Rightarrow>
     (let after = query_get r ''after'' in
      if after \<noteq> [] \<and> \<not> idRe after then (writeError 400 ''after must be an object id'', s1) else
     (case readBody r maxQuery of Inl a \<Rightarrow> (a, s1) | Inr body \<Rightarrow>
     (case (case unmarshal_string_map body of None \<Rightarrow> [] | Some q \<Rightarrow> q) of
        [(field, val)] \<Rightarrow>
          (case Normalize (s_schema srv) collection field val of
             Inl e \<Rightarrow> (refuse None (Refused e), s1)
           | Inr (index, normalized) \<Rightarrow>
          (case on_vault (v_Search (s_vault srv) collection index normalized after) s1 of
             (Inl e, s2) \<Rightarrow> internalError ''search'' e s2
           | (Inr ids, s2) \<Rightarrow>
          (case audit srv c ''search'' collection [] index s2 of
             (Some a, s3) \<Rightarrow> (a, s3)
           | (None, s3) \<Rightarrow>
               (Answer 200 (Page ids (if length ids = SearchPage then Some (last ids) else None)), s3))))
      | _ \<Rightarrow> (writeError 400 ''body must be a JSON object with exactly one string field'', s1))))))"

definition subject ::
  "('v, 'l) server \<Rightarrow> client \<Rightarrow> string \<Rightarrow> ('v, 'l) site \<Rightarrow> answer \<times> ('v, 'l) site" where
  "subject srv c who s =
     (case require c RoleReadMasked of Some a \<Rightarrow> (a, s) | None \<Rightarrow>
      if \<not> subjectRe who then (writeError 400 ''invalid subject'', s) else
     (case on_vault (v_Subject (s_vault srv) who) s of
        (Inl e, s1) \<Rightarrow> internalError ''subject'' e s1
      | (Inr refs, s1) \<Rightarrow> (Answer 200 (Listed refs), s1)))"

definition eraseSubject ::
  "('v, 'l) server \<Rightarrow> client \<Rightarrow> string \<Rightarrow> ('v, 'l) site \<Rightarrow> answer \<times> ('v, 'l) site" where
  "eraseSubject srv c who s =
     (case require c RoleDelete of Some a \<Rightarrow> (a, s) | None \<Rightarrow>
      if \<not> subjectRe who then (writeError 400 ''invalid subject'', s) else
     (case on_vault (v_DeleteSubject (s_vault srv) (c_name c) who) s of
        (Inl e, s1) \<Rightarrow> internalError ''erase subject'' e s1
      | (Inr refs, s1) \<Rightarrow> (Answer 200 (Erased refs), s1)))"

section \<open>Routes\<close>

datatype segment = Lit string | Var

datatype endpoint =
    Create | Create_batch | Reveal_batch | Get | Delete_object | Search_in | Subject_of
  | Erase_subject

definition routes :: "((string \<times> segment list) \<times> endpoint) list" where
  "routes =
     (let objs = [Lit ''v1'', Lit ''collections'', Var, Lit ''objects''] in
      [((''POST'', objs), Create),
       ((''POST'', objs @ [Lit ''batch'']), Create_batch),
       ((''POST'', objs @ [Lit ''reveal'']), Reveal_batch),
       ((''GET'', objs @ [Var]), Get),
       ((''DELETE'', objs @ [Var]), Delete_object),
       ((''POST'', [Lit ''v1'', Lit ''collections'', Var, Lit ''search'']), Search_in),
       ((''GET'', [Lit ''v1'', Lit ''subjects'', Var]), Subject_of),
       ((''DELETE'', [Lit ''v1'', Lit ''subjects'', Var]), Erase_subject)])"

text \<open>
  \<open>http.ServeMux\<close>: a wildcard matches one segment that is not empty, \<open>GET\<close> also matches \<open>HEAD\<close>.
  A path that only matches under another method is answered 405, and any other 404.
\<close>

fun match_path :: "segment list \<Rightarrow> string list \<Rightarrow> string list option" where
  "match_path [] [] = Some []"
| "match_path (Lit l # ps) (x # xs) = (if l = x then match_path ps xs else None)"
| "match_path (Var # ps) (x # xs) =
     (if x = [] then None else map_option (\<lambda>vs. x # vs) (match_path ps xs))"
| "match_path _ _ = None"

definition method_matches :: "string \<Rightarrow> string \<Rightarrow> bool" where
  "method_matches m m' \<longleftrightarrow> m = m' \<or> (m = ''GET'' \<and> m' = ''HEAD'')"

fun lookup_route ::
  "((string \<times> segment list) \<times> 'e) list \<Rightarrow> string \<Rightarrow> string list \<Rightarrow> ('e \<times> string list) option" where
  "lookup_route [] m path = None"
| "lookup_route (((m', pat), e) # rs) m path =
     (case (if method_matches m' m then match_path pat path else None) of
        Some vs \<Rightarrow> Some (e, vs)
      | None \<Rightarrow> lookup_route rs m path)"

definition path_known :: "((string \<times> segment list) \<times> 'e) list \<Rightarrow> string list \<Rightarrow> bool" where
  "path_known rs path \<longleftrightarrow> list_ex (\<lambda>((m, pat), e). match_path pat path \<noteq> None) rs"

fun handle ::
  "('v, 'l) server \<Rightarrow> client \<Rightarrow> endpoint \<Rightarrow> string list \<Rightarrow> request \<Rightarrow> ('v, 'l) site
   \<Rightarrow> answer \<times> ('v, 'l) site" where
  "handle srv c Create [collection] r s = create srv c collection r s"
| "handle srv c Create_batch [collection] r s = createBatch srv c collection r s"
| "handle srv c Reveal_batch [collection] r s = revealBatch srv c collection r s"
| "handle srv c Get [collection, oid] r s = get srv c collection oid r s"
| "handle srv c Delete_object [collection, oid] r s = delete srv c collection oid s"
| "handle srv c Search_in [collection] r s = search srv c collection r s"
| "handle srv c Subject_of [who] r s = subject srv c who s"
| "handle srv c Erase_subject [who] r s = eraseSubject srv c who s"
| "handle srv c _ _ r s = (writeError 404 ''404 page not found'', s)"

definition serve_mux ::
  "('v, 'l) server \<Rightarrow> client \<Rightarrow> request \<Rightarrow> ('v, 'l) site \<Rightarrow> answer \<times> ('v, 'l) site" where
  "serve_mux srv c r s =
     (case lookup_route routes (r_method r) (r_path r) of
        Some (e, vs) \<Rightarrow> handle srv c e vs r s
      | None \<Rightarrow>
          (if path_known routes (r_path r) then writeError 405 ''Method Not Allowed''
           else writeError 404 ''404 page not found'', s))"

definition requireKey ::
  "(bytes \<Rightarrow> bytes) \<Rightarrow> client list
   \<Rightarrow> (client \<Rightarrow> request \<Rightarrow> ('v, 'l) site \<Rightarrow> answer \<times> ('v, 'l) site)
   \<Rightarrow> request \<Rightarrow> ('v, 'l) site \<Rightarrow> answer \<times> ('v, 'l) site" where
  "requireKey sha256 clients next r s =
     (case authenticate sha256 clients (r_authorization r) of
        (c, ok) \<Rightarrow> if \<not> ok then (writeError 401 ''invalid API key'', s) else next c r s)"

text \<open>
  \<open>int(per*5)\<close> of a \<open>float64\<close>: truncated towards zero; outside the range of an \<open>int\<close> the result is
  the machine's, here the one of amd64.
\<close>

definition float_to_int :: "float64 \<Rightarrow> int" where
  "float_to_int x =
     (if \<bar>x\<bar> < 2 ^ 63 then (if 0 \<le> x then \<lfloor>x\<rfloor> else \<lceil>x\<rceil>) else - (2 ^ 63))"

definition new_limiter :: "client \<Rightarrow> limiter" where
  "new_limiter c =
     (let per = (if c_reveal_per_second c = 0 then defaultRevealPerSecond else c_reveal_per_second c)
      in \<lparr>l_rate = per, l_burst = float_to_int (round64 (per * 5))\<rparr>)"

definition new_limiters :: "client list \<Rightarrow> limiter gomap" where
  "new_limiters clients = fold (\<lambda>c m. AList.update (c_name c) (new_limiter c) m) clients []"

definition New ::
  "(bytes \<Rightarrow> bytes) \<Rightarrow> (string \<Rightarrow> limiter \<Rightarrow> nat \<Rightarrow> 'l \<Rightarrow> bool \<times> 'l) \<Rightarrow> (string list \<Rightarrow> string list)
   \<Rightarrow> 'v vault \<Rightarrow> schema \<Rightarrow> client list \<Rightarrow> request \<Rightarrow> ('v, 'l) site \<Rightarrow> answer \<times> ('v, 'l) site" where
  "New sha256 allowN pick v sc clients =
     requireKey sha256 clients
       (serve_mux \<lparr>s_vault = v, s_schema = sc, s_limiters = new_limiters clients,
                   s_allowN = allowN, s_range = pick\<rparr>)"

end
