(* ===== verification/ApiLaws.thy ===== *)
theory ApiLaws
  imports Handlers
begin

text \<open>
  What the API relies on from its vault, as a contract, and what it then promises to its callers:
  no answer hands out data, and none reports a change, without its entry in the audit log.
\<close>

section \<open>The entry behind an answer\<close>

definition shown_action :: "rendered \<Rightarrow> string" where
  "shown_action x = (case x of Raw _ \<Rightarrow> ''reveal_full'' | Masked _ \<Rightarrow> ''reveal_masked'')"

definition search_entry :: "string \<Rightarrow> string \<Rightarrow> string \<Rightarrow> audit_entry" where
  "search_entry actor collection f =
     \<lparr>ae_client = actor, ae_action = ''search'', ae_collection = collection, ae_object_id = [],
      ae_field = f\<rparr>"

text \<open>
  \<open>accounted R actor collection oid p\<close>: everything that payload \<open>p\<close>, answered to a request on this
  collection and id, reveals or reports as changed is an entry of \<open>actor\<close> for which \<open>R\<close> holds.
\<close>

fun accounted :: "(audit_entry \<Rightarrow> bool) \<Rightarrow> string \<Rightarrow> string \<Rightarrow> string \<Rightarrow> payload \<Rightarrow> bool" where
  "accounted R actor coll oid (Shown x) = R (object_entry actor (shown_action x) coll oid)"
| "accounted R actor coll oid (Batch objs missing) =
     list_all (\<lambda>(i, x). R (object_entry actor (shown_action x) coll i)) objs"
| "accounted R actor coll oid (Page ids next) = (\<exists>f. R (search_entry actor coll f))"
| "accounted R actor coll oid (Created_id i) = R (object_entry actor ''create'' coll i)"
| "accounted R actor coll oid (Created_ids is) =
     list_all (\<lambda>i. R (object_entry actor ''create'' coll i)) is"
| "accounted R actor coll oid Empty = R (object_entry actor ''delete'' coll oid)"
| "accounted R actor coll oid (Erased refs) =
     list_all (\<lambda>r. R (object_entry actor ''delete'' (ref_collection r) (ref_id r))) refs"
| "accounted R actor coll oid (Listed refs) = True"
| "accounted R actor coll oid (Failure m) = True"
| "accounted R actor coll oid (Refusal i e) = True"

text \<open>The collection and the id a path names; a subject has neither.\<close>

definition path_collection :: "string list \<Rightarrow> string" where
  "path_collection vs = (case vs of [] \<Rightarrow> [] | c # _ \<Rightarrow> c)"

definition path_id :: "string list \<Rightarrow> string" where
  "path_id vs = (case vs of _ # i # _ \<Rightarrow> i | _ \<Rightarrow> [])"

text \<open>Payloads that carry what the vault holds or report a change to it; the rest are refusals.\<close>

fun substantive :: "payload \<Rightarrow> bool" where
  "substantive (Failure _) = False"
| "substantive (Refusal _ _) = False"
| "substantive _ = True"

section \<open>The contract of the vault\<close>

text \<open>
  \<open>later\<close> is what an operation may do to the vault; \<open>inv\<close> and the recorded entries survive it.
  A batch that is stored answers with one id per item.
\<close>

locale vault_laws =
  fixes V :: "'v vault" and inv :: "'v \<Rightarrow> bool" and later :: "'v \<Rightarrow> 'v \<Rightarrow> bool"
    and recorded :: "'v \<Rightarrow> audit_entry \<Rightarrow> bool"
  assumes later_refl: "later v v"
    and later_inv: "inv v \<Longrightarrow> later v v' \<Longrightarrow> inv v'"
    and later_recorded: "later v v' \<Longrightarrow> recorded v e \<Longrightarrow> recorded v' e"
    and later_trans: "later v v1 \<Longrightarrow> later v1 v2 \<Longrightarrow> later v v2"
    and PutMany: "inv v \<Longrightarrow> v_PutMany V actor c items v = (r, v') \<Longrightarrow> later v v' \<and>
      (\<forall>ids. r = Inr ids \<longrightarrow> length ids = length items
         \<and> list_all (\<lambda>i. recorded v' (object_entry actor ''create'' c i)) ids)"
    and GetMany: "inv v \<Longrightarrow> v_GetMany V c oids v = (m, v') \<Longrightarrow> later v v'"
    and Delete: "inv v \<Longrightarrow> v_Delete V actor c oid v = (u, v') \<Longrightarrow> later v v' \<and>
      (u = Inr () \<longrightarrow> recorded v' (object_entry actor ''delete'' c oid))"
    and Search: "inv v \<Longrightarrow> v_Search V c f x after v = (r, v') \<Longrightarrow> later v v'"
    and Subject: "inv v \<Longrightarrow> v_Subject V who v = (rs, v') \<Longrightarrow> later v v'"
    and DeleteSubject: "inv v \<Longrightarrow> v_DeleteSubject V actor who v = (rs, v') \<Longrightarrow> later v v' \<and>
      (\<forall>refs. rs = Inr refs \<longrightarrow> list_all (\<lambda>r. recorded v' (object_entry actor ''delete''
           (ref_collection r) (ref_id r))) refs)"
    and AuditMany: "inv v \<Longrightarrow> v_AuditMany V es v = (u, v') \<Longrightarrow> later v v' \<and>
      (u = Inr () \<longrightarrow> list_all (recorded v') es)"
begin

definition kept :: "('v, 'l) site \<Rightarrow> ('v, 'l) site \<Rightarrow> bool" where
  "kept s s' \<longleftrightarrow> later (at_vault s) (at_vault s')"

lemma kept_refl [simp]: "kept s s"
  by (simp add: kept_def later_refl)

lemma kept_trans: "kept s s1 \<Longrightarrow> kept s1 s2 \<Longrightarrow> kept s s2"
  unfolding kept_def by (rule later_trans)

lemma kept_inv: "inv (at_vault s) \<Longrightarrow> kept s s' \<Longrightarrow> inv (at_vault s')"
  unfolding kept_def by (rule later_inv)

lemma kept_internalError: "internalError op e s = (a, s') \<Longrightarrow> kept s s'"
  by (auto simp: internalError_def kept_def later_refl)

lemma kept_allow: "allow srv c n s = (x, s') \<Longrightarrow> kept s s'"
  by (auto simp: allow_def kept_def later_refl split: option.splits prod.splits)

lemma on_vault_kept:
  assumes "on_vault f s = (r, s')" and "\<And>r v'. f (at_vault s) = (r, v') \<Longrightarrow> later (at_vault s) v'"
  shows "kept s s'"
  using assms by (auto simp: on_vault_def kept_def split: prod.splits)

lemma on_vaultD: "on_vault f s = (r, s') \<Longrightarrow> f (at_vault s) = (r, at_vault s')"
  by (auto simp: on_vault_def split: prod.splits)

lemma auditMany_laws:
  assumes "s_vault srv = V" and "inv (at_vault s)" and "auditMany srv c entries s = (x, s')"
  shows "kept s s' \<and> (x = None \<longrightarrow>
    list_all (\<lambda>e. recorded (at_vault s') (e\<lparr>ae_client := c_name c\<rparr>)) entries)"
proof -
  obtain u s1 where o: "on_vault (v_AuditMany (s_vault srv) (map (\<lambda>e. e\<lparr>ae_client := c_name c\<rparr>) entries)) s
      = (u, s1)" by (metis surj_pair)
  note A = AuditMany [OF assms(2) on_vaultD [OF o, unfolded assms(1)]]
  then have k: "kept s s1" by (simp add: kept_def)
  show ?thesis
  proof (cases u)
    case (Inl e)
    with assms(3) o obtain a where "internalError ''audit'' e s1 = (a, s')" "x = Some a"
      by (auto simp: auditMany_def split: prod.splits)
    with kept_trans [OF k kept_internalError] show ?thesis by blast
  next
    case (Inr y)
    with assms(3) o A k show ?thesis by (auto simp: auditMany_def list_all_iff)
  qed
qed

lemma audit_laws:
  assumes "s_vault srv = V" and "inv (at_vault s)"
    and "audit srv c action coll oid f s = (x, s')"
  shows "kept s s' \<and> (x = None \<longrightarrow> recorded (at_vault s')
     \<lparr>ae_client = c_name c, ae_action = action, ae_collection = coll, ae_object_id = oid, ae_field = f\<rparr>)"
  using auditMany_laws [OF assms(1,2) assms(3) [unfolded audit_def]] by simp

text \<open>A handler keeps its contract: the vault only moves on, and what the answer tells is recorded.\<close>

definition honest ::
  "client \<Rightarrow> string list \<Rightarrow> ('v, 'l) site \<Rightarrow> answer \<times> ('v, 'l) site \<Rightarrow> bool" where
  "honest c vs s out \<longleftrightarrow>
     kept s (snd out) \<and> (\<forall>n p. fst out = Answer n p \<longrightarrow>
       accounted (recorded (at_vault (snd out))) (c_name c) (path_collection vs) (path_id vs) p)"

lemma honest_refusal:
  "kept s s' \<Longrightarrow> (\<forall>n p. a = Answer n p \<longrightarrow> \<not> substantive p) \<Longrightarrow> honest c vs s (a, s')"
  unfolding honest_def by (auto elim!: substantive.elims(3))

lemma refusals [simp]:
  "writeError n m = Answer k p \<Longrightarrow> \<not> substantive p"
  "require c role = Some (Answer k p) \<Longrightarrow> \<not> substantive p"
  "readBody r limit = Inl (Answer k p) \<Longrightarrow> \<not> substantive p"
  by (auto simp: writeError_def require_def readBody_def split: if_splits upload.splits)

lemma honest_refused [simp]:
  "honest c vs s (writeError n m, s)" "honest c vs s (Dropped, s)"
  "honest c vs s (refuse i e, s)"
  by (auto simp: refuse_def intro!: honest_refusal)

lemma honest_require [simp]: "require c role = Some a \<Longrightarrow> honest c vs s (a, s)"
  by (cases a) (auto intro!: honest_refusal)

lemma honest_readBody [simp]: "readBody r n = Inl a \<Longrightarrow> honest c vs s (a, s)"
  by (cases a) (auto intro!: honest_refusal)

lemma honest_allow: "allow srv c n s = (Some a, s1) \<Longrightarrow> honest c vs s (a, s1)"
  by (rule honest_refusal, erule kept_allow) (auto simp: allow_def split: option.splits prod.splits if_splits)

lemma honest_internalError: "kept s s1 \<Longrightarrow> honest c vs s (internalError op e s1)"
  unfolding internalError_def by (rule honest_refusal) (auto simp: kept_def)

lemma honest_after: "kept s s1 \<Longrightarrow> honest c vs s1 out \<Longrightarrow> honest c vs s out"
  unfolding honest_def by (auto elim: kept_trans)

lemma honest_create:
  assumes "s_vault srv = V" and "inv (at_vault s)"
  shows "honest c [coll] s (create srv c coll r s)"
proof -
  have put: "honest c [coll] s (case on_vault (v_PutMany V (c_name c) coll [it]) s of
        (Inl e, s1) \<Rightarrow> internalError ''put'' e s1
      | (Inr ids, s1) \<Rightarrow> (case ids of [] \<Rightarrow> (Dropped, s1) | i # _ \<Rightarrow> (Answer 201 (Created_id i), s1)))"
    for it
  proof -
    obtain x s1 where o: "on_vault (v_PutMany V (c_name c) coll [it]) s = (x, s1)" by (metis surj_pair)
    note P = PutMany [OF assms(2) on_vaultD [OF o]]
    then have "kept s s1" by (simp add: kept_def)
    with o P show ?thesis
      by (cases x) (simp add: honest_internalError, auto simp: honest_def path_collection_def
          split: list.splits)
  qed
  show ?thesis
    unfolding create_def assms(1)
    by (auto simp: put split: option.splits sum.splits)
qed

lemma honest_createBatch:
  assumes "s_vault srv = V" and "inv (at_vault s)"
  shows "honest c [coll] s (createBatch srv c coll r s)"
proof -
  have put: "honest c [coll] s (case on_vault (v_PutMany V (c_name c) coll items) s of
        (Inl e, s1) \<Rightarrow> internalError ''put batch'' e s1
      | (Inr ids, s1) \<Rightarrow> (Answer 201 (Created_ids ids), s1))" for items
  proof -
    obtain x s1 where o: "on_vault (v_PutMany V (c_name c) coll items) s = (x, s1)" by (metis surj_pair)
    note P = PutMany [OF assms(2) on_vaultD [OF o]]
    then have "kept s s1" by (simp add: kept_def)
    with o P show ?thesis
      by (cases x) (simp add: honest_internalError, auto simp: honest_def path_collection_def)
  qed
  show ?thesis
    unfolding createBatch_def assms(1) Let_def
    by (auto simp: put split: option.splits sum.splits prod.splits)
qed

lemma honest_delete:
  assumes "s_vault srv = V" and "inv (at_vault s)"
  shows "honest c [coll, oid] s (delete srv c coll oid s)"
proof -
  obtain x s1 where o: "on_vault (v_Delete V (c_name c) coll oid) s = (x, s1)" by (metis surj_pair)
  note D = Delete [OF assms(2) on_vaultD [OF o]]
  then have k: "kept s s1" by (simp add: kept_def)
  show ?thesis
  proof (cases x)
    case (Inl e)
    with o assms(1) honest_after [OF k honest_refused(1)] honest_internalError [OF k] show ?thesis
      by (simp add: delete_def split: option.splits)
  next
    case (Inr u)
    with D k have "honest c [coll, oid] s (Answer 204 Empty, s1)"
      by (simp add: honest_def path_collection_def path_id_def)
    with o assms(1) Inr show ?thesis by (simp add: delete_def split: option.splits)
  qed
qed

lemma reveal_action_shown:
  "reveal_known reveal \<Longrightarrow> render srv coll p (reveal = ''full'') = Inr x \<Longrightarrow> shown_action x = reveal_action reveal"
  by (auto simp: render_def reveal_known_def reveal_action_def shown_action_def
      split: if_splits option.splits sum.splits)

lemma honest_get:
  assumes "s_vault srv = V" and "inv (at_vault s)"
  shows "honest c [coll, oid] s (get srv c coll oid r s)"
proof (cases "\<not> reveal_known (query_get r ''reveal'') \<or> require c (revealRole (query_get r ''reveal'')) \<noteq> None")
  case True
  then show ?thesis by (auto simp: get_def Let_def)
next
  case False
  define reveal where "reveal = query_get r ''reveal''"
  with False have rk: "reveal_known reveal" and rq: "require c (revealRole reveal) = None" by auto
  obtain x1 s1 where a: "(if reveal = ''full'' then allow srv c 1 s else (None, s)) = (x1, s1)"
    by (metis surj_pair)
  then have k1: "kept s s1" by (auto dest: kept_allow split: if_splits)
  show ?thesis
  proof (cases "x1 \<noteq> None \<or> \<not> idRe oid")
    case True
    from a have "honest c [coll, oid] s (the x1, s1)" if "x1 \<noteq> None"
      using that by (auto dest: honest_allow split: if_splits)
    with True a rk rq honest_after [OF k1 honest_refused(1)] show ?thesis
      by (cases x1) (auto simp: get_def Let_def reveal_def)
  next
    case False
    obtain x2 s2 where g: "on_vault (v_GetMany V coll [oid]) s1 = (x2, s2)" by (metis surj_pair)
    note G = GetMany [OF kept_inv [OF assms(2) k1] on_vaultD [OF g]]
    then have k2: "kept s s2" using k1 by (auto simp: kept_def intro: later_trans)
    show ?thesis
    proof (cases "\<exists>found plaintext. x2 = Inr found \<and> map_of found oid = Some plaintext")
      case no: False
      with False a rk rq g assms(1) honest_internalError [OF k2] honest_after [OF k2 honest_refused(1)]
      show ?thesis by (cases x2) (auto simp: get_def Let_def reveal_def split: option.splits)
    next
      case True
      then obtain found plaintext where f: "x2 = Inr found" "map_of found oid = Some plaintext" by blast
      obtain x3 s3 where au: "audit srv c (reveal_action reveal) coll oid [] s2 = (x3, s3)" by (metis surj_pair)
      note A = audit_laws [OF assms(1) kept_inv [OF assms(2) k2] au]
      then have k3: "kept s s3" using k2 by (auto intro: kept_trans)
      note H = False a rk rq g f au assms(1)
      show ?thesis
      proof (cases x3)
        case (Some ans)
        with au have "honest c [coll, oid] s (ans, s3)"
          using k3 by (intro honest_refusal)
            (auto simp: audit_def auditMany_def internalError_def writeError_def split: prod.splits sum.splits)
        with H Some show ?thesis by (simp add: get_def Let_def flip: reveal_def)
      next
        case None
        with A have R: "recorded (at_vault s3) (object_entry (c_name c) (reveal_action reveal) coll oid)"
          by (simp add: object_entry_def)
        have ok: "honest c [coll, oid] s (Answer 200 (Shown y), s3)"
          if "render srv coll plaintext (reveal = ''full'') = Inr y" for y
          using reveal_action_shown [OF rk that] R k3
          by (simp add: honest_def path_collection_def path_id_def)
        show ?thesis
        proof (cases "reveal = ''full''")
          case True
          with ok [of "Raw plaintext"] H None show ?thesis
            by (simp add: get_def Let_def render_def flip: reveal_def)
        next
          case False
          with ok H None honest_after [OF k3 honest_refused(2)] honest_internalError [OF k3] show ?thesis
            by (cases "render srv coll plaintext False")
              (auto simp: get_def Let_def simp flip: reveal_def split: render_error.splits)
        qed
      qed
    qed
  qed
qed

text \<open>The loop of a batch reveal has an entry for every object it renders.\<close>

definition entries_cover :: "string \<Rightarrow> rendered gomap \<Rightarrow> audit_entry list \<Rightarrow> bool" where
  "entries_cover coll objs entries \<longleftrightarrow>
     (\<forall>(i, x) \<in> set objs. object_entry [] (shown_action x) coll i \<in> set entries)"

lemma reveal_each_covers:
  assumes "reveal_known reveal"
    and "reveal_each srv coll reveal found oids st = Inr st'"
    and "entries_cover coll (fst (snd st)) (snd (snd (snd st)))"
  shows "entries_cover coll (fst (snd st')) (snd (snd (snd st')))"
  using assms(2,3)
proof (induction oids arbitrary: st)
  case (Cons oid oids)
  obtain seen objs missing entries where st: "st = (seen, objs, missing, entries)" by (cases st)
  show ?case
  proof (cases "oid \<in> set seen \<or> map_of found oid = None")
    case True
    with Cons st show ?thesis by (auto split: if_splits)
  next
    case False
    then obtain plaintext where p: "map_of found oid = Some plaintext" by auto
    from Cons.prems(1) False p st obtain x where
      x: "render srv coll plaintext (reveal = ''full'') = Inr x" and
      rest: "reveal_each srv coll reveal found oids
        (oid # seen, AList.update oid x objs, missing,
         entries @ [object_entry [] (reveal_action reveal) coll oid]) = Inr st'"
      by (auto simp: object_entry_def split: sum.splits)
    have "entries_cover coll (AList.update oid x objs)
        (entries @ [object_entry [] (reveal_action reveal) coll oid])"
      using Cons.prems(2) st reveal_action_shown [OF assms(1) x]
      by (auto simp: entries_cover_def dest!: update_member)
    with Cons.IH [OF rest] show ?thesis by simp
  qed
qed simp

lemma honest_revealBatch:
  assumes "s_vault srv = V" and "inv (at_vault s)"
  shows "honest c [coll] s (revealBatch srv c coll r s)"
proof -
  define q where "q body = (case unmarshal_reveal body of None \<Rightarrow> ([], []) | Some q \<Rightarrow> q)" for body
  have step: "honest c [coll] s
     (case on_vault (v_GetMany V coll oids) s of
        (Inl e, s1) \<Rightarrow> internalError ''reveal batch'' e s1
      | (Inr found, s1) \<Rightarrow>
     (case (if reveal = ''full'' then allow srv c (length found) s1 else (None, s1)) of
        (Some a, s2) \<Rightarrow> (a, s2)
      | (None, s2) \<Rightarrow>
     (case reveal_each srv coll reveal found oids ([], [], [], []) of
        Inl Render_panic \<Rightarrow> (Dropped, s2)
      | Inl Not_an_object \<Rightarrow>
          internalError ''reveal batch: stored object is not a JSON object'' bad_json s2
      | Inr (_, objs, missing, entries) \<Rightarrow>
     (case auditMany srv c entries s2 of
        (Some a, s3) \<Rightarrow> (a, s3)
      | (None, s3) \<Rightarrow> (Answer 200 (Batch objs missing), s3)))))"
    (is "honest c _ s ?out") if rk: "reveal_known reveal" for oids reveal
  proof -
    obtain x1 s1 where g: "on_vault (v_GetMany V coll oids) s = (x1, s1)" by (metis surj_pair)
    from GetMany [OF assms(2) on_vaultD [OF g]] have k1: "kept s s1" by (simp add: kept_def)
    show ?thesis
    proof (cases x1)
      case (Inl e)
      with g honest_internalError [OF k1] show ?thesis by simp
    next
      case (Inr found)
      obtain x2 s2 where al: "(if reveal = ''full'' then allow srv c (length found) s1 else (None, s1)) = (x2, s2)"
        by (metis surj_pair)
      then have k12: "kept s1 s2" by (auto dest: kept_allow split: if_splits)
      note k2 = kept_trans [OF k1 k12]
      show ?thesis
      proof (cases x2)
        case (Some a)
        with al have "honest c [coll] s1 (a, s2)" by (auto intro: honest_allow split: if_splits)
        with g Inr al Some honest_after [OF k1] show ?thesis by simp
      next
        case None
        show ?thesis
        proof (cases "reveal_each srv coll reveal found oids ([], [], [], [])")
          case (Inl e)
          with g Inr al None honest_after [OF k2 honest_refused(2)] honest_internalError [OF k2]
          show ?thesis by (cases e) simp_all
        next
          case (Inr st)
          then obtain seen objs missing entries where
            l: "reveal_each srv coll reveal found oids ([], [], [], []) = Inr (seen, objs, missing, entries)"
            by (metis prod_cases4)
          have cov: "entries_cover coll objs entries"
            using reveal_each_covers [OF rk l] by (simp add: entries_cover_def)
          obtain x3 s3 where au: "auditMany srv c entries s2 = (x3, s3)" by (metis surj_pair)
          note A = auditMany_laws [OF assms(1) kept_inv [OF assms(2) k2] au]
          then have k3: "kept s s3" using k2 by (auto intro: kept_trans)
          show ?thesis
          proof (cases x3)
            case (Some a)
            with au have "honest c [coll] s (a, s3)"
              using k3 by (intro honest_refusal)
                (auto simp: auditMany_def internalError_def writeError_def split: prod.splits sum.splits)
            with g \<open>x1 = Inr found\<close> al None l au Some show ?thesis by simp
          next
            case No: None
            with A cov have "list_all (\<lambda>(i, x). recorded (at_vault s3)
                (object_entry (c_name c) (shown_action x) coll i)) objs"
              by (fastforce simp: list_all_iff entries_cover_def object_entry_def)
            with k3 have "honest c [coll] s (Answer 200 (Batch objs missing), s3)"
              by (simp add: honest_def path_collection_def)
            with g \<open>x1 = Inr found\<close> al None l au No show ?thesis by simp
          qed
        qed
      qed
    qed
  qed
  show ?thesis
    unfolding revealBatch_def assms(1) using step
    by (auto split: option.splits sum.splits prod.splits)
qed

lemma honest_subject:
  assumes "s_vault srv = V" and "inv (at_vault s)"
  shows "honest c [who] s (subject srv c who s)"
proof -
  obtain x s1 where o: "on_vault (v_Subject V who) s = (x, s1)" by (metis surj_pair)
  from Subject [OF assms(2) on_vaultD [OF o]] have k: "kept s s1" by (simp add: kept_def)
  then have "honest c [who] s (Answer 200 (Listed refs), s1)" for refs by (simp add: honest_def)
  with o assms(1) honest_internalError [OF k] show ?thesis
    by (cases x) (auto simp: subject_def split: option.splits)
qed

lemma honest_eraseSubject:
  assumes "s_vault srv = V" and "inv (at_vault s)"
  shows "honest c [who] s (eraseSubject srv c who s)"
proof -
  obtain x s1 where o: "on_vault (v_DeleteSubject V (c_name c) who) s = (x, s1)" by (metis surj_pair)
  note D = DeleteSubject [OF assms(2) on_vaultD [OF o]]
  then have k: "kept s s1" by (simp add: kept_def)
  with D have "honest c [who] s (Answer 200 (Erased refs), s1)" if "x = Inr refs" for refs
    using that by (simp add: honest_def)
  with o assms(1) honest_internalError [OF k] show ?thesis
    by (cases x) (auto simp: eraseSubject_def split: option.splits)
qed

lemma honest_search:
  assumes "s_vault srv = V" and "inv (at_vault s)"
  shows "honest c [coll] s (search srv c coll r s)"
proof (cases "require c RoleSearch")
  case (Some a)
  then show ?thesis by (simp add: search_def)
next
  case rq: None
  obtain x1 s1 where al: "allow srv c 1 s = (x1, s1)" by (metis surj_pair)
  then have k1: "kept s s1" by (rule kept_allow)
  note refused = honest_after [OF k1 honest_refused(1)] honest_after [OF k1 honest_refused(2)]
    honest_after [OF k1 honest_refused(3)] honest_after [OF k1 honest_readBody]
  have step: "honest c [coll] s
      (case on_vault (v_Search V coll index normalized after) s1 of
         (Inl e, s2) \<Rightarrow> internalError ''search'' e s2
       | (Inr ids, s2) \<Rightarrow>
      (case audit srv c ''search'' coll [] index s2 of
         (Some a, s3) \<Rightarrow> (a, s3)
       | (None, s3) \<Rightarrow>
           (Answer 200 (Page ids (if length ids = SearchPage then Some (last ids) else None)), s3)))"
    for index normalized after
  proof -
    obtain x2 s2 where o: "on_vault (v_Search V coll index normalized after) s1 = (x2, s2)"
      by (metis surj_pair)
    from Search [OF kept_inv [OF assms(2) k1] on_vaultD [OF o]] k1 have k2: "kept s s2"
      by (auto simp: kept_def intro: later_trans)
    obtain x3 s3 where au: "audit srv c ''search'' coll [] index s2 = (x3, s3)" by (metis surj_pair)
    note A = audit_laws [OF assms(1) kept_inv [OF assms(2) k2] au]
    then have k3: "kept s s3" using k2 by (auto intro: kept_trans)
    have "honest c [coll] s (a, s3)" if "x3 = Some a" for a
      using that au k3 by (intro honest_refusal)
        (auto simp: audit_def auditMany_def internalError_def writeError_def split: prod.splits sum.splits)
    moreover have "honest c [coll] s (Answer 200 (Page ids n), s3)" if "x3 = None" for ids n
      using that A k3 by (auto simp: honest_def path_collection_def search_entry_def)
    ultimately show ?thesis
      using o au honest_internalError [OF k2] by (cases x2; cases x3) auto
  qed
  show ?thesis
  proof (cases x1)
    case (Some a)
    with al rq honest_allow show ?thesis by (simp add: search_def)
  next
    case None
    with al rq refused step show ?thesis
      unfolding search_def assms(1) Let_def
      by (auto split: option.splits sum.splits list.splits prod.splits)
  qed
qed

lemma honest_handle:
  assumes "s_vault srv = V" and "inv (at_vault s)"
  shows "honest c vs s (handle srv c e vs r s)"
  using assms honest_create honest_createBatch honest_revealBatch honest_get honest_delete
    honest_search honest_subject honest_eraseSubject
  by (cases "(srv, c, e, vs, r, s)" rule: handle.cases) simp_all

end

text \<open>Which path values a request has; none when no route matches.\<close>

definition path_values :: "request \<Rightarrow> string list" where
  "path_values r = (case lookup_route routes (r_method r) (r_path r) of None \<Rightarrow> [] | Some (e, vs) \<Rightarrow> vs)"

context vault_laws begin

lemma honest_New:
  assumes "inv (at_vault s)" and "authenticate sha256 clients (r_authorization r) = (c, ok)"
  shows "honest c (path_values r) s (New sha256 allowN pick V sc clients r s)"
  using assms
  by (auto simp: New_def requireKey_def serve_mux_def path_values_def
      intro!: honest_handle split: option.splits)

text \<open>
  The accountability theorem: the answer to any request, whole and at once, is accounted for by
  entries that the authenticated client's name stands on, and the vault has only moved on.
\<close>

lemma accountable:
  assumes "inv (at_vault s)" and "New sha256 allowN pick V sc clients r s = (Answer n p, s')"
    and "substantive p"
  shows "\<exists>c \<in> set clients. authenticate sha256 clients (r_authorization r) = (c, True)
    \<and> accounted (recorded (at_vault s')) (c_name c) (path_collection (path_values r))
        (path_id (path_values r)) p"
    and "later (at_vault s) (at_vault s')"
proof -
  obtain c ok where au: "authenticate sha256 clients (r_authorization r) = (c, ok)" by (metis surj_pair)
  note h = honest_New [OF assms(1) au, of allowN pick sc]
  have ok: "ok = True"
  proof (rule ccontr)
    assume "ok \<noteq> True"
    with assms(2,3) au show False by (auto simp: New_def requireKey_def writeError_def)
  qed
  with au authenticate_matched [of sha256 clients] have "c \<in> set clients" by auto
  with h assms(2) au ok show "\<exists>c \<in> set clients. authenticate sha256 clients (r_authorization r) = (c, True)
    \<and> accounted (recorded (at_vault s')) (c_name c) (path_collection (path_values r))
        (path_id (path_values r)) p"
    by (auto simp: honest_def)
  from h assms(2) show "later (at_vault s) (at_vault s')" by (simp add: honest_def kept_def)
qed

end

end
