(* ===== verification/ApiGate.thy ===== *)
theory ApiGate
  imports ApiLaws
begin

text \<open>
  Who gets past the API's checks: the key, the role of each endpoint, and the reveal budget, for
  any vault behind it.
\<close>

section \<open>Permissions\<close>

definition batch_reveal :: "request \<Rightarrow> string" where
  "batch_reveal r =
     (case readBody r maxIDsBody of
        Inl _ \<Rightarrow> []
      | Inr body \<Rightarrow> (case unmarshal_reveal body of None \<Rightarrow> [] | Some (ids, reveal) \<Rightarrow> reveal))"

text \<open>The role each endpoint asks for.\<close>

fun required_role :: "endpoint \<Rightarrow> request \<Rightarrow> string" where
  "required_role Create r = RoleWrite"
| "required_role Create_batch r = RoleWrite"
| "required_role Reveal_batch r = revealRole (batch_reveal r)"
| "required_role Get r = revealRole (query_get r ''reveal'')"
| "required_role Delete_object r = RoleDelete"
| "required_role Search_in r = RoleSearch"
| "required_role Subject_of r = RoleReadMasked"
| "required_role Erase_subject r = RoleDelete"

definition admitted ::
  "(bytes \<Rightarrow> bytes) \<Rightarrow> client list \<Rightarrow> request \<Rightarrow> client \<Rightarrow> endpoint \<Rightarrow> string list \<Rightarrow> bool" where
  "admitted sha256 clients r c e vs \<longleftrightarrow>
     authenticate sha256 clients (r_authorization r) = (c, True)
     \<and> lookup_route routes (r_method r) (r_path r) = Some (e, vs)
     \<and> has c (required_role e r)"

definition turned_away :: "('v, 'l) site \<Rightarrow> answer \<times> ('v, 'l) site \<Rightarrow> bool" where
  "turned_away s out \<longleftrightarrow> (\<exists>n p. out = (Answer n p, s) \<and> \<not> substantive p)"

lemma turned_away_error [simp]: "turned_away s (writeError n m, s)"
  by (simp add: turned_away_def writeError_def)

lemma turned_away_require: "\<not> has c role \<Longrightarrow> \<exists>a. require c role = Some a \<and> turned_away s (a, s)"
  by (simp add: require_def)

lemma turned_away_readBody: "readBody r n = Inl a \<Longrightarrow> turned_away s (a, s)"
  by (auto simp: readBody_def split: upload.splits if_splits)

lemma denied_writes:
  "\<not> has c RoleWrite \<Longrightarrow> turned_away s (create srv c coll r s)"
  "\<not> has c RoleWrite \<Longrightarrow> turned_away s (createBatch srv c coll r s)"
  "\<not> has c RoleDelete \<Longrightarrow> turned_away s (delete srv c coll oid s)"
  by (simp_all add: create_def createBatch_def delete_def require_def)

lemma denied_reads:
  "\<not> has c RoleSearch \<Longrightarrow> turned_away s (search srv c coll r s)"
  "\<not> has c RoleReadMasked \<Longrightarrow> turned_away s (subject srv c who s)"
  "\<not> has c RoleDelete \<Longrightarrow> turned_away s (eraseSubject srv c who s)"
  "\<not> has c (revealRole (query_get r ''reveal'')) \<Longrightarrow> turned_away s (get srv c coll oid r s)"
  by (simp_all add: search_def subject_def eraseSubject_def get_def require_def Let_def)

lemma denied_revealBatch:
  assumes "\<not> has c (revealRole (batch_reveal r))"
  shows "turned_away s (revealBatch srv c coll r s)"
proof (cases "readBody r maxIDsBody")
  case (Inl a)
  then show ?thesis using turned_away_readBody [OF Inl] by (simp add: revealBatch_def)
next
  case (Inr body)
  with assms have "\<not> has c (revealRole (case unmarshal_reveal body of None \<Rightarrow> [] | Some (ids, reveal) \<Rightarrow> reveal))"
    by (simp add: batch_reveal_def)
  with Inr show ?thesis
    by (cases "unmarshal_reveal body") (auto simp: revealBatch_def require_def)
qed

lemma handle_denied:
  assumes "\<not> has c (required_role e r)"
  shows "turned_away s (handle srv c e vs r s)"
  using assms denied_writes denied_reads denied_revealBatch
  by (cases "(srv, c, e, vs, r, s)" rule: handle.cases) simp_all

lemma New_denied:
  assumes "\<nexists>c e vs. admitted sha256 clients r c e vs"
  shows "turned_away s (New sha256 allowN pick V sc clients r s)"
proof -
  obtain c ok where au: "authenticate sha256 clients (r_authorization r) = (c, ok)" by (metis surj_pair)
  show ?thesis
  proof (cases "ok \<and> lookup_route routes (r_method r) (r_path r) \<noteq> None")
    case True
    then obtain e vs where l: "lookup_route routes (r_method r) (r_path r) = Some (e, vs)" by auto
    with assms au True have "\<not> has c (required_role e r)" by (auto simp: admitted_def)
    with au True l show ?thesis by (simp add: New_def requireKey_def serve_mux_def handle_denied)
  next
    case False
    with au show ?thesis by (auto simp: New_def requireKey_def serve_mux_def split: option.splits)
  qed
qed

section \<open>Plaintext\<close>

fun raw_count :: "payload \<Rightarrow> nat" where
  "raw_count (Shown (Raw p)) = 1"
| "raw_count (Batch objs missing) = length (filter (\<lambda>(i, x). \<exists>p. x = Raw p) objs)"
| "raw_count _ = 0"

lemma raw_count_refusal [simp]: "\<not> substantive p \<Longrightarrow> raw_count p = 0"
  by (cases p) simp_all

text \<open>
  A spent budget: the limiter of the client, asked for at least \<open>n\<close> units of the budget \<open>b\<close>, granted
  them and left \<open>b'\<close>.
\<close>

definition granted :: "('v, 'l) server \<Rightarrow> client \<Rightarrow> nat \<Rightarrow> 'l \<Rightarrow> 'l \<Rightarrow> bool" where
  "granted srv c n b b' \<longleftrightarrow>
     (case map_of (s_limiters srv) (c_name c) of
        None \<Rightarrow> True
      | Some l \<Rightarrow> \<exists>k. n \<le> k \<and> s_allowN srv (c_name c) l k b = (True, b'))"

lemma allow_granted:
  "allow srv c k s = (None, s') \<Longrightarrow> n \<le> k \<Longrightarrow> granted srv c n (at_budget s) (at_budget s')"
  by (auto simp: allow_def granted_def split: option.splits prod.splits if_splits)

text \<open>Nothing else a handler calls touches a budget.\<close>

lemma keeps_budget:
  "on_vault f s = (r, s') \<Longrightarrow> at_budget s' = at_budget s"
  "auditMany srv c es s = (a, s') \<Longrightarrow> at_budget s' = at_budget s"
  "audit srv c x y z v s = (a, s') \<Longrightarrow> at_budget s' = at_budget s"
  by (auto simp: on_vault_def auditMany_def audit_def internalError_def split: prod.splits sum.splits)

lemma render_masked [simp]: "render srv coll p False \<noteq> Inr (Raw x)"
  by (auto simp: render_def split: option.splits sum.splits)

lemma reveal_each_keys:
  assumes "reveal_each srv coll reveal found oids (seen, objs, missing, entries) = Inr (seen', objs', missing', entries')"
    and "distinct (map fst objs)" and "fst ` set objs \<subseteq> fst ` set found"
    and "\<forall>(i, x) \<in> set objs. (\<exists>p. x = Raw p) \<longrightarrow> reveal = ''full''"
  shows "distinct (map fst objs') \<and> fst ` set objs' \<subseteq> fst ` set found
    \<and> (\<forall>(i, x) \<in> set objs'. (\<exists>p. x = Raw p) \<longrightarrow> reveal = ''full'')"
  using assms
proof (induction srv coll reveal found oids "(seen, objs, missing, entries)" arbitrary: seen objs missing entries
    rule: reveal_each.induct)
  case (2 srv coll reveal found oid oids seen objs missing entries)
  show ?case
  proof (cases "oid \<in> set seen")
    case True
    with 2 show ?thesis by simp
  next
    case new: False
    show ?thesis
    proof (cases "map_of found oid")
      case None
      with 2 new show ?thesis by simp
    next
      case (Some plaintext)
      with 2(4) new obtain x where x: "render srv coll plaintext (reveal = ''full'') = Inr x"
        by (auto split: sum.splits)
      have "fst ` set (AList.update oid x objs) \<subseteq> fst ` set found"
        using 2(6) Some by (auto simp: dom_update dest!: map_of_SomeD update_member; force)
      moreover have "\<forall>(i, y) \<in> set (AList.update oid x objs). (\<exists>p. y = Raw p) \<longrightarrow> reveal = ''full''"
        using 2(7) x by (cases "reveal = ''full''") (auto dest!: update_member)
      ultimately show ?thesis
        using 2(3) [OF new Some x] 2(4) new Some x 2(5) by (simp add: distinct_update)
    qed
  qed
qed simp

text \<open>What an answer would have to show for: nothing, or the role and the budget.\<close>

definition covered :: "('v, 'l) server \<Rightarrow> client \<Rightarrow> ('v, 'l) site \<Rightarrow> answer \<times> ('v, 'l) site \<Rightarrow> bool" where
  "covered srv c s out \<longleftrightarrow>
     (\<forall>n p. fst out = Answer n p \<longrightarrow> raw_count p \<noteq> 0 \<longrightarrow>
        has c RoleReadFull \<and> granted srv c (raw_count p) (at_budget s) (at_budget (snd out)))"

lemma covered_simps [simp]:
  "covered srv c s (Dropped, t)" "covered srv c s (writeError n m, t)" "covered srv c s (Answer n (Refusal i e), t)"
  "covered srv c s (Answer n (Created_id x), t)" "covered srv c s (Answer n (Created_ids xs), t)"
  "covered srv c s (Answer n Empty, t)" "covered srv c s (Answer n (Listed rs), t)"
  "covered srv c s (Answer n (Erased rs), t)" "covered srv c s (Answer n (Page xs nx), t)"
  "covered srv c s (internalError op err t)"
  by (simp_all add: covered_def writeError_def internalError_def)

lemma covered_require: "require c role = Some a \<Longrightarrow> covered srv c' s (a, t)"
  by (auto simp: require_def split: if_splits)

lemma covered_readBody: "readBody r n = Inl a \<Longrightarrow> covered srv c s (a, t)"
  by (auto simp: readBody_def split: upload.splits if_splits)

lemma covered_allow: "allow srv c n s1 = (Some a, s2) \<Longrightarrow> covered srv c s (a, t)"
  by (auto simp: allow_def split: option.splits prod.splits if_splits)

lemma covered_auditMany: "auditMany srv c es s1 = (Some a, s2) \<Longrightarrow> covered srv c s (a, t)"
  by (auto simp: auditMany_def internalError_def split: prod.splits sum.splits)

lemma covered_audit: "audit srv c x y z v s1 = (Some a, s2) \<Longrightarrow> covered srv c s (a, t)"
  unfolding audit_def by (rule covered_auditMany)

lemmas covered_answers = covered_require covered_readBody covered_allow covered_auditMany covered_audit

lemma covered_refuse [simp]: "covered srv c s (refuse i e, t)"
  by (simp add: refuse_def)

lemma covered_writes:
  "covered srv c s (create srv c coll r s)"
  "covered srv c s (createBatch srv c coll r s)"
  "covered srv c s (delete srv c coll oid s)"
  by (simp_all add: create_def createBatch_def delete_def Let_def
      split: option.split sum.split prod.split list.split)
    (auto intro: covered_answers)

lemma covered_searches:
  "covered srv c s (search srv c coll r s)"
  "covered srv c s (subject srv c who s)"
  "covered srv c s (eraseSubject srv c who s)"
  by (simp_all add: search_def subject_def eraseSubject_def Let_def
      split: option.split sum.split prod.split list.split)
    (auto intro: covered_answers)

lemma revealRole_full: "require c (revealRole ''full'') = None \<Longrightarrow> has c RoleReadFull"
  by (simp add: require_def revealRole_def split: if_splits)

lemma covered_shown:
  assumes "require c (revealRole ''full'') = None" and "allow srv c n s = (None, s1)"
    and "on_vault f s1 = (found, s2)" and "audit srv c x y z v s2 = (a, s3)" and "1 \<le> n"
  shows "covered srv c s (Answer 200 (Shown (Raw p)), s3)"
  using revealRole_full [OF assms(1)] allow_granted [OF assms(2,5)] keeps_budget(1) [OF assms(3)]
    keeps_budget(3) [OF assms(4)] by (simp add: covered_def)

lemma covered_get: "covered srv c s (get srv c coll oid r s)"
proof (cases "query_get r ''reveal'' = ''full''")
  case True
  then show ?thesis
    by (simp add: get_def Let_def split: option.split sum.split prod.split)
      (auto intro: covered_answers covered_shown)
next
  case False
  have "covered srv c s (Answer 200 (Shown x), t)" if "render srv coll p False = Inr x" for p x t
    using that by (cases x) (simp_all add: covered_def)
  with False show ?thesis
    by (simp add: get_def Let_def split: option.split sum.split prod.split render_error.split)
      (auto intro: covered_answers)
qed

lemma covered_batch:
  assumes "require c (revealRole reveal) = None" and "on_vault f s = (Inr found, s1)"
    and "(if reveal = ''full'' then allow srv c (length found) s1 else (None, s1)) = (None, s2)"
    and "reveal_each srv coll reveal found oids ([], [], [], []) = Inr (seen, objs, missing, entries)"
    and "auditMany srv c es s2 = (a, s3)"
  shows "covered srv c s (Answer 200 (Batch objs missing), s3)"
proof -
  note k = reveal_each_keys [OF assms(4)]
  show ?thesis
  proof (cases "reveal = ''full''")
    case True
    have "length (filter (\<lambda>(i, x). \<exists>p. x = Raw p) objs) \<le> length objs" by simp
    also have "\<dots> = card (fst ` set objs)" using k by (simp add: distinct_card flip: set_map)
    also have "\<dots> \<le> card (fst ` set found)" using k by (intro card_mono) auto
    also have "\<dots> \<le> length found" by (metis card_image_le card_length le_trans finite_set)
    finally have le: "length (filter (\<lambda>(i, x). \<exists>p. x = Raw p) objs) \<le> length found" .
    have "allow srv c (length found) s1 = (None, s2)" using assms(3) True by simp
    from allow_granted [OF this le] keeps_budget(1) [OF assms(2)] keeps_budget(2) [OF assms(5)]
      True revealRole_full assms(1) show ?thesis by (auto simp: covered_def)
  next
    case False
    with k have "filter (\<lambda>(i, x). \<exists>p. x = Raw p) objs = []" by (auto simp: filter_empty_conv)
    then show ?thesis by (simp add: covered_def)
  qed
qed

lemma covered_revealBatch: "covered srv c s (revealBatch srv c coll r s)"
  by (simp add: revealBatch_def split: option.split sum.split prod.split render_error.split)
    (auto intro: covered_answers covered_batch)

lemma covered_handle: "covered srv c s (handle srv c e vs r s)"
  using covered_writes [of srv c s] covered_searches [of srv c s] covered_get [of srv c s] covered_revealBatch [of srv c s]
  by (cases "(srv, c, e, vs, r, s)" rule: handle.cases) simp_all

section \<open>No handler panics\<close>

definition sound_schema :: "('v, 'l) server \<Rightarrow> bool" where
  "sound_schema srv \<longleftrightarrow> schema_ok (s_schema srv) \<and> maps_ok (s_schema srv)"

lemma parseObject_no_panic:
  assumes "sound_schema srv"
  shows "parseObject srv coll raw \<noteq> Inl (Refused Nil_call)"
proof -
  have "\<exists>m. Indexed (s_range srv) (s_schema srv) coll obj = Inr m" for obj
    using assms Indexed_no_panic by (auto simp: sound_schema_def)
  moreover have "Validate (s_range srv) (s_schema srv) coll obj \<noteq> Inl Nil_call" for obj
    using assms Validate_no_panic by (auto simp: sound_schema_def)
  moreover have "take_subject obj \<noteq> Inl (Refused e)" for obj e
    by (simp add: take_subject_def split: option.split)
  ultimately show ?thesis
    by (auto simp: parseObject_def split: option.splits sum.splits if_splits prod.splits)
       (metis sum.distinct(1))+
qed

lemma parse_batch_no_panic:
  assumes "sound_schema srv"
  shows "parse_batch srv coll i raws \<noteq> Inl (j, Refused Nil_call)"
  using parseObject_no_panic [OF assms, of coll]
  by (induction raws arbitrary: i) (auto split: sum.split)

lemma render_no_panic:
  assumes "sound_schema srv"
  shows "render srv coll p full \<noteq> Inl Render_panic"
proof -
  have "\<exists>m. Mask (s_schema srv) coll obj = Inr m" for obj
    using assms Mask_no_panic by (auto simp: sound_schema_def)
  then show ?thesis by (auto simp: render_def split: option.split sum.split) (metis sum.distinct(1))+
qed

lemma reveal_each_no_panic:
  assumes "sound_schema srv"
  shows "reveal_each srv coll reveal found oids st \<noteq> Inl Render_panic"
  using assms
  by (induction srv coll reveal found oids st rule: reveal_each.induct)
    (auto simp: render_no_panic split: option.split sum.split)

definition answers :: "answer \<times> ('v, 'l) site \<Rightarrow> bool" where
  "answers out \<longleftrightarrow> fst out \<noteq> Dropped"

lemma answers_simps [simp]:
  "answers (Answer n p, s)" "answers (writeError n m, s)" "answers (internalError op err s)"
  by (simp_all add: answers_def writeError_def internalError_def)

lemma answers_refuse [simp]: "answers (refuse i e, s) \<longleftrightarrow> e \<noteq> Refused Nil_call"
  by (simp add: answers_def refuse_def)

lemma answers_early:
  "require c role = Some a \<Longrightarrow> answers (a, s)" "readBody r n = Inl a \<Longrightarrow> answers (a, s)"
  "allow srv c n s1 = (Some a, s2) \<Longrightarrow> answers (a, s)"
  "auditMany srv c es s1 = (Some a, s2) \<Longrightarrow> answers (a, s)"
  "audit srv c x y z v s1 = (Some a, s2) \<Longrightarrow> answers (a, s)"
  by (auto simp: answers_def require_def readBody_def allow_def audit_def auditMany_def
      writeError_def internalError_def split: if_splits upload.splits option.splits prod.splits sum.splits)

lemma answers_createBatch: "sound_schema srv \<Longrightarrow> answers (createBatch srv c coll r s)"
  by (simp add: createBatch_def Let_def split: option.split sum.split prod.split)
    (auto intro: answers_early dest: parse_batch_no_panic)

lemma answers_delete: "answers (delete srv c coll oid s)"
  by (simp add: delete_def split: option.split sum.split prod.split) (auto intro: answers_early)

lemma answers_get:
  assumes "sound_schema srv"
  shows "answers (get srv c coll oid r s)"
proof -
  have panic: "answers (case e of Render_panic \<Rightarrow> (Dropped, s1) | Not_an_object \<Rightarrow> internalError op err s1)"
    if "render srv coll p False = Inl e" for p e op err s1
    using render_no_panic [OF assms, of coll p False] that by (cases e) simp_all
  show ?thesis
  proof (cases "query_get r ''reveal'' = ''full''")
    case True
    then show ?thesis
      by (simp add: get_def Let_def split: option.split sum.split prod.split)
        (auto intro: answers_early)
  next
    case False
    then show ?thesis
      by (simp add: get_def Let_def split: option.split sum.split prod.split)
        (auto intro: answers_early panic)
  qed
qed

lemma answers_revealBatch:
  assumes "sound_schema srv"
  shows "answers (revealBatch srv c coll r s)"
proof -
  have panic: "answers (case e of Render_panic \<Rightarrow> (Dropped, s1) | Not_an_object \<Rightarrow> internalError op err s1)"
    if "reveal_each srv coll reveal found oids st = Inl e" for reveal found oids st e op err s1
    using reveal_each_no_panic [OF assms, of coll reveal found oids st] that by (cases e) simp_all
  show ?thesis
    by (simp add: revealBatch_def split: option.split sum.split prod.split)
      (auto intro: answers_early panic)
qed

lemma answers_search: "sound_schema srv \<Longrightarrow> answers (search srv c coll r s)"
  using Normalize_no_panic [of "s_schema srv" coll]
  by (simp add: search_def Let_def sound_schema_def split: option.split sum.split prod.split list.split)
    (auto intro: answers_early)

lemma answers_subjects: "answers (subject srv c who s)" "answers (eraseSubject srv c who s)"
  by (simp_all add: subject_def eraseSubject_def split: option.split sum.split prod.split)
    (auto intro: answers_early)

context vault_laws begin

lemma create_answers:
  assumes "s_vault srv = V" and "inv (at_vault s)" and "sound_schema srv"
  shows "answers (create srv c coll r s)"
proof -
  have "ids \<noteq> []" if "on_vault (v_PutMany V (c_name c) coll [it]) s = (Inr ids, s1)" for it ids s1
    using PutMany [OF assms(2) on_vaultD [OF that]] by auto
  then show ?thesis
    using parseObject_no_panic [OF assms(3), of coll]
    by (simp add: create_def assms(1) split: option.split sum.split prod.split list.split)
      (auto intro: answers_early)
qed

lemma handle_answers:
  assumes "s_vault srv = V" and "inv (at_vault s)" and "sound_schema srv"
  shows "answers (handle srv c e vs r s)"
  using create_answers [OF assms] answers_createBatch answers_delete answers_get answers_revealBatch
    answers_search answers_subjects assms(3)
  by (cases "(srv, c, e, vs, r, s)" rule: handle.cases) simp_all

lemma New_answers:
  assumes "inv (at_vault s)" and "maps_ok sc \<and> schema_ok sc"
  shows "answers (New sha256 allowN pick V sc clients r s)"
  using assms
  by (auto simp: New_def requireKey_def serve_mux_def sound_schema_def intro!: handle_answers
      split: option.split prod.split)

end

end
