(* ===== verification/Maintenance.thy ===== *)
theory Maintenance
  imports Store
begin

text \<open>
  The long-running operations of the store: \<open>Reindex\<close> and \<open>Rotate\<close>, which walk the objects in
  pages while the servers keep serving, and opening the store with its blind-index key.

  The page loops run until a page comes back empty. With other processes adding rows behind the
  cursor that need not happen, so the loops carry fuel; \<open>None\<close> is "still running".
\<close>

section \<open>Reindex\<close>

definition rewrite_in_tx ::
  "crypto \<Rightarrow> 'k store \<Rightarrow> string \<Rightarrow> string \<Rightarrow> string \<Rightarrow> string gomap \<Rightarrow> 'k tx
   \<Rightarrow> audit_entry option result \<times> 'k tx" where
  "rewrite_in_tx C st actor collection oid values s0 =
     (case tx_exec (sql_is_live oid) s0 of
        (Inl e, s1) \<Rightarrow> (Inl e, s1)
      | (Inr live, s1) \<Rightarrow>
          if \<not> live then (Inr None, s1)
          else
     (case tx_exec (sql_delete_index collection oid) s1 of
        (Inl e, s2) \<Rightarrow> (Inl e, s2)
      | (Inr _, s2) \<Rightarrow>
     (case try_each (insert_index_value C st collection oid)
             (range_over (ranges (w_host (snd s2))) values) s2 of
        (Inl e, s3) \<Rightarrow> (Inl e, s3)
      | (Inr _, s3) \<Rightarrow>
     (let entry = object_entry actor ''reindex'' collection oid in
     (case audit_in_tx entry s3 of
        (Inl e, s4) \<Rightarrow> (Inl e, s4)
      | (Inr _, s4) \<Rightarrow> (Inr (Some entry), s4))))))"

definition rewriteIndex ::
  "crypto \<Rightarrow> 'k store \<Rightarrow> string \<Rightarrow> string \<Rightarrow> string \<Rightarrow> string gomap \<Rightarrow> 'k world
   \<Rightarrow> unit result \<times> 'k world" where
  "rewriteIndex C st actor collection oid values w =
     (case in_tx_opt (rewrite_in_tx C st actor collection oid values) w of
        (Inl e, w1) \<Rightarrow> (Inl e, w1)
      | (Inr None, w1) \<Rightarrow> (Inr (), w1)
      | (Inr (Some entry), w1) \<Rightarrow> (Inr (), emit st [entry] w1))"

text \<open>Counts of done and skipped rows, and the error that ended the run, if one did.\<close>

type_synonym progress = "(nat \<times> nat) \<times> goerr option"

definition skippable :: "goerr \<Rightarrow> bool" where
  "skippable e \<longleftrightarrow> errors_is e ErrOpen \<or> errors_is e ErrUnknownKey"

definition reindex_row ::
  "crypto \<Rightarrow> 'k store \<Rightarrow> string \<Rightarrow> (string \<Rightarrow> bytes \<Rightarrow> string gomap result) \<Rightarrow> object_row
   \<Rightarrow> nat \<times> nat \<Rightarrow> 'k world \<Rightarrow> progress \<times> 'k world" where
  "reindex_row C st actor indexed r ds w =
     (case ds of (done, skipped) \<Rightarrow>
     (case on_host (Open C (st_env st) (sealed_of r) (aad (o_collection r) (o_id r))) w of
        (Inl e, w1) \<Rightarrow>
          if skippable e then (((done, Suc skipped), None), w1)
          else (((done, skipped), Some (ErrWrap (''object '' @ o_id r) e)), w1)
      | (Inr plaintext, w1) \<Rightarrow>
     (case indexed (o_collection r) plaintext of
        Inl e \<Rightarrow> (((done, Suc skipped), None), w1)
      | Inr values \<Rightarrow>
     (case rewriteIndex C st actor (o_collection r) (o_id r) values w1 of
        (Inl e, w2) \<Rightarrow> (((done, skipped), Some e), w2)
      | (Inr _, w2) \<Rightarrow> (((Suc done, skipped), None), w2)))))"

text \<open>The rows of a page, in order, up to the first error.\<close>

fun each_row ::
  "(object_row \<Rightarrow> nat \<times> nat \<Rightarrow> 'k world \<Rightarrow> progress \<times> 'k world) \<Rightarrow> object_row list
   \<Rightarrow> nat \<times> nat \<Rightarrow> 'k world \<Rightarrow> progress \<times> 'k world" where
  "each_row f [] ds w = ((ds, None), w)"
| "each_row f (r # rs) ds w =
     (case f r ds w of
        ((ds1, Some e), w1) \<Rightarrow> ((ds1, Some e), w1)
      | ((ds1, None), w1) \<Rightarrow> each_row f rs ds1 w1)"

definition page_size :: nat where "page_size = 500"

fun page_loop ::
  "nat \<Rightarrow> (string \<Rightarrow> object_row \<Rightarrow> bool) \<Rightarrow> (object_row \<Rightarrow> nat \<times> nat \<Rightarrow> 'k world \<Rightarrow> progress \<times> 'k world)
   \<Rightarrow> string \<Rightarrow> nat \<times> nat \<Rightarrow> 'k world \<Rightarrow> progress option \<times> 'k world" where
  "page_loop 0 sel f cursor ds w = (None, w)"
| "page_loop (Suc n) sel f cursor ds w =
     (case pool_exec (sql_select_page (sel cursor) page_size) w of
        (Inl e, w1) \<Rightarrow> (Some (ds, Some e), w1)
      | (Inr page, w1) \<Rightarrow>
          if page = [] then (Some (ds, None), w1)
          else (case each_row f page ds w1 of
                  ((ds1, Some e), w2) \<Rightarrow> (Some (ds1, Some e), w2)
                | ((ds1, None), w2) \<Rightarrow> page_loop n sel f (o_id (last page)) ds1 w2))"

definition reindex_sel :: "string \<Rightarrow> string \<Rightarrow> object_row \<Rightarrow> bool" where
  "reindex_sel collection cursor r \<longleftrightarrow>
     \<not> o_deleted r \<and> (o_collection r = collection \<or> collection = []) \<and> o_id r > cursor"

definition Reindex ::
  "nat \<Rightarrow> crypto \<Rightarrow> 'k store \<Rightarrow> string \<Rightarrow> string \<Rightarrow> (string \<Rightarrow> bytes \<Rightarrow> string gomap result) \<Rightarrow> 'k world
   \<Rightarrow> progress option \<times> 'k world" where
  "Reindex fuel C st actor collection indexed w =
     page_loop fuel (reindex_sel collection) (reindex_row C st actor indexed) [] (0, 0) w"

section \<open>Rotate\<close>

definition rotate_row ::
  "'k store \<Rightarrow> object_row \<Rightarrow> nat \<times> nat \<Rightarrow> 'k world \<Rightarrow> progress \<times> 'k world" where
  "rotate_row st r ds w =
     (case ds of (rotated, skipped) \<Rightarrow>
     (case on_host (Rewrap (st_env st)
              \<lparr>s_key_id = o_key_id r, s_wrapped = nil_if_null (o_wrapped r), s_ciphertext = []\<rparr>
              (aad (o_collection r) (o_id r))) w of
        (Inl e, w1) \<Rightarrow>
          if skippable e then (((rotated, Suc skipped), None), w1)
          else (((rotated, skipped), Some (ErrWrap (''object '' @ o_id r) e)), w1)
      | (Inr (re, changed), w1) \<Rightarrow>
          if \<not> changed then (((rotated, skipped), None), w1)
          else
     (case pool_exec (sql_rewrap_object (o_id r) (o_key_id r) (s_key_id re) (s_wrapped re)) w1 of
        (Inl e, w2) \<Rightarrow> (((rotated, skipped), Some e), w2)
      | (Inr n, w2) \<Rightarrow> (((rotated + n, skipped), None), w2))))"

definition rotate_sel :: "string \<Rightarrow> bool \<Rightarrow> string \<Rightarrow> object_row \<Rightarrow> bool" where
  "rotate_sel current inPlace cursor r \<longleftrightarrow>
     \<not> o_deleted r \<and> (o_key_id r \<noteq> current \<or> inPlace) \<and> o_id r > cursor"

definition sealed_key :: "key_row \<Rightarrow> sealed" where
  "sealed_key k = \<lparr>s_key_id = k_key_id k, s_wrapped = k_wrapped k, s_ciphertext = k_ciphertext k\<rparr>"

definition rotate_index_key :: "'k store \<Rightarrow> 'k world \<Rightarrow> nat result \<times> 'k world" where
  "rotate_index_key st w =
     (case pool_exec (sql_select_key indexKeyName) w of
        (Inl e, w1) \<Rightarrow> (Inl e, w1)
      | (Inr k, w1) \<Rightarrow>
     (case on_host (Rewrap (st_env st) (sealed_key k) indexKeyAAD) w1 of
        (Inl e, w2) \<Rightarrow> (Inl (ErrWrap ''blind-index key'' e), w2)
      | (Inr (re, changed), w2) \<Rightarrow>
          if \<not> changed then (Inr 0, w2)
          else pool_exec (sql_update_key indexKeyName (k_key_id k) (s_key_id re) (s_wrapped re)) w2))"

definition Rotate :: "nat \<Rightarrow> 'k store \<Rightarrow> 'k world \<Rightarrow> progress option \<times> 'k world" where
  "Rotate fuel st w =
     (case rotate_index_key st w of
        (Inl e, w1) \<Rightarrow> (Some ((0, 0), Some e), w1)
      | (Inr n, w1) \<Rightarrow>
          page_loop fuel (rotate_sel (CurrentKeyID (st_env st)) (RewrapsInPlace (st_env st)))
            (rotate_row st) [] (n, 0) w1)"

section \<open>Opening the store\<close>

definition loadIndexKey ::
  "crypto \<Rightarrow> 'k host envelope \<Rightarrow> 'k world \<Rightarrow> blind_key result \<times> 'k world" where
  "loadIndexKey C env w =
     (case on_host (rand_read KeySize) w of (candidate, w0) \<Rightarrow>
     (case on_host (Seal C env candidate indexKeyAAD) w0 of
        (Inl e, w1) \<Rightarrow> (Inl e, w1)
      | (Inr s, w1) \<Rightarrow>
     (case pool_exec (sql_insert_key
             \<lparr>k_name = indexKeyName, k_key_id = s_key_id s, k_wrapped = s_wrapped s,
              k_ciphertext = s_ciphertext s\<rparr>) w1 of
        (Inl e, w2) \<Rightarrow> (Inl e, w2)
      | (Inr _, w2) \<Rightarrow>
     (case pool_exec (sql_select_key indexKeyName) w2 of
        (Inl e, w3) \<Rightarrow> (Inl e, w3)
      | (Inr k, w3) \<Rightarrow>
     (case on_host (Open C env (sealed_key k) indexKeyAAD) w3 of
        (Inl e, w4) \<Rightarrow> (Inl (ErrWrap (''wrapped by key '' @ k_key_id k) e), w4)
      | (Inr key, w4) \<Rightarrow> (NewIndex key, w4))))))"

text \<open>
  \<open>schemaCurrent\<close>: what the query for the applied version gave, against the number of embedded
  migrations. Migrating is goose's work and comes in as the function \<open>migrate_up\<close>.
\<close>

definition schemaCurrent :: "nat \<Rightarrow> nat result \<Rightarrow> unit result" where
  "schemaCurrent files queried =
     (case queried of
        Inl e \<Rightarrow> Inl (ErrWrap ''reading goose_db_version (run sealbox migrate first)'' e)
      | Inr v \<Rightarrow> if v \<noteq> files
                 then Inl (ErrMsg (''schema is at version '' @ decimal v @ '', this binary needs ''
                        @ decimal files @ '': run sealbox migrate with the owner role''))
                 else Inr ())"

definition OpenStore ::
  "crypto \<Rightarrow> ('k world \<Rightarrow> unit result \<times> 'k world) \<Rightarrow> ('k world \<Rightarrow> nat result \<times> 'k world) \<Rightarrow> nat
   \<Rightarrow> 'k host envelope \<Rightarrow> bool \<Rightarrow> 'k world \<Rightarrow> 'k store result \<times> 'k world" where
  "OpenStore C migrate_up query_version files env migrate w =
     (case (if migrate then migrate_up w
            else (case query_version w of (q, w1) \<Rightarrow> (schemaCurrent files q, w1))) of
        (Inl e, w1) \<Rightarrow> (Inl (ErrWrap ''store: migrate'' e), w1)
      | (Inr _, w1) \<Rightarrow>
          (case loadIndexKey C env w1 of
             (Inl e, w2) \<Rightarrow> (Inl (ErrWrap ''store: blind-index key'' e), w2)
           | (Inr ix, w2) \<Rightarrow> (Inr \<lparr>st_env = env, st_index = ix, st_audit_to = False\<rparr>, w2)))"

end
