(* ===== verification/StoreLaws.thy ===== *)
theory StoreLaws
  imports Maintenance
begin

text \<open>
  How the database may change. \<open>lawful\<close> is the relation every operation of the store keeps
  between the database before and after it: rows never disappear, what is shredded stays
  shredded, ciphertext is never touched, the audit log only grows, and the invariants \<open>db_ok\<close>
  and \<open>audited\<close> are preserved. It is both what the store relies on from the other servers and
  what it guarantees to them, so it holds along any interleaving.
\<close>

section \<open>Rely and guarantee\<close>

definition frame :: "'k world \<Rightarrow> 'k world \<Rightarrow> bool" where
  "frame w w' \<longleftrightarrow> w_db w' = w_db w \<and> w_rivals w' = w_rivals w"

lemma frame_refl [simp]: "frame w w"
  by (simp add: frame_def)

lemma frame_trans [trans]: "frame w w1 \<Longrightarrow> frame w1 w2 \<Longrightarrow> frame w w2"
  by (simp add: frame_def)

lemma on_host_frame: "on_host f w = (r, w') \<Longrightarrow> frame w w'"
  by (auto simp: on_host_def frame_def split: prod.splits)

lemma tick_frame: "tick w = (sky, w') \<Longrightarrow> frame w w'"
  by (auto simp: tick_def frame_def)

lemma tx_exec_frame: "tx_exec q s = (r, s') \<Longrightarrow> frame (snd s) (snd s')"
  by (auto simp: tx_exec_def dest: tick_frame split: prod.splits if_splits sum.splits)

lemma tx_host_frame: "tx_host f s = (r, s') \<Longrightarrow> frame (snd s) (snd s') \<and> fst s' = fst s"
  by (auto simp: tx_host_def dest: on_host_frame split: prod.splits)

lemma tx_exec_ok: "tx_exec q s = (Inr x, s') \<Longrightarrow> q (fst s) = Inr (x, fst s')"
  by (auto simp: tx_exec_def split: prod.splits if_splits sum.splits)

lemma try_each_frame:
  assumes "\<And>x s r s'. f x s = (r, s') \<Longrightarrow> frame (snd s) (snd s')"
    and "try_each f xs s = (r, s')"
  shows "frame (snd s) (snd s')"
  using assms(2)
proof (induction xs arbitrary: s r s')
  case (Cons x xs)
  obtain r1 s1 where f: "f x s = (r1, s1)" by (cases "f x s")
  then have fr: "frame (snd s) (snd s1)" by (rule assms(1))
  show ?case
  proof (cases r1)
    case (Inl e)
    with f Cons.prems fr show ?thesis by auto
  next
    case (Inr y)
    obtain r2 s2 where t: "try_each f xs s1 = (r2, s2)" by (cases "try_each f xs s1")
    with Cons.IH have "frame (snd s1) (snd s2)" by blast
    with fr have "frame (snd s) (snd s2)" by (rule frame_trans)
    with f Inr t Cons.prems show ?thesis by (cases r2) auto
  qed
qed simp

locale rely_guarantee =
  fixes R :: "db \<Rightarrow> db \<Rightarrow> bool"
  assumes refl: "R d d" and trans: "R d1 d2 \<Longrightarrow> R d2 d3 \<Longrightarrow> R d1 d3"
begin

definition rely :: "'k world \<Rightarrow> bool" where
  "rely w \<longleftrightarrow> (\<forall>n d. R d (w_rivals w n d))"

definition guar :: "'k world \<Rightarrow> 'k world \<Rightarrow> bool" where
  "guar w w' \<longleftrightarrow> R (w_db w) (w_db w') \<and> w_rivals w' = w_rivals w"

definition stmt_ok :: "(db \<Rightarrow> bool) \<Rightarrow> 'a stmt \<Rightarrow> bool" where
  "stmt_ok P q \<longleftrightarrow> (\<forall>d x d'. P d \<longrightarrow> q d = Inr (x, d') \<longrightarrow> R d d')"

text \<open>A property of the database that no step can take away, and a body that needs it at its start.\<close>

definition stable :: "(db \<Rightarrow> bool) \<Rightarrow> bool" where
  "stable P \<longleftrightarrow> (\<forall>d d'. R d d' \<longrightarrow> P d \<longrightarrow> P d')"

definition body_ok :: "(db \<Rightarrow> bool) \<Rightarrow> ('k tx \<Rightarrow> 'a result \<times> 'k tx) \<Rightarrow> bool" where
  "body_ok P body \<longleftrightarrow>
     (\<forall>s r s'. body s = (r, s') \<longrightarrow>
        frame (snd s) (snd s') \<and> (P (fst s) \<longrightarrow> (\<forall>x. r = Inr x \<longrightarrow> R (fst s) (fst s'))))"

lemma stable_guar: "stable P \<Longrightarrow> guar w w' \<Longrightarrow> P (w_db w) \<Longrightarrow> P (w_db w')"
  by (auto simp: stable_def guar_def)

lemma stable_True [simp]: "stable (\<lambda>_. True)"
  by (simp add: stable_def)

lemma body_okD:
  assumes "body_ok P body" and "body s = (r, s')"
  shows "frame (snd s) (snd s')" and "P (fst s) \<Longrightarrow> r = Inr x \<Longrightarrow> R (fst s) (fst s')"
  using assms unfolding body_ok_def by blast+

lemma guar_refl [simp]: "guar w w"
  by (simp add: guar_def refl)

lemma guar_trans: "guar w w1 \<Longrightarrow> guar w1 w2 \<Longrightarrow> guar w w2"
  by (auto simp: guar_def intro: trans)

lemma guar_rely: "guar w w' \<Longrightarrow> rely w \<Longrightarrow> rely w'"
  by (simp add: guar_def rely_def)

lemma guar_frame: "frame w w' \<Longrightarrow> guar w w'"
  by (simp add: guar_def frame_def refl)

lemma guar_emit: "guar w w' \<Longrightarrow> guar w (emit st es w')"
  by (simp add: guar_def emit_def)

lemma guar_pool_tick: "rely w \<Longrightarrow> pool_tick w = (sky, w') \<Longrightarrow> guar w w'"
  by (auto simp: pool_tick_def tick_def guar_def rely_def)

lemma guar_pool_exec:
  assumes "rely w" and P: "stable P" "P (w_db w)" and "stmt_ok P q" and "pool_exec q w = (r, w')"
  shows "guar w w'"
proof -
  obtain sky w1 where t: "pool_tick w = (sky, w1)" by (cases "pool_tick w")
  with assms(1) have g: "guar w w1" by (rule guar_pool_tick)
  with P have P1: "P (w_db w1)" by (simp add: stable_guar)
  show ?thesis
  proof (cases "sky = Lost")
    case True
    with t g assms(5) show ?thesis by (simp add: pool_exec_def)
  next
    case False
    show ?thesis
    proof (cases "q (w_db w1)")
      case (Inl e)
      with t False g assms(5) show ?thesis by (simp add: pool_exec_def)
    next
      case (Inr xd)
      obtain x d where xd: "xd = (x, d)" by (cases xd)
      with Inr P1 assms(4) have "R (w_db w1) d" by (auto simp: stmt_ok_def)
      with g have "guar w (w1\<lparr>w_db := d\<rparr>)" by (auto simp: guar_def intro: trans)
      with t False Inr xd assms(5) show ?thesis by (auto simp: pool_exec_def)
    qed
  qed
qed

lemma guar_commit:
  assumes "guar w w1" and "frame w1 w2" and "R (w_db w1) d" and "tick w2 = (sky, w3)"
  shows "guar w w3" and "guar w (w3\<lparr>w_db := d\<rparr>)"
  using assms tick_frame [OF assms(4)] by (auto simp: guar_def frame_def intro: trans)

lemma guar_in_tx:
  assumes "rely w" and P: "stable P" "P (w_db w)" and "body_ok P body" and "in_tx body w = (r, w')"
  shows "guar w w'"
proof -
  obtain sky w1 where t: "pool_tick w = (sky, w1)" by (cases "pool_tick w")
  with assms(1) have g: "guar w w1" by (rule guar_pool_tick)
  with P have P1: "P (w_db w1)" by (simp add: stable_guar)
  show ?thesis
  proof (cases "sky = Fine")
    case False
    with t g assms(5) show ?thesis by (simp add: in_tx_def)
  next
    case True
    obtain r2 d w2 where b: "body (w_db w1, w1) = (r2, (d, w2))" by (metis surj_pair)
    with assms(4) P1 have fr: "frame w1 w2" and R: "\<And>x. r2 = Inr x \<Longrightarrow> R (w_db w1) d"
      by (fastforce simp: body_ok_def)+
    show ?thesis
    proof (cases r2)
      case (Inl e)
      with True t b g fr assms(5) show ?thesis
        by (auto simp: in_tx_def intro: guar_trans guar_frame)
    next
      case (Inr x)
      obtain sky2 w3 where t2: "tick w2 = (sky2, w3)" by (cases "tick w2")
      from guar_commit [OF g fr R [OF Inr] t2] True t b Inr t2 assms(5) show ?thesis
        by (cases sky2) (auto simp: in_tx_def)
    qed
  qed
qed

lemma guar_in_tx_opt:
  assumes "rely w" and P: "stable P" "P (w_db w)" and "body_ok P body" and "in_tx_opt body w = (r, w')"
  shows "guar w w'"
proof -
  obtain sky w1 where t: "pool_tick w = (sky, w1)" by (cases "pool_tick w")
  with assms(1) have g: "guar w w1" by (rule guar_pool_tick)
  with P have P1: "P (w_db w1)" by (simp add: stable_guar)
  show ?thesis
  proof (cases "sky = Fine")
    case False
    with t g assms(5) show ?thesis by (simp add: in_tx_opt_def)
  next
    case sky: True
    obtain r2 d w2 where b: "body (w_db w1, w1) = (r2, (d, w2))" by (metis surj_pair)
    with assms(4) P1 have fr: "frame w1 w2" and R: "\<And>x. r2 = Inr x \<Longrightarrow> R (w_db w1) d"
      by (fastforce simp: body_ok_def)+
    obtain sky2 w3 where t2: "tick w2 = (sky2, w3)" by (cases "tick w2")
    have gb: "guar w w2" using g fr by (blast intro: guar_trans guar_frame)
    show ?thesis
    proof (cases "\<exists>x. r2 = Inr (Some x)")
      case True
      then obtain x where x: "r2 = Inr (Some x)" by blast
      from guar_commit [OF g fr R [OF x] t2] sky t b x t2 assms(5) show ?thesis
        by (cases sky2) (auto simp: in_tx_opt_def)
    next
      case False
      with sky t b gb assms(5) show ?thesis
        by (cases r2) (auto simp: in_tx_opt_def split: option.splits)
    qed
  qed
qed

lemma body_ok_try_each:
  assumes "\<And>x. x \<in> set xs \<Longrightarrow> body_ok (\<lambda>_. True) (f x)"
  shows "body_ok (\<lambda>_. True) (try_each f xs)"
  using assms
proof (induction xs)
  case Nil
  then show ?case by (simp add: body_ok_def refl)
next
  case (Cons x xs)
  have "frame (snd s) (snd s') \<and> (\<forall>y. r = Inr y \<longrightarrow> R (fst s) (fst s'))"
    if run: "try_each f (x # xs) s = (r, s')" for s r s'
  proof -
    obtain r1 s1 where f: "f x s = (r1, s1)" by (cases "f x s")
    have "body_ok (\<lambda>_. True) (f x)" using Cons.prems by simp
    note 1 = body_okD [OF this f, simplified]
    obtain r2 s2 where t: "try_each f xs s1 = (r2, s2)" by (cases "try_each f xs s1")
    have "body_ok (\<lambda>_. True) (try_each f xs)" using Cons by simp
    note 2 = body_okD [OF this t, simplified]
    from run f t 1 2 show ?thesis
      by (cases r1; cases r2) (auto intro: frame_trans trans)
  qed
  then show ?case unfolding body_ok_def by blast
qed

text \<open>The loops over pages: every row's work is given that the row was there when the page was read.\<close>

lemma guar_each_row:
  assumes step: "\<And>r ds w x w'. r \<in> set rows \<Longrightarrow> rely w \<Longrightarrow> P r (w_db w) \<Longrightarrow> f r ds w = (x, w') \<Longrightarrow> guar w w'"
    and "\<And>r. stable (P r)" and "rely w" and "\<forall>r \<in> set rows. P r (w_db w)"
    and "each_row f rows ds w = (x, w')"
  shows "guar w w'"
  using assms
proof (induction rows arbitrary: ds w)
  case (Cons r rows)
  obtain ds1 e w1 where f: "f r ds w = ((ds1, e), w1)" by (metis surj_pair)
  from Cons.prems have g: "guar w w1" by (auto intro: Cons.prems(1) [OF _ _ _ f])
  show ?case
  proof (cases e)
    case None
    have "guar w1 w'"
    proof (rule Cons.IH)
      show "\<forall>r \<in> set rows. P r (w_db w1)"
        using Cons.prems(4) stable_guar [OF Cons.prems(2) g] by simp
      show "each_row f rows ds1 w1 = (x, w')" using Cons.prems(5) f None by simp
      show "rely w1" using g Cons.prems(3) by (rule guar_rely)
      show "guar v v'" if "r' \<in> set rows" "rely v" "P r' (w_db v)" "f r' ds' v = (y, v')" for r' ds' v y v'
        using that(1) by (intro Cons.prems(1) [OF _ that(2-4)]) simp
    qed (rule Cons.prems(2))
    with g show ?thesis by (rule guar_trans)
  qed (use Cons.prems(5) f g in simp)
qed simp

lemma guar_page_loop:
  assumes step: "\<And>r ds w x w'. rely w \<Longrightarrow> P r (w_db w) \<Longrightarrow> f r ds w = (x, w') \<Longrightarrow> guar w w'"
    and st: "\<And>r. stable (P r)" and start: "\<And>r d cur. r \<in> set (objects d) \<Longrightarrow> I d \<Longrightarrow> sel cur r \<Longrightarrow> P r d"
    and I: "stable I"
    and "rely w" and "I (w_db w)" and "page_loop n sel f cur ds w = (x, w')"
  shows "guar w w'"
  using assms(5-)
proof (induction n arbitrary: cur ds w)
  case (Suc n)
  let ?q = "sql_select_page (sel cur) page_size"
  obtain r w1 where q: "pool_exec ?q w = (r, w1)" by (cases "pool_exec ?q w")
  have ok: "stmt_ok (\<lambda>_. True) ?q" by (simp add: stmt_ok_def sql_select_page_def refl)
  from guar_pool_exec [OF Suc.prems(1) _ _ ok q] have g: "guar w w1" by simp
  note rl = guar_rely [OF g Suc.prems(1)] and I1 = stable_guar [OF I g Suc.prems(2)]
  show ?case
  proof (cases r)
    case (Inl e)
    with Suc.prems q g show ?thesis by simp
  next
    case (Inr page)
    from q Inr have "set page \<subseteq> {r \<in> set (objects (w_db w1)). sel cur r}"
      by (auto simp: pool_exec_def sql_select_page_def dest!: in_set_takeD split: prod.splits if_splits)
    with start I1 have P: "\<forall>r \<in> set page. P r (w_db w1)" by auto
    obtain ds2 e w2 where e: "each_row f page ds w1 = ((ds2, e), w2)" by (metis surj_pair)
    have g2: "guar w1 w2"
      by (rule guar_each_row [OF step st rl P e])
    have g12: "guar w w2" using g g2 by (rule guar_trans)
    show ?thesis
    proof (cases "page = [] \<or> e \<noteq> None")
      case True
      with Suc.prems q Inr e g g12 show ?thesis by (auto split: if_splits)
    next
      case False
      with Suc.prems q Inr e have "page_loop n sel f (o_id (last page)) ds2 w2 = (x, w')" by simp
      with Suc.IH g12 I Suc.prems have "guar w2 w'"
        using guar_rely stable_guar by blast
      with g12 show ?thesis by (rule guar_trans)
    qed
  qed
qed simp

end

end
