(* ===== verification/Effects.thy ===== *)
theory Effects
  imports StoreLaws
begin

text \<open>
  What the body of each transaction of the store does to the view it works on, when it reaches
  its end. Everything the store's theorems say about the database goes through these lemmas.
\<close>

section \<open>Statements inside a transaction\<close>

lemma tx_exec_Inr:
  "tx_exec q (d, w) = (Inr x, (d', w')) \<Longrightarrow> q d = Inr (x, d') \<and> frame w w'"
  using tx_exec_ok [of q "(d, w)" x "(d', w')"] tx_exec_frame [of q "(d, w)" "Inr x" "(d', w')"]
  by simp

lemma tx_host_view:
  obtains r w' h h' where "tx_host f (d, w) = (r, (d, w'))" and "f h = (r, h')"
proof -
  obtain r h' where "f (w_host w) = (r, h')" by (cases "f (w_host w)")
  then show thesis by (intro that) (auto simp: tx_host_def on_host_def)
qed

lemma tx_insert_index:
  "tx_exec (sql_insert_index r) (d, w) = (Inr u, (d', w')) \<Longrightarrow>
   d' = d\<lparr>blind_index := blind_index d @ [r]\<rparr> \<and> x_object r \<in> set (map o_id (objects d))
   \<and> r \<notin> set (blind_index d)"
  by (drule tx_exec_Inr) (auto simp: sql_insert_index_def split: if_splits)

lemma tx_insert_object:
  "tx_exec (sql_insert_object r) (d, w) = (Inr u, (d', w')) \<Longrightarrow>
   d' = d\<lparr>objects := objects d @ [r]\<rparr> \<and> o_id r \<notin> set (map o_id (objects d))"
  by (drule tx_exec_Inr) (auto simp: sql_insert_object_def split: if_splits)

lemma tx_insert_audit:
  "tx_exec (sql_insert_audit rows) (d, w) = (Inr u, (d', w')) \<Longrightarrow>
   d' = d\<lparr>audit_log := audit_log d @ rows\<rparr>"
  by (drule tx_exec_Inr) (auto simp: sql_insert_audit_def)

lemma tx_delete_index:
  "tx_exec (sql_delete_index c oid) (d, w) = (Inr u, (d', w')) \<Longrightarrow>
   d' = d\<lparr>blind_index := filter (\<lambda>x. \<not> (x_collection x = c \<and> x_object x = oid)) (blind_index d)\<rparr>"
  by (drule tx_exec_Inr) (auto simp: sql_delete_index_def)

lemma tx_shred:
  "tx_exec (sql_shred p) (d, w) = (Inr rows, (d', w')) \<Longrightarrow>
   rows = filter p (objects d) \<and>
   d' = d\<lparr>objects := map (\<lambda>r. if p r then shred r else r) (objects d)\<rparr>"
  by (drule tx_exec_Inr) (auto simp: sql_shred_def)

section \<open>PutMany\<close>

definition entry_of :: "crypto \<Rightarrow> blind_key \<Rightarrow> string \<Rightarrow> string \<Rightarrow> string \<times> string \<Rightarrow> index_row" where
  "entry_of C ix collection oid fv =
     \<lparr>x_collection = collection, x_field = fst fv,
      x_hash = Hash C ix collection (fst fv) (snd fv), x_object = oid\<rparr>"

lemma entry_of_simps [simp]:
  "x_collection (entry_of C ix c oid fv) = c" "x_object (entry_of C ix c oid fv) = oid"
  "x_field (entry_of C ix c oid fv) = fst fv"
  "x_hash (entry_of C ix c oid fv) = Hash C ix c (fst fv) (snd fv)"
  by (simp_all add: entry_of_def)

lemma insert_index_value_alt:
  "insert_index_value C st c oid fv = tx_exec (sql_insert_index (entry_of C (st_index st) c oid fv))"
  by (cases fv) (simp add: insert_index_value_def entry_of_def)

lemma insert_index_values:
  assumes "try_each (insert_index_value C st c oid) fvs (d, w) = (Inr us, (d', w'))"
  shows "d' = d\<lparr>blind_index := blind_index d @ map (entry_of C (st_index st) c oid) fvs\<rparr>
    \<and> (distinct (blind_index d) \<longrightarrow> distinct (blind_index d'))"
  using assms
proof (induction fvs arbitrary: d w us)
  case (Cons fv fvs)
  obtain r d1 w1 where f: "insert_index_value C st c oid fv (d, w) = (r, (d1, w1))"
    by (metis surj_pair)
  with Cons.prems obtain u where r: "r = Inr u" by (cases r) auto
  from f r have d1: "d1 = d\<lparr>blind_index := blind_index d @ [entry_of C (st_index st) c oid fv]\<rparr>
      \<and> entry_of C (st_index st) c oid fv \<notin> set (blind_index d)"
    by (simp add: insert_index_value_alt tx_insert_index)
  from Cons.prems f r obtain us' where
    "try_each (insert_index_value C st c oid) fvs (d1, w1) = (Inr us', (d', w'))"
    by (auto split: prod.splits sum.splits)
  note IH = Cons.IH [OF this]
  have "distinct (blind_index d) \<longrightarrow> distinct (blind_index d1)" using d1 by simp
  with IH have "distinct (blind_index d) \<longrightarrow> distinct (blind_index d')" by blast
  moreover have "d' = d\<lparr>blind_index := blind_index d @ map (entry_of C (st_index st) c oid) (fv # fvs)\<rparr>"
    using conjunct1 [OF IH] d1 by simp
  ultimately show ?case by blast
qed simp

lemma insert_index_value_frame:
  "insert_index_value C st c oid fv s = (r, s') \<Longrightarrow> frame (snd s) (snd s')"
  by (simp add: insert_index_value_alt tx_exec_frame)

lemma insert_index_values_frame:
  "try_each (insert_index_value C st c oid) fvs s = (r, s') \<Longrightarrow> frame (snd s) (snd s')"
  using insert_index_value_frame by (rule try_each_frame)

lemma audit_in_tx_Inr:
  "audit_in_tx e (d, w) = (Inr u, (d', w')) \<Longrightarrow> d' = d\<lparr>audit_log := audit_log d @ [audit_row_of e]\<rparr>"
  by (simp add: audit_in_tx_def tx_insert_audit)

text \<open>\<open>seals\<close>: some host state has \<open>Seal\<close> return this.\<close>

definition seals :: "crypto \<Rightarrow> 'k store \<Rightarrow> bytes \<Rightarrow> bytes \<Rightarrow> sealed \<Rightarrow> bool" where
  "seals C st p a s \<longleftrightarrow> (\<exists>h h'. Seal C (st_env st) p a h = (Inr s, h'))"

definition created ::
  "crypto \<Rightarrow> blind_key \<Rightarrow> string \<Rightarrow> string \<Rightarrow> string \<Rightarrow> sealed \<Rightarrow> string \<Rightarrow> string gomap \<Rightarrow> db \<Rightarrow> db" where
  "created C ix actor c oid s subject values d =
     d\<lparr>objects := objects d @ [object_of oid c s subject],
       blind_index := blind_index d @ map (entry_of C ix c oid) values,
       audit_log := audit_log d @ [audit_row_of (object_entry actor ''create'' c oid)]\<rparr>"

definition put_effect ::
  "crypto \<Rightarrow> 'k store \<Rightarrow> string \<Rightarrow> string \<Rightarrow> item \<Rightarrow> string \<Rightarrow> db \<Rightarrow> db \<Rightarrow> bool" where
  "put_effect C st actor c it oid d d' \<longleftrightarrow>
     oid \<notin> set (map o_id (objects d)) \<and>
     (\<exists>s pick. seals C st (it_plaintext it) (aad c oid) s \<and>
        d' = created C (st_index st) actor c oid s (it_subject it) (range_over pick (it_indexed it)) d)
     \<and> (distinct (blind_index d) \<longrightarrow> distinct (blind_index d'))"

lemma put_item_effect:
  assumes "put_item C st actor c it (d, w) = (Inr (oid, e), (d', w'))"
  shows "e = object_entry actor ''create'' c oid \<and> put_effect C st actor c it oid d d'"
proof -
  obtain oid1 w1 where 1: "tx_host newID (d, w) = (oid1, (d, w1))"
    by (rule tx_host_view)
  obtain r2 w2 h h' where 2:
    "tx_host (Seal C (st_env st) (it_plaintext it) (aad c oid1)) (d, w1) = (r2, (d, w2))"
    "Seal C (st_env st) (it_plaintext it) (aad c oid1) h = (r2, h')"
    by (rule tx_host_view)
  from assms 1 2 obtain s where s: "r2 = Inr s" by (cases r2) (auto simp: put_item_def)
  let ?row = "object_of oid1 c s (it_subject it)"
  obtain r3 d3 w3 where 3: "tx_exec (sql_insert_object ?row) (d, w2) = (r3, (d3, w3))"
    by (metis surj_pair)
  with assms 1 2 s obtain u3 where u3: "r3 = Inr u3" by (cases r3) (auto simp: put_item_def)
  obtain r4 d4 w4 where 4: "try_each (insert_index_value C st c oid1)
      (range_over (ranges (w_host w3)) (it_indexed it)) (d3, w3) = (r4, (d4, w4))"
    by (metis surj_pair)
  with assms 1 2 s 3 u3 obtain u4 where u4: "r4 = Inr u4" by (cases r4) (auto simp: put_item_def)
  obtain r5 d5 w5 where 5: "audit_in_tx (object_entry actor ''create'' c oid1) (d4, w4) = (r5, (d5, w5))"
    by (metis surj_pair)
  with assms 1 2 s 3 u3 4 u4 obtain u5 where u5: "r5 = Inr u5" by (cases r5) (auto simp: put_item_def)
  from assms 1 2 s 3 u3 4 u4 5 u5 have id: "oid = oid1" "e = object_entry actor ''create'' c oid" "d' = d5"
    by (auto simp: put_item_def)
  note ins = tx_insert_object [OF 3 [unfolded u3]]
  note d4 = insert_index_values [OF 4 [unfolded u4]]
  note d5 = audit_in_tx_Inr [OF 5 [unfolded u5]]
  have "seals C st (it_plaintext it) (aad c oid) s" using 2 s id by (auto simp: seals_def)
  moreover have "blind_index d3 = blind_index d" "blind_index d' = blind_index d4" using ins d5 id by simp_all
  with conjunct2 [OF d4] have "distinct (blind_index d) \<longrightarrow> distinct (blind_index d')" by simp
  moreover have "d' = created C (st_index st) actor c oid s (it_subject it)
      (range_over (ranges (w_host w3)) (it_indexed it)) d"
    using ins conjunct1 [OF d4] d5 id by (simp add: created_def)
  moreover have "oid \<notin> set (map o_id (objects d))" using ins id by (simp add: object_of_def)
  ultimately show ?thesis using id(2) unfolding put_effect_def by blast
qed

lemma put_item_frame:
  assumes "put_item C st actor c it s0 = (r, s')"
  shows "frame (snd s0) (snd s')"
proof -
  obtain oid s1 where 1: "tx_host newID s0 = (oid, s1)" by (cases "tx_host newID s0")
  note f1 = conjunct1 [OF tx_host_frame [OF 1]]
  obtain r2 s2 where 2: "tx_host (Seal C (st_env st) (it_plaintext it) (aad c oid)) s1 = (r2, s2)"
    by (metis surj_pair)
  note f2 = frame_trans [OF f1 conjunct1 [OF tx_host_frame [OF 2]]]
  show ?thesis
  proof (cases r2)
    case (Inl x)
    with assms 1 2 f2 show ?thesis by (simp add: put_item_def)
  next
    case (Inr s)
    obtain r3 s3 where 3: "tx_exec (sql_insert_object (object_of oid c s (it_subject it))) s2 = (r3, s3)"
      by (metis surj_pair)
    note f3 = frame_trans [OF f2 tx_exec_frame [OF 3]]
    obtain r4 s4 where 4: "try_each (insert_index_value C st c oid)
        (range_over (ranges (w_host (snd s3))) (it_indexed it)) s3 = (r4, s4)" by (metis surj_pair)
    note f4 = frame_trans [OF f3 insert_index_values_frame [OF 4]]
    obtain r5 s5 where 5: "audit_in_tx (object_entry actor ''create'' c oid) s4 = (r5, s5)"
      by (metis surj_pair)
    then have "frame (snd s4) (snd s5)" by (simp add: audit_in_tx_def tx_exec_frame)
    note f5 = frame_trans [OF f4 this]
    from assms 1 2 Inr 3 4 5 f3 f4 f5 show ?thesis
      by (auto simp: put_item_def Let_def split: sum.splits)
  qed
qed

lemma put_items_frame:
  "try_each (put_item C st actor c) items s = (r, s') \<Longrightarrow> frame (snd s) (snd s')"
  using put_item_frame by (rule try_each_frame)

section \<open>Delete\<close>

definition deletes :: "string \<Rightarrow> string \<Rightarrow> object_row \<Rightarrow> bool" where
  "deletes collection oid r \<longleftrightarrow> o_id r = oid \<and> o_collection r = collection \<and> \<not> o_deleted r"

definition delete_effect :: "string \<Rightarrow> string \<Rightarrow> string \<Rightarrow> db \<Rightarrow> db \<Rightarrow> bool" where
  "delete_effect actor c oid d d' \<longleftrightarrow>
     (\<exists>r \<in> set (objects d). deletes c oid r) \<and>
     d' = d\<lparr>objects := map (\<lambda>r. if deletes c oid r then shred r else r) (objects d),
            blind_index := filter (\<lambda>x. \<not> (x_collection x = c \<and> x_object x = oid)) (blind_index d),
            audit_log := audit_log d @ [audit_row_of (object_entry actor ''delete'' c oid)]\<rparr>"

lemma delete_in_tx_effect:
  assumes "delete_in_tx actor c oid (d, w) = (Inr e, (d', w'))"
  shows "e = object_entry actor ''delete'' c oid \<and> delete_effect actor c oid d d'"
proof -
  let ?p = "deletes c oid"
  have p: "(\<lambda>r. o_id r = oid \<and> o_collection r = c \<and> \<not> o_deleted r) = ?p"
    by (simp add: deletes_def fun_eq_iff)
  obtain r1 d1 w1 where 1: "tx_exec (sql_shred ?p) (d, w) = (r1, (d1, w1))" by (metis surj_pair)
  from assms 1 obtain rows where r1: "r1 = Inr rows" "rows \<noteq> []"
    by (cases r1) (auto simp: delete_in_tx_def p split: if_splits)
  obtain r2 d2 w2 where 2: "tx_exec (sql_delete_index c oid) (d1, w1) = (r2, (d2, w2))"
    by (metis surj_pair)
  with assms 1 r1 obtain u2 where u2: "r2 = Inr u2" by (cases r2) (auto simp: delete_in_tx_def p)
  obtain r3 d3 w3 where 3: "audit_in_tx (object_entry actor ''delete'' c oid) (d2, w2) = (r3, (d3, w3))"
    by (metis surj_pair)
  with assms 1 r1 2 u2 obtain u3 where u3: "r3 = Inr u3" by (cases r3) (auto simp: delete_in_tx_def p)
  from assms 1 r1 2 u2 3 u3 have id: "e = object_entry actor ''delete'' c oid" "d' = d3"
    by (auto simp: delete_in_tx_def p)
  note sh = tx_shred [OF 1 [unfolded r1]] and d2 = tx_delete_index [OF 2 [unfolded u2]]
    and d3 = audit_in_tx_Inr [OF 3 [unfolded u3]]
  from sh r1 have "\<exists>r \<in> set (objects d). ?p r" by (auto simp: filter_empty_conv)
  with sh d2 d3 id show ?thesis by (simp add: delete_effect_def)
qed

lemma audit_in_tx_frame: "audit_in_tx e s = (r, s') \<Longrightarrow> frame (snd s) (snd s')"
  by (simp add: audit_in_tx_def tx_exec_frame)

lemma delete_in_tx_frame:
  assumes "delete_in_tx actor c oid s0 = (r, s')"
  shows "frame (snd s0) (snd s')"
  using assms
  by (auto simp: delete_in_tx_def Let_def split: prod.splits sum.splits if_splits
      dest!: tx_exec_frame audit_in_tx_frame intro: frame_trans)

section \<open>DeleteSubject\<close>

definition belongs :: "string \<Rightarrow> object_row \<Rightarrow> bool" where
  "belongs subject r \<longleftrightarrow> o_subject r = Some subject \<and> \<not> o_deleted r"

definition delete_entry :: "string \<Rightarrow> ref \<Rightarrow> audit_entry" where
  "delete_entry actor r = object_entry actor ''delete'' (ref_collection r) (ref_id r)"

definition refers :: "ref list \<Rightarrow> index_row \<Rightarrow> bool" where
  "refers rs x \<longleftrightarrow> (\<exists>r \<in> set rs. x_collection x = ref_collection r \<and> x_object x = ref_id r)"

definition erase_effect :: "string \<Rightarrow> ref list \<Rightarrow> db \<Rightarrow> db" where
  "erase_effect actor rs d =
     d\<lparr>blind_index := filter (\<lambda>x. \<not> refers rs x) (blind_index d),
       audit_log := audit_log d @ map (\<lambda>r. audit_row_of (delete_entry actor r)) rs\<rparr>"

lemma erase_ref_effect:
  assumes "erase_ref actor r (d, w) = (Inr e, (d', w'))"
  shows "e = delete_entry actor r \<and> d' = erase_effect actor [r] d"
proof -
  obtain r1 d1 w1 where 1: "tx_exec (sql_delete_index (ref_collection r) (ref_id r)) (d, w) = (r1, (d1, w1))"
    by (metis surj_pair)
  with assms obtain u1 where u1: "r1 = Inr u1" by (cases r1) (auto simp: erase_ref_def)
  obtain r2 d2 w2 where 2: "audit_in_tx (delete_entry actor r) (d1, w1) = (r2, (d2, w2))"
    by (metis surj_pair)
  with assms 1 u1 obtain u2 where u2: "r2 = Inr u2"
    by (cases r2) (auto simp: erase_ref_def delete_entry_def)
  from assms 1 u1 2 u2 have id: "e = delete_entry actor r" "d' = d2"
    by (auto simp: erase_ref_def delete_entry_def)
  note d1 = tx_delete_index [OF 1 [unfolded u1]] and d2 = audit_in_tx_Inr [OF 2 [unfolded u2]]
  from d1 d2 id show ?thesis by (simp add: erase_effect_def refers_def)
qed

lemma erase_refs_effect:
  assumes "try_each (erase_ref actor) rs (d, w) = (Inr es, (d', w'))"
  shows "es = map (delete_entry actor) rs \<and> d' = erase_effect actor rs d"
  using assms
proof (induction rs arbitrary: d w es)
  case Nil
  then show ?case by (simp add: erase_effect_def refers_def)
next
  case (Cons r rs)
  obtain r1 d1 w1 where 1: "erase_ref actor r (d, w) = (r1, (d1, w1))" by (metis surj_pair)
  with Cons.prems obtain e where r1: "r1 = Inr e" by (cases r1) auto
  from Cons.prems 1 r1 obtain es' where
    2: "try_each (erase_ref actor) rs (d1, w1) = (Inr es', (d', w'))" and es: "es = e # es'"
    by (auto split: prod.splits sum.splits)
  have "erase_effect actor rs (erase_effect actor [r] d) = erase_effect actor (r # rs) d"
    by (auto simp: erase_effect_def refers_def conj_commute intro!: filter_cong)
  with Cons.IH [OF 2] erase_ref_effect [OF 1 [unfolded r1]] es show ?case by simp
qed

definition subject_effect :: "string \<Rightarrow> string \<Rightarrow> db \<Rightarrow> db" where
  "subject_effect actor subject d =
     erase_effect actor (map ref_of (filter (belongs subject) (objects d)))
       (d\<lparr>objects := map (\<lambda>r. if belongs subject r then shred r else r) (objects d)\<rparr>)"

lemma delete_subject_in_tx_effect:
  assumes "delete_subject_in_tx actor subject (d, w) = (Inr (erased, es), (d', w'))"
  shows "erased = map ref_of (filter (belongs subject) (objects d)) \<and>
         es = map (delete_entry actor) erased \<and> d' = subject_effect actor subject d"
proof -
  have p: "(\<lambda>r. o_subject r = Some subject \<and> \<not> o_deleted r) = belongs subject"
    by (simp add: belongs_def fun_eq_iff)
  obtain r1 d1 w1 where 1: "tx_exec (sql_shred (belongs subject)) (d, w) = (r1, (d1, w1))"
    by (metis surj_pair)
  with assms obtain rows where r1: "r1 = Inr rows" by (cases r1) (auto simp: delete_subject_in_tx_def p)
  obtain r2 d2 w2 where 2: "try_each (erase_ref actor) (map ref_of rows) (d1, w1) = (r2, (d2, w2))"
    by (metis surj_pair)
  with assms 1 r1 obtain es' where r2: "r2 = Inr es'"
    by (cases r2) (auto simp: delete_subject_in_tx_def p)
  from assms 1 r1 2 r2 have id: "erased = map ref_of rows" "es = es'" "d' = d2"
    by (auto simp: delete_subject_in_tx_def p)
  from tx_shred [OF 1 [unfolded r1]] erase_refs_effect [OF 2 [unfolded r2]] id
  show ?thesis by (simp add: subject_effect_def)
qed

lemma erase_ref_frame: "erase_ref actor r s0 = (x, s') \<Longrightarrow> frame (snd s0) (snd s')"
  by (auto simp: erase_ref_def Let_def split: prod.splits sum.splits
      dest!: tx_exec_frame audit_in_tx_frame intro: frame_trans)

lemma erase_refs_frame:
  "try_each (erase_ref actor) rs s = (r, s') \<Longrightarrow> frame (snd s) (snd s')"
  using erase_ref_frame by (rule try_each_frame)

lemma delete_subject_in_tx_frame:
  assumes "delete_subject_in_tx actor subject s0 = (r, s')"
  shows "frame (snd s0) (snd s')"
  using assms
  by (auto simp: delete_subject_in_tx_def Let_def split: prod.splits sum.splits
      dest!: tx_exec_frame erase_refs_frame intro: frame_trans)

section \<open>Reindex\<close>

definition live_in :: "string \<Rightarrow> db \<Rightarrow> bool" where
  "live_in oid d \<longleftrightarrow> (\<exists>r. find (\<lambda>r. o_id r = oid) (objects d) = Some r \<and> \<not> o_deleted r)"

definition reindexed ::
  "crypto \<Rightarrow> blind_key \<Rightarrow> string \<Rightarrow> string \<Rightarrow> string \<Rightarrow> string gomap \<Rightarrow> db \<Rightarrow> db" where
  "reindexed C ix actor c oid values d =
     d\<lparr>blind_index :=
         filter (\<lambda>x. \<not> (x_collection x = c \<and> x_object x = oid)) (blind_index d)
         @ map (entry_of C ix c oid) values,
       audit_log := audit_log d @ [audit_row_of (object_entry actor ''reindex'' c oid)]\<rparr>"

definition reindex_effect ::
  "crypto \<Rightarrow> blind_key \<Rightarrow> string \<Rightarrow> string \<Rightarrow> string \<Rightarrow> string gomap \<Rightarrow> db \<Rightarrow> db \<Rightarrow> bool" where
  "reindex_effect C ix actor c oid values d d' \<longleftrightarrow>
     live_in oid d \<and> (\<exists>pick. d' = reindexed C ix actor c oid (range_over pick values) d)
     \<and> (distinct (blind_index d) \<longrightarrow> distinct (blind_index d'))"

lemma rewrite_in_tx_effect:
  assumes "rewrite_in_tx C st actor c oid values (d, w) = (Inr (Some e), (d', w'))"
  shows "e = object_entry actor ''reindex'' c oid \<and> reindex_effect C (st_index st) actor c oid values d d'"
proof -
  obtain r1 d1 w1 where 1: "tx_exec (sql_is_live oid) (d, w) = (r1, (d1, w1))" by (metis surj_pair)
  with assms have r1: "r1 = Inr True" by (cases r1) (auto simp: rewrite_in_tx_def split: if_splits)
  from tx_exec_Inr [OF 1 [unfolded r1]] have live: "live_in oid d" and d1: "d1 = d"
    by (auto simp: sql_is_live_def live_in_def split: option.splits)
  obtain r2 d2 w2 where 2: "tx_exec (sql_delete_index c oid) (d1, w1) = (r2, (d2, w2))"
    by (metis surj_pair)
  with assms 1 r1 obtain u2 where u2: "r2 = Inr u2" by (cases r2) (auto simp: rewrite_in_tx_def)
  obtain r3 d3 w3 where 3: "try_each (insert_index_value C st c oid)
      (range_over (ranges (w_host w2)) values) (d2, w2) = (r3, (d3, w3))" by (metis surj_pair)
  with assms 1 r1 2 u2 obtain u3 where u3: "r3 = Inr u3" by (cases r3) (auto simp: rewrite_in_tx_def)
  obtain r4 d4 w4 where 4: "audit_in_tx (object_entry actor ''reindex'' c oid) (d3, w3) = (r4, (d4, w4))"
    by (metis surj_pair)
  with assms 1 r1 2 u2 3 u3 obtain u4 where u4: "r4 = Inr u4" by (cases r4) (auto simp: rewrite_in_tx_def)
  from assms 1 r1 2 u2 3 u3 4 u4 have id: "e = object_entry actor ''reindex'' c oid" "d' = d4"
    by (auto simp: rewrite_in_tx_def)
  note d2 = tx_delete_index [OF 2 [unfolded u2]] and d3 = insert_index_values [OF 3 [unfolded u3]]
    and d4 = audit_in_tx_Inr [OF 4 [unfolded u4]]
  have "distinct (blind_index d) \<longrightarrow> distinct (blind_index d2)" using d1 d2 by simp
  with conjunct2 [OF d3] d4 id have "distinct (blind_index d) \<longrightarrow> distinct (blind_index d')" by simp
  moreover have "d' = reindexed C (st_index st) actor c oid (range_over (ranges (w_host w2)) values) d"
    using d1 d2 conjunct1 [OF d3] d4 id by (simp add: reindexed_def)
  ultimately show ?thesis using live id(1) unfolding reindex_effect_def by blast
qed

text \<open>When the row is gone it leaves without a write.\<close>

lemma rewrite_in_tx_early:
  assumes "rewrite_in_tx C st actor c oid vals (d, w) = (Inr None, (d', w'))"
  shows "d' = d"
proof -
  obtain r1 d1 w1 where 1: "tx_exec (sql_is_live oid) (d, w) = (r1, (d1, w1))" by (metis surj_pair)
  with assms have r1: "r1 = Inr False \<and> d' = d1"
    by (auto simp: rewrite_in_tx_def Let_def split: if_splits prod.splits sum.splits)
  with 1 have "tx_exec (sql_is_live oid) (d, w) = (Inr False, (d1, w1))" by simp
  from tx_exec_Inr [OF this] r1 show ?thesis
    by (auto simp: sql_is_live_def split: option.splits)
qed

lemma rewrite_in_tx_frame:
  assumes "rewrite_in_tx C st actor c oid values s0 = (r, s')"
  shows "frame (snd s0) (snd s')"
  using assms
  by (auto simp: rewrite_in_tx_def Let_def split: prod.splits sum.splits if_splits
      dest!: tx_exec_frame audit_in_tx_frame insert_index_values_frame
      intro: frame_trans)

end
