(* ===== verification/Lawful.thy ===== *)
theory Lawful
  imports Effects
begin

text \<open>
  The abstract specification of the store: a transition system \<open>commit\<close> whose steps are the
  transactions the store's code can commit, by any server, with any arguments. What other
  processes do to the database is a sequence of such steps; every operation of the store is
  shown to be one. \<open>evolves\<close>, \<open>db_ok\<close> and \<open>audited\<close> hold along every such sequence.
\<close>

section \<open>The abstract transition system\<close>

text \<open>
  Servers may differ in their wrapping keys but share the blind-index key \<open>ix\<close>, which is loaded
  from the database. \<open>G s a p\<close> says that the sealed value \<open>s\<close>, on the row \<open>a\<close>, is readable as \<open>p\<close>
  by the servers; it is a parameter, and \<open>\<lambda>_ _ _. True\<close> is an instance.

  \<open>rewrap\<close> is the write of \<open>Rotate\<close> on a row, \<open>claim\<close> and \<open>rekey\<close> the writes on the row of the
  blind-index key, and \<open>note\<close> the audit entries of reads.
\<close>

type_synonym readable = "sealed \<Rightarrow> bytes \<Rightarrow> bytes \<Rightarrow> bool"

definition row_aad :: "object_row \<Rightarrow> bytes" where
  "row_aad r = aad (o_collection r) (o_id r)"

definition rewrapped :: "string \<Rightarrow> bytes \<Rightarrow> object_row \<Rightarrow> object_row" where
  "rewrapped k wrapped r = r\<lparr>o_key_id := k, o_wrapped := Some wrapped\<rparr>"

definition rekeyed :: "string \<Rightarrow> bytes \<Rightarrow> key_row \<Rightarrow> key_row" where
  "rekeyed k wrapped r = r\<lparr>k_key_id := k, k_wrapped := wrapped\<rparr>"

inductive commit :: "crypto \<Rightarrow> blind_key \<Rightarrow> readable \<Rightarrow> db \<Rightarrow> db \<Rightarrow> bool" for C ix G where
  create: "G s (aad c oid) p \<Longrightarrow> oid \<notin> set (map o_id (objects d)) \<Longrightarrow>
    d' = created C ix actor c oid s subject values d \<Longrightarrow>
    (distinct (blind_index d) \<longrightarrow> distinct (blind_index d')) \<Longrightarrow> commit C ix G d d'"
| destroy: "delete_effect actor c oid d d' \<Longrightarrow> commit C ix G d d'"
| forget: "commit C ix G d (subject_effect actor subject d)"
| reindex: "live_in oid d \<Longrightarrow> \<exists>r \<in> set (objects d). o_id r = oid \<and> o_collection r = c \<Longrightarrow>
    d' = reindexed C ix actor c oid values d \<Longrightarrow>
    (distinct (blind_index d) \<longrightarrow> distinct (blind_index d')) \<Longrightarrow> commit C ix G d d'"
| rewrap: "sql_rewrap_object oid k k' wrapped d = Inr (n, d') \<Longrightarrow>
    \<forall>r \<in> set (objects d). o_id r = oid \<and> o_key_id r = k \<and> \<not> o_deleted r \<longrightarrow>
      (\<forall>p. G (sealed_of r) (row_aad r) p \<longrightarrow> G (sealed_of (rewrapped k' wrapped r)) (row_aad r) p) \<Longrightarrow>
    commit C ix G d d'"
| claim: "sql_insert_key r d = Inr (u, d') \<Longrightarrow> G (sealed_key r) indexKeyAAD p \<Longrightarrow> commit C ix G d d'"
| rekey: "sql_update_key name k k' wrapped d = Inr (n, d') \<Longrightarrow>
    \<forall>r \<in> set (service_keys d). k_name r = name \<and> k_key_id r = k \<longrightarrow>
      (\<forall>p. G (sealed_key r) indexKeyAAD p \<longrightarrow> G (sealed_key (rekeyed k' wrapped r)) indexKeyAAD p) \<Longrightarrow>
    commit C ix G d d'"
| note_read: "sql_insert_audit rows d = Inr (u, d') \<Longrightarrow> commit C ix G d d'"

section \<open>What no step takes away\<close>

definition row_step :: "readable \<Rightarrow> object_row \<Rightarrow> object_row \<Rightarrow> bool" where
  "row_step G r r' \<longleftrightarrow>
     o_id r' = o_id r \<and> o_collection r' = o_collection r \<and> o_ciphertext r' = o_ciphertext r
     \<and> o_subject r' = o_subject r
     \<and> (o_deleted r \<longrightarrow> r' = r)
     \<and> (o_deleted r' \<longrightarrow> r' = r \<or> o_wrapped r' = None)
     \<and> (\<not> o_deleted r' \<longrightarrow> (\<forall>p. G (sealed_of r) (row_aad r) p \<longrightarrow> G (sealed_of r') (row_aad r') p))"

definition key_step :: "readable \<Rightarrow> key_row \<Rightarrow> key_row \<Rightarrow> bool" where
  "key_step G r r' \<longleftrightarrow>
     k_name r' = k_name r \<and> k_ciphertext r' = k_ciphertext r
     \<and> (\<forall>p. G (sealed_key r) indexKeyAAD p \<longrightarrow> G (sealed_key r') indexKeyAAD p)"

text \<open>Rows keep their place, and new ones come after them.\<close>

definition grows :: "('a \<Rightarrow> 'a \<Rightarrow> bool) \<Rightarrow> 'a list \<Rightarrow> 'a list \<Rightarrow> bool" where
  "grows P xs ys \<longleftrightarrow> length xs \<le> length ys \<and> (\<forall>i < length xs. P (xs ! i) (ys ! i))"

definition evolves :: "readable \<Rightarrow> db \<Rightarrow> db \<Rightarrow> bool" where
  "evolves G d d' \<longleftrightarrow>
     grows (row_step G) (objects d) (objects d')
     \<and> grows (key_step G) (service_keys d) (service_keys d')
     \<and> (\<exists>rows. audit_log d' = audit_log d @ rows)"

lemma row_step_refl [simp]: "row_step G r r"
  by (simp add: row_step_def)

lemma key_step_refl [simp]: "key_step G r r"
  by (simp add: key_step_def)

lemma row_step_trans: "row_step G r1 r2 \<Longrightarrow> row_step G r2 r3 \<Longrightarrow> row_step G r1 r3"
  unfolding row_step_def by (cases "o_deleted r2") auto

lemma key_step_trans: "key_step G r1 r2 \<Longrightarrow> key_step G r2 r3 \<Longrightarrow> key_step G r1 r3"
  by (auto simp: key_step_def)

lemma grows_refl: "(\<And>x. P x x) \<Longrightarrow> grows P xs xs"
  by (simp add: grows_def)

lemma grows_trans:
  "(\<And>x y z. P x y \<Longrightarrow> P y z \<Longrightarrow> P x z) \<Longrightarrow> grows P xs ys \<Longrightarrow> grows P ys zs \<Longrightarrow> grows P xs zs"
  unfolding grows_def by (metis le_trans order_less_le_trans)

lemma grows_append: "(\<And>x. P x x) \<Longrightarrow> grows P xs (xs @ ys)"
  by (simp add: grows_def nth_append)

lemma grows_map: "(\<And>x. x \<in> set xs \<Longrightarrow> P x (f x)) \<Longrightarrow> grows P xs (map f xs)"
  by (simp add: grows_def)

lemma grows_member: "grows P xs ys \<Longrightarrow> x \<in> set xs \<Longrightarrow> \<exists>y \<in> set ys. P x y"
  unfolding grows_def by (metis in_set_conv_nth nth_mem order_less_le_trans)

lemma evolves_refl [simp]: "evolves G d d"
  by (simp add: evolves_def grows_refl)

lemma evolves_trans: "evolves G d1 d2 \<Longrightarrow> evolves G d2 d3 \<Longrightarrow> evolves G d1 d3"
  unfolding evolves_def
  by (auto intro: grows_trans [OF row_step_trans] grows_trans [OF key_step_trans])

section \<open>The invariants\<close>

definition row_ok :: "readable \<Rightarrow> object_row \<Rightarrow> bool" where
  "row_ok G r \<longleftrightarrow>
     (o_deleted r \<longleftrightarrow> o_wrapped r = None)
     \<and> (\<not> o_deleted r \<longrightarrow> (\<exists>p. G (sealed_of r) (row_aad r) p))"

definition points_to :: "index_row \<Rightarrow> object_row \<Rightarrow> bool" where
  "points_to x r \<longleftrightarrow> o_id r = x_object x \<and> o_collection r = x_collection x \<and> \<not> o_deleted r"

definition db_ok :: "readable \<Rightarrow> db \<Rightarrow> bool" where
  "db_ok G d \<longleftrightarrow>
     distinct (map o_id (objects d))
     \<and> (\<forall>r \<in> set (objects d). row_ok G r)
     \<and> (\<forall>x \<in> set (blind_index d). \<exists>r \<in> set (objects d). points_to x r)
     \<and> distinct (blind_index d)
     \<and> distinct (map k_name (service_keys d))
     \<and> (\<forall>k \<in> set (service_keys d). \<exists>p. G (sealed_key k) indexKeyAAD p)"

text \<open>Every object has its creation in the audit log, and every shredded one its deletion.\<close>

definition logged :: "db \<Rightarrow> string \<Rightarrow> object_row \<Rightarrow> bool" where
  "logged d action r \<longleftrightarrow>
     (\<exists>e \<in> set (audit_log d). a_action e = action \<and> a_collection e = o_collection r
        \<and> a_object e = nullif_empty (o_id r))"

definition audited :: "db \<Rightarrow> bool" where
  "audited d \<longleftrightarrow>
     (\<forall>r \<in> set (objects d). logged d ''create'' r \<and> (o_deleted r \<longrightarrow> logged d ''delete'' r))"

lemma empty_db_ok: "db_ok G empty_db"
  by (simp add: db_ok_def empty_db_def)

lemma empty_db_audited: "audited empty_db"
  by (simp add: audited_def empty_db_def)

section \<open>Every step keeps them\<close>

lemma shred_simps [simp]:
  "o_id (shred r) = o_id r" "o_collection (shred r) = o_collection r" "o_deleted (shred r)"
  "o_wrapped (shred r) = None" "o_ciphertext (shred r) = o_ciphertext r"
  "o_subject (shred r) = o_subject r"
  by (simp_all add: shred_def)

lemma rewrapped_simps [simp]:
  "o_id (rewrapped k w r) = o_id r" "o_collection (rewrapped k w r) = o_collection r"
  "o_deleted (rewrapped k w r) = o_deleted r" "o_wrapped (rewrapped k w r) = Some w"
  "o_ciphertext (rewrapped k w r) = o_ciphertext r" "o_subject (rewrapped k w r) = o_subject r"
  "row_aad (rewrapped k w r) = row_aad r"
  by (simp_all add: rewrapped_def row_aad_def)

lemma object_of_simps [simp]:
  "o_id (object_of oid c s sub) = oid" "o_collection (object_of oid c s sub) = c"
  "\<not> o_deleted (object_of oid c s sub)" "o_wrapped (object_of oid c s sub) = Some (s_wrapped s)"
  "sealed_of (object_of oid c s sub) = s" "row_aad (object_of oid c s sub) = aad c oid"
  "o_subject (object_of oid c s sub) = nullif_empty sub"
  by (simp_all add: object_of_def sealed_of_def nil_if_null_def row_aad_def)

lemma row_step_shred: "\<not> o_deleted r \<Longrightarrow> row_step G r (shred r)"
  by (simp add: row_step_def)

lemma commit_evolves: "commit C ix G d d' \<Longrightarrow> evolves G d d'"
proof (induction rule: commit.induct)
  case (create s c oid p d d' actor subject vals)
  then show ?case by (simp add: evolves_def created_def grows_append grows_refl)
next
  case (destroy actor c oid d d')
  then show ?case
    by (auto simp: evolves_def delete_effect_def deletes_def grows_refl intro!: grows_map row_step_shred)
next
  case (forget d actor subject)
  show ?case
    by (auto simp: evolves_def subject_effect_def erase_effect_def belongs_def grows_refl
        intro!: grows_map row_step_shred)
next
  case (reindex oid d c d' actor vals)
  then show ?case by (simp add: evolves_def reindexed_def grows_refl)
next
  case (rewrap oid k k' wrapped d n d')
  have "row_step G r (rewrapped k' wrapped r)"
    if "r \<in> set (objects d)" "o_id r = oid \<and> o_key_id r = k \<and> \<not> o_deleted r" for r
    using rewrap(2) that by (auto simp: row_step_def)
  with rewrap(1) show ?case
    by (auto simp: evolves_def sql_rewrap_object_def rewrapped_def Let_def grows_refl intro!: grows_map)
next
  case (claim r d u d' p)
  then show ?case by (auto simp: evolves_def sql_insert_key_def grows_refl grows_append)
next
  case (rekey name k k' wrapped d n d')
  have "key_step G r (rekeyed k' wrapped r)"
    if "r \<in> set (service_keys d)" "k_name r = name \<and> k_key_id r = k" for r
    using rekey(2) that by (auto simp: key_step_def rekeyed_def)
  with rekey(1) show ?case
    by (auto simp: evolves_def sql_update_key_def rekeyed_def Let_def grows_refl intro!: grows_map)
next
  case (note_read rows d u d')
  then show ?case by (auto simp: evolves_def sql_insert_audit_def grows_refl)
qed

text \<open>A step that maps the objects, keeping identities, and drops the index rows of those it shreds.\<close>

definition shreds :: "(object_row \<Rightarrow> bool) \<Rightarrow> db \<Rightarrow> db \<Rightarrow> bool" where
  "shreds p d d' \<longleftrightarrow>
     objects d' = map (\<lambda>r. if p r then shred r else r) (objects d)
     \<and> (\<forall>x \<in> set (blind_index d'). x \<in> set (blind_index d)
          \<and> \<not> (\<exists>r \<in> set (objects d). p r \<and> points_to x r))
     \<and> (distinct (blind_index d) \<longrightarrow> distinct (blind_index d'))
     \<and> service_keys d' = service_keys d
     \<and> (\<exists>rows. audit_log d' = audit_log d @ rows)
     \<and> (\<forall>r \<in> set (objects d). p r \<longrightarrow> \<not> o_deleted r \<and> logged d' ''delete'' r)"

lemma shreds_destroy: "delete_effect actor c oid d d' \<Longrightarrow> shreds (deletes c oid) d d'"
  by (auto simp: delete_effect_def shreds_def deletes_def points_to_def logged_def audit_row_of_def
      object_entry_def)

lemma shreds_forget: "shreds (belongs subject) d (subject_effect actor subject d)"
  by (force simp: subject_effect_def erase_effect_def shreds_def belongs_def points_to_def refers_def
      ref_of_def logged_def audit_row_of_def object_entry_def delete_entry_def)

lemma logged_mono: "logged d action r \<Longrightarrow> audit_log d' = audit_log d @ rows \<Longrightarrow>
    o_id r' = o_id r \<Longrightarrow> o_collection r' = o_collection r \<Longrightarrow> logged d' action r'"
  by (auto simp: logged_def)

lemma shreds_db_ok:
  assumes "shreds p d d'" and "db_ok G d"
  shows "db_ok G d'"
proof -
  have o: "objects d' = map (\<lambda>r. if p r then shred r else r) (objects d)"
    using assms(1) by (simp add: shreds_def)
  have "map o_id (objects d') = map o_id (objects d)" by (simp add: o o_def if_distrib cong: if_cong)
  moreover have "\<forall>r \<in> set (objects d'). row_ok G r"
    using assms(2) by (auto simp: o db_ok_def row_ok_def)
  moreover have "\<exists>r \<in> set (objects d'). points_to x r" if "x \<in> set (blind_index d')" for x
  proof -
    from that assms obtain r where r: "r \<in> set (objects d)" "points_to x r" and "\<not> p r"
      by (fastforce simp: shreds_def db_ok_def)
    then have "r \<in> set (objects d')" by (force simp: o)
    with r show ?thesis by blast
  qed
  moreover have "service_keys d' = service_keys d" "distinct (blind_index d')"
    using assms by (simp_all add: shreds_def db_ok_def)
  ultimately show ?thesis using assms(2) by (simp add: db_ok_def)
qed

lemma shreds_audited:
  assumes "shreds p d d'" and "audited d"
  shows "audited d'"
proof -
  from assms(1) obtain rows where o: "objects d' = map (\<lambda>r. if p r then shred r else r) (objects d)"
    and a: "audit_log d' = audit_log d @ rows"
    and l: "\<And>r. r \<in> set (objects d) \<Longrightarrow> p r \<Longrightarrow> logged d' ''delete'' r"
    by (auto simp: shreds_def)
  have "logged d' ''create'' r' \<and> (o_deleted r' \<longrightarrow> logged d' ''delete'' r')"
    if r': "r' \<in> set (objects d')" for r'
  proof -
    from r' o obtain r where r: "r \<in> set (objects d)" and eq: "r' = (if p r then shred r else r)"
      by auto
    from assms(2) r have "logged d ''create'' r" and "o_deleted r \<longrightarrow> logged d ''delete'' r"
      by (auto simp: audited_def)
    with a eq l [OF r] show ?thesis by (auto simp: logged_def)
  qed
  then show ?thesis by (simp add: audited_def)
qed

lemma audited_same_rows:
  assumes "audited d" and "audit_log d' = audit_log d @ rows"
    and "\<And>r'. r' \<in> set (objects d') \<Longrightarrow> \<exists>r \<in> set (objects d).
          o_id r' = o_id r \<and> o_collection r' = o_collection r \<and> o_deleted r' = o_deleted r"
  shows "audited d'"
proof -
  have "logged d' ''create'' r' \<and> (o_deleted r' \<longrightarrow> logged d' ''delete'' r')"
    if r': "r' \<in> set (objects d')" for r'
  proof -
    from assms(3) [OF r'] obtain r where "r \<in> set (objects d)" and eq: "o_id r' = o_id r"
      "o_collection r' = o_collection r" "o_deleted r' = o_deleted r" by blast
    then have "logged d ''create'' r" and "o_deleted r \<longrightarrow> logged d ''delete'' r"
      using assms(1) by (auto simp: audited_def)
    with assms(2) eq show ?thesis by (auto intro: logged_mono)
  qed
  then show ?thesis by (simp add: audited_def)
qed

lemma live_in_row:
  assumes "live_in oid d" and "db_ok G d" and "r \<in> set (objects d)" and "o_id r = oid"
  shows "\<not> o_deleted r"
proof -
  from assms(1) obtain r' where f: "find (\<lambda>r. o_id r = oid) (objects d) = Some r'" and "\<not> o_deleted r'"
    by (auto simp: live_in_def)
  from f have "r' \<in> set (objects d)" and "o_id r' = oid" by (auto dest: find_SomeD)
  with assms have "r' = r" by (auto simp: db_ok_def intro: distinct_map_eq)
  with \<open>\<not> o_deleted r'\<close> show ?thesis by simp
qed

lemma db_ok_reindexed:
  assumes "db_ok G d" and "live_in oid d" and "r \<in> set (objects d)" "o_id r = oid" "o_collection r = c"
    and "distinct (blind_index (reindexed C ix actor c oid vals d))"
  shows "db_ok G (reindexed C ix actor c oid vals d)"
proof -
  have "points_to (entry_of C ix c oid fv) r" for fv
    using live_in_row [OF assms(2,1,3,4)] assms(4,5) by (simp add: points_to_def)
  with assms(1,3,6) show ?thesis by (auto simp: db_ok_def reindexed_def)
qed

lemma db_ok_map:
  assumes ok: "db_ok G d"
    and f: "\<And>r. r \<in> set (objects d) \<Longrightarrow> o_id (f r) = o_id r \<and> row_ok G (f r)"
    and p: "\<And>x r. r \<in> set (objects d) \<Longrightarrow> points_to x r \<Longrightarrow> points_to x (f r)"
    and g: "\<And>k. k \<in> set (service_keys d) \<Longrightarrow>
      k_name (g k) = k_name k \<and> (\<exists>p. G (sealed_key (g k)) indexKeyAAD p)"
  shows "db_ok G (d\<lparr>objects := map f (objects d), service_keys := map g (service_keys d)\<rparr>)"
proof -
  have names: "map (o_id \<circ> f) (objects d) = map o_id (objects d)"
    "map (k_name \<circ> g) (service_keys d) = map k_name (service_keys d)"
    using f g by auto
  have "\<exists>r \<in> f ` set (objects d). points_to x r" if "x \<in> set (blind_index d)" for x
    using ok that p by (fastforce simp: db_ok_def)
  with ok f g show ?thesis by (simp add: db_ok_def names)
qed

lemma sql_rewrap_object_Inr:
  "sql_rewrap_object oid k k' wrapped d = Inr (n, d') \<Longrightarrow>
   d' = d\<lparr>objects := map (\<lambda>r. if o_id r = oid \<and> o_key_id r = k \<and> \<not> o_deleted r
       then rewrapped k' wrapped r else r) (objects d)\<rparr>"
  by (auto simp: sql_rewrap_object_def Let_def rewrapped_def)

lemma sql_update_key_Inr:
  "sql_update_key name k k' wrapped d = Inr (n, d') \<Longrightarrow>
   d' = d\<lparr>service_keys := map (\<lambda>r. if k_name r = name \<and> k_key_id r = k
       then rekeyed k' wrapped r else r) (service_keys d)\<rparr>"
  by (auto simp: sql_update_key_def Let_def rekeyed_def)

lemma db_ok_rewrap:
  assumes ok: "db_ok G d" and q: "sql_rewrap_object oid k k' wrapped d = Inr (n, d')"
    and g: "\<forall>r \<in> set (objects d). o_id r = oid \<and> o_key_id r = k \<and> \<not> o_deleted r \<longrightarrow>
      (\<forall>p. G (sealed_of r) (row_aad r) p \<longrightarrow> G (sealed_of (rewrapped k' wrapped r)) (row_aad r) p)"
  shows "db_ok G d'"
proof -
  let ?f = "\<lambda>r. if o_id r = oid \<and> o_key_id r = k \<and> \<not> o_deleted r then rewrapped k' wrapped r else r"
  have "row_ok G (?f r)" if "r \<in> set (objects d)" for r
    using ok g that by (fastforce simp: db_ok_def row_ok_def)
  moreover have "points_to x r \<Longrightarrow> points_to x (?f r)" for x r
    by (simp add: points_to_def)
  ultimately have "db_ok G (d\<lparr>objects := map ?f (objects d), service_keys := map id (service_keys d)\<rparr>)"
    using ok by (intro db_ok_map) (auto simp: db_ok_def)
  with sql_rewrap_object_Inr [OF q] show ?thesis by simp
qed

lemma db_ok_rekey:
  assumes ok: "db_ok G d" and q: "sql_update_key name k k' wrapped d = Inr (n, d')"
    and g: "\<forall>r \<in> set (service_keys d). k_name r = name \<and> k_key_id r = k \<longrightarrow>
      (\<forall>p. G (sealed_key r) indexKeyAAD p \<longrightarrow> G (sealed_key (rekeyed k' wrapped r)) indexKeyAAD p)"
  shows "db_ok G d'"
proof -
  let ?g = "\<lambda>r. if k_name r = name \<and> k_key_id r = k then rekeyed k' wrapped r else r"
  have "k_name (?g r) = k_name r" for r by (simp add: rekeyed_def)
  moreover have "\<exists>p. G (sealed_key (?g r)) indexKeyAAD p" if "r \<in> set (service_keys d)" for r
    using ok g that by (fastforce simp: db_ok_def)
  ultimately have "db_ok G (d\<lparr>objects := map id (objects d), service_keys := map ?g (service_keys d)\<rparr>)"
    using ok by (intro db_ok_map) (auto simp: db_ok_def)
  with sql_update_key_Inr [OF q] show ?thesis by simp
qed

lemma commit_db_ok: "commit C ix G d d' \<Longrightarrow> db_ok G d \<Longrightarrow> db_ok G d'"
proof (induction rule: commit.induct)
  case (create s c oid p d d' actor subject vals)
  have "points_to (entry_of C ix c oid fv) (object_of oid c s subject)" for fv
    by (simp add: points_to_def)
  with create show ?case by (auto simp: db_ok_def created_def row_ok_def)
next
  case (rekey name k k' wrapped d n d')
  then show ?case by (blast intro: db_ok_rekey)
next
  case (reindex oid d c d' actor vals)
  then obtain r where r: "r \<in> set (objects d)" "o_id r = oid" "o_collection r = c" by blast
  have "distinct (blind_index (reindexed C ix actor c oid vals d))"
    using reindex(3,4,5) by (simp add: db_ok_def)
  from db_ok_reindexed [OF reindex(5,1) r this] reindex(3) show ?case by simp
next
  case (claim r d u d' p)
  then show ?case by (cases "k_name r \<in> k_name ` set (service_keys d)")
      (auto simp: db_ok_def sql_insert_key_def)
next
  case (note_read rows d u d')
  then show ?case by (auto simp: db_ok_def sql_insert_audit_def)
qed (blast intro: shreds_db_ok shreds_destroy shreds_forget db_ok_rewrap)+

lemma commit_audited: "commit C ix G d d' \<Longrightarrow> audited d \<Longrightarrow> audited d'"
proof (induction rule: commit.induct)
  case (create s c oid p d d' actor subject vals)
  have "audited (created C ix actor c oid s subject vals d)" (is "audited ?d'")
    unfolding audited_def
  proof
    fix r
    assume "r \<in> set (objects ?d')"
    then consider "r \<in> set (objects d)" | "r = object_of oid c s subject"
      by (auto simp: created_def)
    then show "logged ?d' ''create'' r \<and> (o_deleted r \<longrightarrow> logged ?d' ''delete'' r)"
    proof cases
      case 1
      with create(5) show ?thesis by (auto simp: audited_def created_def logged_def)
    next
      case 2
      then show ?thesis by (simp add: logged_def created_def audit_row_of_def object_entry_def)
    qed
  qed
  with create(3) show ?case by simp
next
  case (destroy actor c oid d d')
  show ?case by (rule shreds_audited [OF shreds_destroy [OF destroy(1)] destroy(2)])
next
  case (forget d actor subject)
  from forget show ?case by (rule shreds_audited [OF shreds_forget])
next
  case (rewrap oid k k' wrapped d n d')
  show ?case
    by (rule audited_same_rows [OF rewrap(3), where rows = "[]"])
      (auto simp: sql_rewrap_object_Inr [OF rewrap(1)])
next
  case (reindex oid d c d' actor vals)
  show ?case
    by (rule audited_same_rows [OF reindex(5), of _ "[audit_row_of (object_entry actor ''reindex'' c oid)]"])
      (auto simp: reindex(3) reindexed_def)
next
  case (claim r d u d' p)
  show ?case
    by (rule audited_same_rows [OF claim(3), where rows = "[]"])
      (use claim(1) in \<open>auto simp: sql_insert_key_def split: if_splits\<close>)
next
  case (rekey name k k' wrapped d n d')
  show ?case
    by (rule audited_same_rows [OF rekey(3), where rows = "[]"])
      (auto simp: sql_update_key_Inr [OF rekey(1)])
next
  case (note_read rows d u d')
  show ?case
    by (rule audited_same_rows [OF note_read(2), where rows = rows])
      (use note_read(1) in \<open>auto simp: sql_insert_audit_def\<close>)
qed

lemma commits_lawful:
  assumes "(commit C ix G)\<^sup>*\<^sup>* d d'"
  shows "evolves G d d'" and "db_ok G d \<Longrightarrow> db_ok G d'" and "audited d \<Longrightarrow> audited d'"
  using assms
  by (induction rule: rtranclp_induct)
    (auto intro: evolves_trans commit_evolves commit_db_ok commit_audited)

end
