(* ===== verification/Operations.thy ===== *)
theory Operations
  imports Lawful
begin

text \<open>
  Every operation of the store changes the database by steps of the abstract specification only,
  whatever the weather does to its round trips and whatever the other servers commit in between.
\<close>

section \<open>Servers and their rivals\<close>

text \<open>What a server's envelope owes to \<open>G\<close>: what it seals is readable, what it re-wraps stays so.\<close>

definition trusted :: "crypto \<Rightarrow> readable \<Rightarrow> 'k host envelope \<Rightarrow> bool" where
  "trusted C G e \<longleftrightarrow>
     (\<forall>p a h s h'. Seal C e p a h = (Inr s, h') \<longrightarrow> G s a p) \<and>
     (\<forall>s ct a h re h' p.
        Rewrap e (s\<lparr>s_ciphertext := ct\<rparr>) a h = (Inr (re, True), h') \<longrightarrow> G s a p
        \<longrightarrow> G (re\<lparr>s_ciphertext := s_ciphertext s\<rparr>) a p)"

lemma trusted_Seal: "trusted C G e \<Longrightarrow> Seal C e p a h = (Inr s, h') \<Longrightarrow> G s a p"
  unfolding trusted_def by blast

lemma trusted_Rewrap:
  "trusted C G e \<Longrightarrow> Rewrap e (s\<lparr>s_ciphertext := ct\<rparr>) a h = (Inr (re, True), h') \<Longrightarrow> G s a p
   \<Longrightarrow> G (re\<lparr>s_ciphertext := s_ciphertext s\<rparr>) a p"
  unfolding trusted_def by blast

text \<open>A sealed value has one content, or at least no step can tell its contents apart.\<close>

definition definite :: "readable \<Rightarrow> bool" where
  "definite G \<longleftrightarrow> (\<forall>s s' a p q. G s a p \<longrightarrow> G s a q \<longrightarrow> G s' a p \<longrightarrow> G s' a q)"

definition rivals_obey :: "crypto \<Rightarrow> blind_key \<Rightarrow> readable \<Rightarrow> 'k world \<Rightarrow> bool" where
  "rivals_obey C ix G w \<longleftrightarrow> (\<forall>n d. (commit C ix G)\<^sup>*\<^sup>* d (w_rivals w n d))"

interpretation spec: rely_guarantee "(commit C ix G)\<^sup>*\<^sup>*" for C ix G
  by unfold_locales auto

lemma rely_iff: "spec.rely C ix G w \<longleftrightarrow> rivals_obey C ix G w"
  by (simp add: spec.rely_def rivals_obey_def)

lemma stable_db_ok: "spec.stable C ix G (db_ok G)"
  by (auto simp: spec.stable_def dest: commits_lawful(2))

section \<open>The transactions\<close>

lemma put_item_body:
  assumes "trusted C G (st_env st)"
  shows "spec.body_ok C (st_index st) G (\<lambda>_. True) (put_item C st actor c it)"
proof -
  have "commit C (st_index st) G d d'"
    if "put_item C st actor c it (d, w) = (Inr x, (d', w'))" for d w x d' w'
  proof -
    obtain oid e where x: "x = (oid, e)" by (cases x)
    with put_item_effect that obtain s pick where "seals C st (it_plaintext it) (aad c oid) s"
      and new: "oid \<notin> set (map o_id (objects d))"
      and d': "d' = created C (st_index st) actor c oid s (it_subject it) (range_over pick (it_indexed it)) d"
      and ds: "distinct (blind_index d) \<longrightarrow> distinct (blind_index d')"
      by (metis put_effect_def)
    then have "G s (aad c oid) (it_plaintext it)"
      using assms by (auto simp: seals_def intro: trusted_Seal)
    from commit.create [where G = G, OF this new d' ds] show ?thesis .
  qed
  then show ?thesis
    unfolding spec.body_ok_def by (auto dest: put_item_frame)
qed

lemma delete_body: "spec.body_ok C ix G (\<lambda>_. True) (delete_in_tx actor c oid)"
  unfolding spec.body_ok_def
  by (auto dest: delete_in_tx_frame delete_in_tx_effect intro: commit.destroy)

lemma delete_subject_body: "spec.body_ok C ix G (\<lambda>_. True) (delete_subject_in_tx actor subject)"
  unfolding spec.body_ok_def
  by (auto dest: delete_subject_in_tx_frame dest!: delete_subject_in_tx_effect intro: commit.forget)

text \<open>What a row that a page loop works on must still satisfy: it is there, and has only evolved.\<close>

definition known :: "readable \<Rightarrow> object_row \<Rightarrow> db \<Rightarrow> bool" where
  "known G r d \<longleftrightarrow> db_ok G d \<and> row_ok G r \<and> \<not> o_deleted r \<and> (\<exists>r' \<in> set (objects d). row_step G r r')"

lemma stable_known: "spec.stable C ix G (known G r)"
  unfolding spec.stable_def known_def
proof (intro allI impI)
  fix d d'
  assume s: "(commit C ix G)\<^sup>*\<^sup>* d d'"
    and k: "db_ok G d \<and> row_ok G r \<and> \<not> o_deleted r \<and> (\<exists>r' \<in> set (objects d). row_step G r r')"
  then obtain r' where r': "r' \<in> set (objects d)" "row_step G r r'" by blast
  have "grows (row_step G) (objects d) (objects d')"
    using commits_lawful(1) [OF s] by (simp add: evolves_def)
  from grows_member [OF this r'(1)] obtain r'' where "r'' \<in> set (objects d')" "row_step G r' r''" by blast
  with r' row_step_trans have "\<exists>r' \<in> set (objects d'). row_step G r r'" by blast
  with k commits_lawful(2) [OF s] show
    "db_ok G d' \<and> row_ok G r \<and> \<not> o_deleted r \<and> (\<exists>r' \<in> set (objects d'). row_step G r r')"
    by blast
qed

lemma known_start: "r \<in> set (objects d) \<Longrightarrow> db_ok G d \<Longrightarrow> \<not> o_deleted r \<Longrightarrow> known G r d"
  by (auto simp: known_def db_ok_def intro: row_step_refl)

lemma rewrite_body:
  "spec.body_ok C (st_index st) G (known G r)
     (rewrite_in_tx C st actor (o_collection r) (o_id r) vals)"
  (is "spec.body_ok _ _ _ _ ?body")
proof -
  have "(commit C (st_index st) G)\<^sup>*\<^sup>* d d'"
    if "?body (d, w) = (Inr x, (d', w'))" and k: "known G r d" for d w x d' w'
  proof (cases x)
    case None
    with that(1) rewrite_in_tx_early show ?thesis by fastforce
  next
    case (Some e)
    with that(1) have "reindex_effect C (st_index st) actor (o_collection r) (o_id r) vals d d'"
      by (auto dest: rewrite_in_tx_effect)
    moreover have "\<exists>r' \<in> set (objects d). o_id r' = o_id r \<and> o_collection r' = o_collection r"
      using k by (auto simp: known_def row_step_def)
    ultimately show ?thesis by (auto simp: reindex_effect_def intro: commit.reindex)
  qed
  then show ?thesis unfolding spec.body_ok_def by (auto dest: rewrite_in_tx_frame)
qed

lemma guar_rewriteIndex:
  assumes "spec.rely C (st_index st) G w" and "known G r (w_db w)"
    and "rewriteIndex C st actor (o_collection r) (o_id r) vals w = (x, w')"
  shows "spec.guar C (st_index st) G w w'"
proof -
  obtain x1 w1 where "in_tx_opt (rewrite_in_tx C st actor (o_collection r) (o_id r) vals) w = (x1, w1)"
    by (metis surj_pair)
  moreover from spec.guar_in_tx_opt [OF assms(1) stable_known assms(2) rewrite_body this]
  have "spec.guar C (st_index st) G w w1" .
  ultimately show ?thesis using assms(3)
    by (auto simp: rewriteIndex_def intro: spec.guar_emit split: sum.splits option.splits)
qed

lemma guar_reindex_row:
  assumes "spec.rely C (st_index st) G w" and "known G r (w_db w)"
    and "reindex_row C st actor indexed r ds w = (x, w')"
  shows "spec.guar C (st_index st) G w w'"
proof -
  obtain r1 w1 where o: "on_host (Open C (st_env st) (sealed_of r) (aad (o_collection r) (o_id r))) w = (r1, w1)"
    by (metis surj_pair)
  then have g: "spec.guar C (st_index st) G w w1" by (intro spec.guar_frame on_host_frame)
  note k = spec.stable_guar [OF stable_known g assms(2)] and rl = spec.guar_rely [OF g assms(1)]
  obtain done' skipped where ds: "ds = (done', skipped)" by (cases ds)
  show ?thesis
  proof (cases "\<exists>p vals. r1 = Inr p \<and> indexed (o_collection r) p = Inr vals")
    case False
    with assms(3) o ds g show ?thesis
      by (auto simp: reindex_row_def split: sum.splits if_splits)
  next
    case True
    then obtain p vals where p: "r1 = Inr p" "indexed (o_collection r) p = Inr vals" by blast
    obtain x2 w2 where r2: "rewriteIndex C st actor (o_collection r) (o_id r) vals w1 = (x2, w2)"
      by (metis surj_pair)
    from g guar_rewriteIndex [OF rl k r2] have "spec.guar C (st_index st) G w w2"
      by (rule spec.guar_trans)
    with assms(3) o ds p r2 show ?thesis by (cases x2) (auto simp: reindex_row_def)
  qed
qed

lemma matched_row:
  assumes "known G r d" and "r'' \<in> set (objects d)" and "o_id r'' = o_id r" and "definite G"
    and "\<And>p. G (sealed_of r) (row_aad r) p \<Longrightarrow> G s' (row_aad r) p" and "\<not> o_deleted r''"
    and "G (sealed_of r'') (row_aad r'') q"
  shows "G s' (row_aad r'') q" and "o_ciphertext r'' = o_ciphertext r"
proof -
  from assms(1) obtain r' where r': "r' \<in> set (objects d)" "row_step G r r'" and ok: "db_ok G d"
    and "row_ok G r" "\<not> o_deleted r" by (auto simp: known_def)
  then have "o_id r' = o_id r''" using assms(3) by (simp add: row_step_def)
  with r'(1) ok assms(2) have "r' = r''"
    by (auto simp: db_ok_def distinct_map dest: inj_onD)
  with r' have st: "row_step G r r''" by simp
  then have a: "row_aad r'' = row_aad r" and c: "o_ciphertext r'' = o_ciphertext r"
    by (simp_all add: row_step_def row_aad_def)
  show "o_ciphertext r'' = o_ciphertext r" by (fact c)
  from \<open>row_ok G r\<close> \<open>\<not> o_deleted r\<close> obtain p where p: "G (sealed_of r) (row_aad r) p"
    by (auto simp: row_ok_def)
  with st assms(6) have "G (sealed_of r'') (row_aad r) p" by (simp add: row_step_def a)
  with assms(4,7) assms(5) [OF p] show "G s' (row_aad r'') q"
    unfolding definite_def a by blast
qed

lemma rewrap_stmt:
  assumes "trusted C G e" and "definite G"
    and "Rewrap e \<lparr>s_key_id = o_key_id r, s_wrapped = nil_if_null (o_wrapped r), s_ciphertext = []\<rparr>
           (aad (o_collection r) (o_id r)) h = (Inr (re, True), h')"
  shows "spec.stmt_ok C ix G (known G r) (sql_rewrap_object (o_id r) (o_key_id r) (s_key_id re) (s_wrapped re))"
proof -
  have s: "\<lparr>s_key_id = o_key_id r, s_wrapped = nil_if_null (o_wrapped r), s_ciphertext = []\<rparr>
      = (sealed_of r)\<lparr>s_ciphertext := []\<rparr>"
    by (simp add: sealed_of_def)
  let ?re = "re\<lparr>s_ciphertext := o_ciphertext r\<rparr>"
  have g: "G ?re (row_aad r) p" if "G (sealed_of r) (row_aad r) p" for p
    using trusted_Rewrap [OF assms(1) assms(3) [unfolded s], of p] that
    by (simp add: row_aad_def sealed_of_def)
  have "commit C ix G d d'"
    if k: "known G r d"
      and q: "sql_rewrap_object (o_id r) (o_key_id r) (s_key_id re) (s_wrapped re) d = Inr (n, d')"
    for d n d'
  proof (rule commit.rewrap [OF q], intro ballI impI allI)
    fix r'' p
    assume r'': "r'' \<in> set (objects d)" and m: "o_id r'' = o_id r \<and> o_key_id r'' = o_key_id r \<and> \<not> o_deleted r''"
      and p: "G (sealed_of r'') (row_aad r'') p"
    have "G ?re (row_aad r'') p" and "o_ciphertext r'' = o_ciphertext r"
      using matched_row [OF k r'' _ assms(2) g _ p] m by auto
    moreover have "sealed_of (rewrapped (s_key_id re) (s_wrapped re) r'') = re\<lparr>s_ciphertext := o_ciphertext r''\<rparr>"
      by (simp add: sealed_of_def rewrapped_def nil_if_null_def)
    ultimately show "G (sealed_of (rewrapped (s_key_id re) (s_wrapped re) r'')) (row_aad r'') p"
      by simp
  qed
  then show ?thesis unfolding spec.stmt_ok_def by blast
qed

lemma guar_rotate_row:
  assumes "trusted C G (st_env st)" and "definite G"
    and "spec.rely C ix G w" and "known G r (w_db w)" and "rotate_row st r ds w = (x, w')"
  shows "spec.guar C ix G w w'"
proof -
  let ?s = "\<lparr>s_key_id = o_key_id r, s_wrapped = nil_if_null (o_wrapped r), s_ciphertext = []\<rparr>"
  let ?a = "aad (o_collection r) (o_id r)"
  obtain r1 h1 where rw: "Rewrap (st_env st) ?s ?a (w_host w) = (r1, h1)" by (metis surj_pair)
  then have o: "on_host (Rewrap (st_env st) ?s ?a) w = (r1, w\<lparr>w_host := h1\<rparr>)"
    by (simp add: on_host_def)
  then have g: "spec.guar C ix G w (w\<lparr>w_host := h1\<rparr>)" by (intro spec.guar_frame on_host_frame)
  note k = spec.stable_guar [OF stable_known g assms(4)] and rl = spec.guar_rely [OF g assms(3)]
  obtain done' skipped where ds: "ds = (done', skipped)" by (cases ds)
  show ?thesis
  proof (cases "\<exists>re. r1 = Inr (re, True)")
    case False
    with assms(5) o ds g show ?thesis
      by (auto simp: rotate_row_def split: sum.splits if_splits)
  next
    case True
    then obtain re where re: "r1 = Inr (re, True)" by blast
    let ?q = "sql_rewrap_object (o_id r) (o_key_id r) (s_key_id re) (s_wrapped re)"
    obtain x2 w2 where q: "pool_exec ?q (w\<lparr>w_host := h1\<rparr>) = (x2, w2)" by (metis surj_pair)
    have "spec.guar C ix G (w\<lparr>w_host := h1\<rparr>) w2"
      by (rule spec.guar_pool_exec [OF rl stable_known k rewrap_stmt [OF assms(1,2) rw [unfolded re]] q])
    with g have "spec.guar C ix G w w2" by (rule spec.guar_trans)
    with assms(5) o ds re q show ?thesis by (cases x2) (auto simp: rotate_row_def)
  qed
qed

section \<open>The row of the index key\<close>

definition known_key :: "readable \<Rightarrow> key_row \<Rightarrow> db \<Rightarrow> bool" where
  "known_key G k d \<longleftrightarrow>
     db_ok G d \<and> (\<exists>p. G (sealed_key k) indexKeyAAD p) \<and> (\<exists>k' \<in> set (service_keys d). key_step G k k')"

lemma stable_known_key: "spec.stable C ix G (known_key G k)"
  unfolding spec.stable_def known_key_def
proof (intro allI impI)
  fix d d'
  assume s: "(commit C ix G)\<^sup>*\<^sup>* d d'"
    and k: "db_ok G d \<and> (\<exists>p. G (sealed_key k) indexKeyAAD p) \<and> (\<exists>k' \<in> set (service_keys d). key_step G k k')"
  then obtain k' where k': "k' \<in> set (service_keys d)" "key_step G k k'" by blast
  have "grows (key_step G) (service_keys d) (service_keys d')"
    using commits_lawful(1) [OF s] by (simp add: evolves_def)
  from grows_member [OF this k'(1)] obtain k'' where "k'' \<in> set (service_keys d')" "key_step G k' k''" by blast
  with k' key_step_trans have "\<exists>k' \<in> set (service_keys d'). key_step G k k'" by blast
  with k commits_lawful(2) [OF s] show
    "db_ok G d' \<and> (\<exists>p. G (sealed_key k) indexKeyAAD p) \<and> (\<exists>k' \<in> set (service_keys d'). key_step G k k')"
    by blast
qed

lemma sql_select_key_Inr:
  "sql_select_key n d = Inr (k, d') \<Longrightarrow> d' = d \<and> k \<in> set (service_keys d) \<and> k_name k = n"
  by (auto simp: sql_select_key_def dest: find_SomeD split: option.splits)

lemma rekey_stmt:
  assumes "trusted C G e" and "definite G"
    and rw: "Rewrap e (sealed_key k) indexKeyAAD h = (Inr (re, True), h')"
  shows "spec.stmt_ok C ix G (known_key G k) (sql_update_key (k_name k) (k_key_id k) (s_key_id re) (s_wrapped re))"
proof -
  let ?re = "re\<lparr>s_ciphertext := k_ciphertext k\<rparr>"
  have rw': "Rewrap e ((sealed_key k)\<lparr>s_ciphertext := k_ciphertext k\<rparr>) indexKeyAAD h = (Inr (re, True), h')"
    using rw by (simp add: sealed_key_def)
  have g: "G ?re indexKeyAAD p" if "G (sealed_key k) indexKeyAAD p" for p
    using trusted_Rewrap [OF assms(1) rw', of p] that by (simp add: sealed_key_def)
  have "commit C ix G d d'"
    if k: "known_key G k d"
      and q: "sql_update_key (k_name k) (k_key_id k) (s_key_id re) (s_wrapped re) d = Inr (n, d')"
    for d n d'
  proof (rule commit.rekey [OF q], intro ballI impI allI)
    fix k'' p
    assume k'': "k'' \<in> set (service_keys d)" "k_name k'' = k_name k \<and> k_key_id k'' = k_key_id k"
      and p: "G (sealed_key k'') indexKeyAAD p"
    from k obtain k' p0 where k': "k' \<in> set (service_keys d)" "key_step G k k'" and ok: "db_ok G d"
      and p0: "G (sealed_key k) indexKeyAAD p0" by (auto simp: known_key_def)
    then have "k_name k' = k_name k''" using k'' by (simp add: key_step_def)
    with k' ok k'' have "k' = k''"
      using distinct_map_eq [of k_name "service_keys d" k' k''] by (simp add: db_ok_def)
    with k' have st: "key_step G k k''" by simp
    have "G (sealed_key k'') indexKeyAAD p0" using st p0 by (simp add: key_step_def)
    with p g [OF p0] assms(2) have "G ?re indexKeyAAD p" unfolding definite_def by blast
    moreover have "sealed_key (rekeyed (s_key_id re) (s_wrapped re) k'') = ?re"
      using st by (simp add: sealed_key_def rekeyed_def key_step_def)
    ultimately show "G (sealed_key (rekeyed (s_key_id re) (s_wrapped re) k'')) indexKeyAAD p" by simp
  qed
  then show ?thesis unfolding spec.stmt_ok_def by blast
qed

text \<open>A statement that only reads.\<close>

lemma guar_query:
  assumes "spec.rely C ix G w" and "\<And>d x d'. q d = Inr (x, d') \<Longrightarrow> d' = d" and "pool_exec q w = (r, w')"
  shows "spec.guar C ix G w w'"
proof -
  have "spec.stmt_ok C ix G (\<lambda>_. True) q" unfolding spec.stmt_ok_def by (auto dest: assms(2))
  from spec.guar_pool_exec [OF assms(1) spec.stable_True TrueI this assms(3)] show ?thesis .
qed

lemma guar_rotate_index_key:
  assumes "trusted C G (st_env st)" and "definite G" and "spec.rely C ix G w" and "db_ok G (w_db w)"
    and "rotate_index_key st w = (x, w')"
  shows "spec.guar C ix G w w'"
proof -
  obtain r1 w1 where q: "pool_exec (sql_select_key indexKeyName) w = (r1, w1)" by (metis surj_pair)
  have g1: "spec.guar C ix G w w1"
    by (rule guar_query [OF assms(3) _ q]) (auto dest: sql_select_key_Inr)
  note ok1 = spec.stable_guar [OF stable_db_ok g1 assms(4)] and rl1 = spec.guar_rely [OF g1 assms(3)]
  show ?thesis
  proof (cases r1)
    case (Inl e)
    with assms(5) q g1 show ?thesis by (simp add: rotate_index_key_def)
  next
    case (Inr k)
    with q have k: "k \<in> set (service_keys (w_db w1))" "k_name k = indexKeyName"
      by (auto simp: pool_exec_def dest!: sql_select_key_Inr split: prod.splits if_splits sum.splits)
    with ok1 have kn: "known_key G k (w_db w1)"
      by (auto simp: known_key_def db_ok_def intro: key_step_refl)
    obtain r2 h2 where rw: "Rewrap (st_env st) (sealed_key k) indexKeyAAD (w_host w1) = (r2, h2)"
      by (metis surj_pair)
    let ?w2 = "w1\<lparr>w_host := h2\<rparr>"
    from rw have o: "on_host (Rewrap (st_env st) (sealed_key k) indexKeyAAD) w1 = (r2, ?w2)"
      by (simp add: on_host_def)
    then have g2: "spec.guar C ix G w1 ?w2" by (intro spec.guar_frame on_host_frame)
    note g12 = spec.guar_trans [OF g1 g2]
    show ?thesis
    proof (cases "\<exists>re. r2 = Inr (re, True)")
      case False
      with assms(5) q Inr o g12 show ?thesis
        by (auto simp: rotate_index_key_def split: sum.splits if_splits)
    next
      case True
      then obtain re where re: "r2 = Inr (re, True)" by blast
      have "pool_exec (sql_update_key (k_name k) (k_key_id k) (s_key_id re) (s_wrapped re)) ?w2 = (x, w')"
        using assms(5) q Inr o re k(2) by (simp add: rotate_index_key_def)
      from spec.guar_pool_exec [OF spec.guar_rely [OF g2 rl1] stable_known_key
          spec.stable_guar [OF stable_known_key g2 kn] rekey_stmt [OF assms(1,2) rw [unfolded re]] this]
      have "spec.guar C ix G ?w2 w'" .
      with g12 show ?thesis by (rule spec.guar_trans)
    qed
  qed
qed

lemma guar_loadIndexKey:
  assumes "trusted C G env" and "spec.rely C ix G w" and "loadIndexKey C env w = (x, w')"
  shows "spec.guar C ix G w w'"
proof -
  obtain p w0 where o: "on_host (rand_read KeySize) w = (p, w0)" by (metis surj_pair)
  obtain r1 w1 where s: "on_host (Seal C env p indexKeyAAD) w0 = (r1, w1)" by (metis surj_pair)
  have g1: "spec.guar C ix G w w1"
    using spec.guar_frame [OF on_host_frame [OF o]] spec.guar_frame [OF on_host_frame [OF s]]
    by (rule spec.guar_trans)
  show ?thesis
  proof (cases r1)
    case (Inl e)
    with assms(3) o s g1 show ?thesis by (simp add: loadIndexKey_def)
  next
    case (Inr sl)
    let ?row = "\<lparr>k_name = indexKeyName, k_key_id = s_key_id sl, k_wrapped = s_wrapped sl,
      k_ciphertext = s_ciphertext sl\<rparr>"
    have "sealed_key ?row = sl" by (simp add: sealed_key_def)
    then have "G (sealed_key ?row) indexKeyAAD p"
      using s Inr trusted_Seal [OF assms(1)] by (auto simp: on_host_def simp del: o_apply split: prod.splits)
    then have ok: "spec.stmt_ok C ix G (\<lambda>_. True) (sql_insert_key ?row)"
      unfolding spec.stmt_ok_def by (blast intro: r_into_rtranclp commit.claim)
    obtain r2 w2 where i: "pool_exec (sql_insert_key ?row) w1 = (r2, w2)" by (metis surj_pair)
    note rl1 = spec.guar_rely [OF g1 assms(2)]
    note g2 = spec.guar_trans [OF g1 spec.guar_pool_exec [OF rl1 spec.stable_True TrueI ok i]]
    obtain r3 w3 where q: "pool_exec (sql_select_key indexKeyName) w2 = (r3, w3)" by (metis surj_pair)
    have "spec.guar C ix G w2 w3"
      by (rule guar_query [OF spec.guar_rely [OF g2 assms(2)] _ q]) (auto dest: sql_select_key_Inr)
    note g3 = spec.guar_trans [OF g2 this]
    have g4: "spec.guar C ix G w w4" if "on_host (Open C env (sealed_key k) indexKeyAAD) w3 = (r4, w4)" for k r4 w4
      by (rule spec.guar_trans [OF g3 spec.guar_frame [OF on_host_frame [OF that]]])
    show ?thesis
      using assms(3) o s Inr i q g2 g3
      by (auto simp: loadIndexKey_def split: sum.splits prod.splits dest: g4)
  qed
qed

section \<open>The operations\<close>

lemma guar_PutMany:
  assumes "trusted C G (st_env st)" and "spec.rely C (st_index st) G w"
    and "PutMany C st actor c items w = (x, w')"
  shows "spec.guar C (st_index st) G w w'"
proof -
  obtain x1 w1 where r: "in_tx (try_each (put_item C st actor c) items) w = (x1, w1)" by (metis surj_pair)
  have "spec.body_ok C (st_index st) G (\<lambda>_. True) (try_each (put_item C st actor c) items)"
    by (intro spec.body_ok_try_each put_item_body assms(1))
  from spec.guar_in_tx [OF assms(2) spec.stable_True TrueI this r]
  have "spec.guar C (st_index st) G w w1" .
  with assms(3) r show ?thesis
    by (auto simp: PutMany_def intro: spec.guar_emit split: sum.splits)
qed

lemma guar_Delete:
  assumes "spec.rely C ix G w" and "Delete st actor c oid w = (x, w')"
  shows "spec.guar C ix G w w'"
proof -
  obtain x1 w1 where r: "in_tx (delete_in_tx actor c oid) w = (x1, w1)" by (metis surj_pair)
  from spec.guar_in_tx [OF assms(1) spec.stable_True TrueI delete_body r]
  have "spec.guar C ix G w w1" .
  with assms(2) r show ?thesis
    by (auto simp: Delete_def intro: spec.guar_emit split: sum.splits)
qed

lemma guar_DeleteSubject:
  assumes "spec.rely C ix G w" and "DeleteSubject st actor subject w = (x, w')"
  shows "spec.guar C ix G w w'"
proof -
  obtain x1 w1 where r: "in_tx (delete_subject_in_tx actor subject) w = (x1, w1)" by (metis surj_pair)
  from spec.guar_in_tx [OF assms(1) spec.stable_True TrueI delete_subject_body r]
  have "spec.guar C ix G w w1" .
  with assms(2) r show ?thesis
    by (auto simp: DeleteSubject_def intro: spec.guar_emit split: sum.splits)
qed

lemma guar_GetMany:
  assumes "spec.rely C ix G w" and "GetMany C st c ids w = (x, w')"
  shows "spec.guar C ix G w w'"
proof -
  let ?q = "sql_select_objects (\<lambda>r. o_collection r = c \<and> o_id r \<in> set ids \<and> \<not> o_deleted r)"
  obtain r w1 where q: "pool_exec ?q w = (r, w1)" by (rule prod.exhaust)
  have g: "spec.guar C ix G w w1"
    by (rule guar_query [OF assms(1) _ q]) (auto simp: sql_select_objects_def)
  show ?thesis
  proof (cases r)
    case (Inl e)
    with assms(2) q g show ?thesis by (simp add: GetMany_def)
  next
    case (Inr rows)
    obtain r2 w2 where o: "on_host (OpenMany C (st_env st)
        (map (\<lambda>r. (sealed_of r, aad c (o_id r))) rows)) w1 = (r2, w2)" by (rule prod.exhaust)
    then have "spec.guar C ix G w1 w2" by (intro spec.guar_frame on_host_frame)
    with g have "spec.guar C ix G w w2" by (rule spec.guar_trans)
    with assms(2) q Inr o show ?thesis by (cases r2) (auto simp: GetMany_def)
  qed
qed

lemma guar_Search:
  assumes "spec.rely C ix G w" and "Search C st c f v after w = (x, w')"
  shows "spec.guar C ix G w w'"
  using assms(2) unfolding Search_def Let_def
  by (rule guar_query [OF assms(1), rotated]) (auto simp: sql_select_index_def)

lemma guar_Subject:
  assumes "spec.rely C ix G w" and "Subject subject w = (x, w')"
  shows "spec.guar C ix G w w'"
proof -
  let ?q = "sql_select_objects (\<lambda>r. o_subject r = Some subject \<and> \<not> o_deleted r)"
  obtain r w1 where q: "pool_exec ?q w = (r, w1)" by (metis surj_pair)
  have "spec.guar C ix G w w1"
    by (rule guar_query [OF assms(1) _ q]) (auto simp: sql_select_objects_def)
  with assms(2) q show ?thesis by (cases r) (auto simp: Subject_def)
qed

lemma guar_AuditMany:
  assumes "spec.rely C ix G w" and "AuditMany st es w = (x, w')"
  shows "spec.guar C ix G w w'"
proof -
  obtain r w1 where q: "pool_exec (sql_insert_audit (map audit_row_of es)) w = (r, w1)" by (metis surj_pair)
  have "spec.stmt_ok C ix G (\<lambda>_. True) (sql_insert_audit (map audit_row_of es))"
    unfolding spec.stmt_ok_def by (auto intro: commit.note_read)
  from spec.guar_pool_exec [OF assms(1) spec.stable_True TrueI this q]
  have "spec.guar C ix G w w1" .
  with assms(2) q show ?thesis
    by (auto simp: AuditMany_def intro: spec.guar_emit split: if_splits sum.splits)
qed

lemma guar_Reindex:
  assumes "spec.rely C (st_index st) G w" and "db_ok G (w_db w)"
    and "Reindex n C st actor c indexed w = (x, w')"
  shows "spec.guar C (st_index st) G w w'"
  using assms(3) unfolding Reindex_def
proof (rule spec.guar_page_loop [OF _ _ _ stable_db_ok assms(1,2), rotated -1])
  fix r ds w x w'
  assume "spec.rely C (st_index st) G w" "known G r (w_db w)"
    "reindex_row C st actor indexed r ds w = (x, w')"
  then show "spec.guar C (st_index st) G w w'" by (rule guar_reindex_row)
next
  fix r
  show "spec.stable C (st_index st) G (known G r)" by (rule stable_known)
next
  fix r d cur
  assume "r \<in> set (objects d)" "db_ok G d" "reindex_sel c cur r"
  then show "known G r d" by (simp add: known_start reindex_sel_def)
qed

lemma guar_Rotate:
  assumes "trusted C G (st_env st)" and "definite G" and "spec.rely C ix G w" and "db_ok G (w_db w)"
    and "Rotate n st w = (x, w')"
  shows "spec.guar C ix G w w'"
proof -
  obtain r1 w1 where k: "rotate_index_key st w = (r1, w1)" by (metis surj_pair)
  note g1 = guar_rotate_index_key [OF assms(1-4) k]
  note ok1 = spec.stable_guar [OF stable_db_ok g1 assms(4)] and rl1 = spec.guar_rely [OF g1 assms(3)]
  show ?thesis
  proof (cases r1)
    case (Inl e)
    with assms(5) k g1 show ?thesis by (simp add: Rotate_def)
  next
    case (Inr m)
    have "page_loop n (rotate_sel (CurrentKeyID (st_env st)) (RewrapsInPlace (st_env st)))
        (rotate_row st) [] (m, 0) w1 = (x, w')"
      using assms(5) k Inr by (simp add: Rotate_def)
    then have "spec.guar C ix G w1 w'"
    proof (rule spec.guar_page_loop [OF _ _ _ stable_db_ok rl1 ok1, rotated -1])
      fix r ds w x w'
      assume "spec.rely C ix G w" "known G r (w_db w)" "rotate_row st r ds w = (x, w')"
      then show "spec.guar C ix G w w'" by (rule guar_rotate_row [OF assms(1,2)])
    next
      fix r
      show "spec.stable C ix G (known G r)" by (rule stable_known)
    next
      fix r d cur
      assume "r \<in> set (objects d)" "db_ok G d"
        "rotate_sel (CurrentKeyID (st_env st)) (RewrapsInPlace (st_env st)) cur r"
      then show "known G r d" by (simp add: known_start rotate_sel_def)
    qed
    with g1 show ?thesis by (rule spec.guar_trans)
  qed
qed

end
