(* ===== verification/EnvelopeLaws.thy ===== *)
theory EnvelopeLaws
  imports Envelope
begin

text \<open>
  What envelope encryption promises. The contract of the \<open>Wrapper\<close> interface is a locale; the
  lemmas about sealing, opening and re-wrapping are proved inside it, once for every wrapper, and
  the local wrapper is an interpretation of it.
\<close>

section \<open>Blobs\<close>

lemma open_seal_blob:
  assumes "aead_correct C" and "length key = KeySize" and "seal_blob C key p aad w = (b, w1)"
  shows "open_blob C key b aad = Inr p"
proof -
  from assms(3) obtain nonce where n: "rand_read NonceSize w = (nonce, w1)"
    and b: "b = nonce @ aead_seal C key nonce p aad"
    by (auto simp: seal_blob_def split: prod.splits)
  then have "length nonce = NonceSize" by (auto dest: rand_read_length)
  with assms(1,2) b show ?thesis by (simp add: open_blob_def aead_correct_def)
qed

lemma seal_blob_frame:
  "seal_blob C key p aad w = (b, w1) \<Longrightarrow> service w1 = service w \<and> ranges w1 = ranges w"
  by (auto simp: seal_blob_def dest: rand_read_frame split: prod.splits)

lemma open_blob_binding:
  assumes "aead_correct C" and "aead_binding C" and "length key = KeySize"
    and "seal_blob C key p aad w = (b, w1)" and "open_blob C key' b aad' = Inr p'"
  shows "key' = key \<and> aad' = aad \<and> p' = p"
proof -
  from assms(4) obtain nonce where n: "rand_read NonceSize w = (nonce, w1)"
    and b: "b = nonce @ aead_seal C key nonce p aad"
    by (auto simp: seal_blob_def split: prod.splits)
  then have len: "length nonce = NonceSize" by (auto dest: rand_read_length)
  with assms(5) b have op: "aead_open C key' nonce (aead_seal C key nonce p aad) aad' = Some p'"
    by (auto simp: open_blob_def split: if_splits option.splits)
  with assms(2) have "key' = key" and "aad' = aad" unfolding aead_binding_def by blast+
  with op len assms(1,3) show ?thesis by (simp add: aead_correct_def)
qed

text \<open>What is shredded, a wrapped key that is nil, opens under no local key.\<close>

lemma open_blob_nil [simp]: "open_blob C key [] aad = Inl ErrOpen"
  by (simp add: open_blob_def NonceSize_def)

section \<open>The contract of a wrapper\<close>

text \<open>
  A family of wrappers \<open>mk c\<close>, one per configuration. \<open>usable c k\<close> says that the backend, in
  state \<open>k\<close>, can be reached and keeps its promises to configuration \<open>c\<close>; \<open>holds c k x dek aad\<close>
  that \<open>x\<close> is a wrapped form of \<open>dek\<close> for the row \<open>aad\<close>. Wrapping makes such a form, for the
  rows a wrapper \<open>takes\<close>, and unwrapping reads it back; neither spoils the forms made before.
\<close>

locale wrapper_contract =
  fixes mk :: "'c \<Rightarrow> 'k host wrapper"
    and usable :: "'c \<Rightarrow> 'k \<Rightarrow> bool"
    and takes :: "bytes \<Rightarrow> bool"
    and holds :: "'c \<Rightarrow> 'k \<Rightarrow> bytes \<Rightarrow> bytes \<Rightarrow> bytes \<Rightarrow> bool"
  assumes wrap: "\<lbrakk>usable c (service w); length dek = KeySize; takes aad\<rbrakk> \<Longrightarrow>
      \<exists>x w1. w_wrap (mk c) dek aad w = (Inr x, w1) \<and> holds c (service w1) x dek aad"
    and wrap_usable: "\<lbrakk>w_wrap (mk c) dek aad w = (r, w1); usable c (service w)\<rbrakk> \<Longrightarrow>
      usable c (service w1)"
    and wrap_keeps: "\<lbrakk>w_wrap (mk c) dek aad w = (r, w1); holds c (service w) y dek' aad'\<rbrakk> \<Longrightarrow>
      holds c (service w1) y dek' aad'"
    and unwrap: "\<lbrakk>usable c (service w); holds c (service w) x dek aad\<rbrakk> \<Longrightarrow>
      \<exists>w1. w_unwrap (mk c) x aad w = (Inr dek, w1)"
    and unwrap_usable: "\<lbrakk>w_unwrap (mk c) x aad w = (r, w1); usable c (service w)\<rbrakk> \<Longrightarrow>
      usable c (service w1)"
    and unwrap_keeps: "\<lbrakk>w_unwrap (mk c) x aad w = (r, w1); holds c (service w) y dek' aad'\<rbrakk> \<Longrightarrow>
      holds c (service w1) y dek' aad'"
begin

definition opens_to :: "crypto \<Rightarrow> 'c \<Rightarrow> 'k \<Rightarrow> sealed \<Rightarrow> bytes \<Rightarrow> bytes \<Rightarrow> bool" where
  "opens_to C c k s aad p \<longleftrightarrow>
     s_key_id s = w_id (mk c :: 'k host wrapper)
     \<and> (\<exists>dek. length dek = KeySize \<and> holds c k (s_wrapped s) dek aad
              \<and> openWithDEK C dek (s_ciphertext s) aad = Inr p)"

definition loaded :: "'k host envelope \<Rightarrow> 'c \<Rightarrow> bool" where
  "loaded e c \<longleftrightarrow> map_of (env_all e) (w_id (mk c)) = Some (mk c)"

lemma Seal_opens_to:
  assumes "env_current e = mk c" and "usable c (service w)" and "aead_correct C" and "takes aad"
  shows "\<exists>s w1. Seal C e p aad w = (Inr s, w1) \<and> opens_to C c (service w1) s aad p
                \<and> usable c (service w1)"
proof -
  obtain dek w1 where r: "rand_read KeySize w = (dek, w1)" by (cases "rand_read KeySize w")
  then have len: "length dek = KeySize" and sv: "service w1 = service w"
    by (auto dest: rand_read_length rand_read_frame)
  with assms(2) obtain x w2 where wr: "w_wrap (mk c) dek aad w1 = (Inr x, w2)"
    and h: "holds c (service w2) x dek aad"
    using wrap [of c w1 dek aad] assms(4) by auto
  obtain ct w3 where ct: "seal_blob C dek p aad w2 = (ct, w3)" by (cases "seal_blob C dek p aad w2")
  then have sv3: "service w3 = service w2" by (simp add: seal_blob_frame)
  have us: "usable c (service w2)" using wrap_usable [OF wr] assms(2) sv by simp
  have "openWithDEK C dek ct aad = Inr p"
    using open_seal_blob [OF assms(3) len ct] len by (simp add: openWithDEK_def)
  with r wr ct h len sv3 us assms(1) show ?thesis
    by (auto simp: Seal_def opens_to_def)
qed

lemma Open_opens_to:
  assumes "loaded e c" and "usable c (service w)" and "opens_to C c (service w) s aad p"
  shows "\<exists>w1. Open C e s aad w = (Inr p, w1)"
proof -
  from assms(3) obtain dek where len: "length dek = KeySize"
    and h: "holds c (service w) (s_wrapped s) dek aad"
    and o: "openWithDEK C dek (s_ciphertext s) aad = Inr p" and id: "s_key_id s = w_id (mk c)"
    by (auto simp: opens_to_def)
  from unwrap [OF assms(2) h] obtain w1 where "w_unwrap (mk c) (s_wrapped s) aad w = (Inr dek, w1)"
    by auto
  with assms(1) len o id show ?thesis by (simp add: Open_def unwrap_dek_def loaded_def)
qed

lemma seal_then_open:
  assumes "env_current e = mk c" and "loaded e c" and "usable c (service w)" and "aead_correct C" and "takes aad"
  shows "\<exists>s w1 w2. Seal C e p aad w = (Inr s, w1) \<and> Open C e s aad w1 = (Inr p, w2)"
proof -
  obtain s w1 where s: "Seal C e p aad w = (Inr s, w1)" and o: "opens_to C c (service w1) s aad p"
    and u: "usable c (service w1)"
    using Seal_opens_to [OF assms(1,3,4,5)] by blast
  with Open_opens_to [OF assms(2) u o] show ?thesis by blast
qed

lemma new_envelope_loaded: "loaded (new_envelope (mk c) ps) c"
proof -
  have "map_of (add_previous m ps) k = Some v"
    if "map_of m k = Some v" for m k and v :: "'k host wrapper"
    using that
  proof (induction ps arbitrary: m)
    case (Cons q ps)
    show ?case
    proof (cases "map_of m (w_id q)")
      case None
      with Cons.prems have "k \<noteq> w_id q" by auto
      with Cons None show ?thesis by (simp add: AList.update_conv')
    qed (use Cons in simp)
  qed simp
  then show ?thesis by (simp add: loaded_def new_envelope_def)
qed

end

text \<open>
  Re-wrapping moves a value from one wrapper to another, which may be of another kind: rotation of
  a local master key, or migration from a local master key to a key service.
\<close>

locale rewrap_contract =
  old: wrapper_contract mk usable takes holds + new: wrapper_contract mk' usable' takes' holds'
  for mk :: "'c \<Rightarrow> 'k host wrapper" and usable takes holds
    and mk' :: "'d \<Rightarrow> 'k host wrapper" and usable' takes' holds' +
  assumes old_keeps_new: "\<lbrakk>w_unwrap (mk c) x aad w = (r, w1); usable' d (service w)\<rbrakk> \<Longrightarrow>
      usable' d (service w1)"
begin

lemma Rewrap_opens_to:
  assumes "old.loaded e c" and "env_current e = mk' d"
    and other: "w_id (mk c) \<noteq> w_id (mk' d)"
    and "usable c (service w)" and "usable' d (service w)"
    and "old.opens_to C c (service w) s aad p" and "takes' aad"
  shows "\<exists>s' w1. Rewrap e s aad w = (Inr (s', True), w1)
           \<and> s_ciphertext s' = s_ciphertext s
           \<and> new.opens_to C d (service w1) s' aad p \<and> usable' d (service w1)"
proof -
  from assms(6) obtain dek where len: "length dek = KeySize"
    and h: "holds c (service w) (s_wrapped s) dek aad"
    and o: "openWithDEK C dek (s_ciphertext s) aad = Inr p" and id: "s_key_id s = w_id (mk c)"
    by (auto simp: old.opens_to_def)
  from old.unwrap [OF assms(4) h] obtain w1
    where u: "w_unwrap (mk c) (s_wrapped s) aad w = (Inr dek, w1)" by auto
  from u assms(5) have us: "usable' d (service w1)" by (rule old_keeps_new)
  from new.wrap [OF this len assms(7)] obtain x w2
    where x: "w_wrap (mk' d) dek aad w1 = (Inr x, w2)" "holds' d (service w2) x dek aad"
    by blast
  note us2 = new.wrap_usable [OF x(1) us]
  from u assms(1) len id have "unwrap_dek e s aad w = (Inr dek, w1)"
    by (simp add: unwrap_dek_def old.loaded_def)
  with x us2 assms(2) other id len o show ?thesis
    by (auto simp: Rewrap_def new.opens_to_def)
qed

end

section \<open>The local wrapper keeps the contract\<close>

text \<open>A configuration is the primitives and the master key.\<close>

definition local_usable :: "crypto \<times> bytes \<Rightarrow> 'k \<Rightarrow> bool" where
  "local_usable c k \<longleftrightarrow> aead_correct (fst c) \<and> length (snd c) = KeySize"

definition local_holds :: "crypto \<times> bytes \<Rightarrow> 'k \<Rightarrow> bytes \<Rightarrow> bytes \<Rightarrow> bytes \<Rightarrow> bool" where
  "local_holds c k x dek aad \<longleftrightarrow> open_blob (fst c) (snd c) x aad = Inr dek"

definition mk_local :: "crypto \<times> bytes \<Rightarrow> 'k host wrapper" where
  "mk_local c = local_wrapper (fst c) (snd c)"

lemma local_unwrap_world: "snd (local_unwrap C kek x aad w) = w"
  by (simp add: local_unwrap_def split: sum.splits)

lemma local_wrap_service: "service (snd (local_wrap C kek dek aad w)) = service w"
  by (auto simp: local_wrap_def dest: seal_blob_frame split: prod.splits)

interpretation local_key: wrapper_contract mk_local local_usable "\<lambda>_. True" local_holds
proof (unfold_locales, goal_cases)
  case (1 c w dek aad)
  obtain b w1 where b: "seal_blob (fst c) (snd c) dek aad w = (b, w1)"
    by (cases "seal_blob (fst c) (snd c) dek aad w")
  with 1 have "open_blob (fst c) (snd c) b aad = Inr dek"
    by (intro open_seal_blob) (auto simp: local_usable_def)
  with b show ?case
    by (auto simp: mk_local_def local_wrapper_def local_wrap_def local_holds_def)
next
  case (4 c w x dek aad)
  then show ?case
    by (simp add: mk_local_def local_wrapper_def local_unwrap_def local_holds_def)
qed (auto simp: mk_local_def local_usable_def local_holds_def)

interpretation local_rotation: rewrap_contract
  mk_local local_usable "\<lambda>_. True" local_holds mk_local local_usable "\<lambda>_. True" local_holds
  by unfold_locales (auto simp: local_usable_def)

end
