(* ===== verification/EnvelopeBatch.thy ===== *)
theory EnvelopeBatch
  imports EnvelopeLaws
begin

text \<open>
  \<open>OpenMany\<close> groups its inputs by wrapper to save round trips. This theory shows what the
  grouping does: it returns, position by position, what \<open>Open\<close> returns, whatever order Go visits
  the groups in, unless a wrapper that unwraps a group in one call refuses one of its keys.
\<close>

section \<open>The grouping is a partition\<close>

definition groups_of :: "(sealed \<times> bytes) list \<Rightarrow> nat \<Rightarrow> nat list gomap \<Rightarrow> bool" where
  "groups_of items n m \<longleftrightarrow>
     gomap_ok m
     \<and> (\<forall>(k, idx) \<in> set m. \<forall>i \<in> set idx. i < n \<and> s_key_id (fst (items ! i)) = k)
     \<and> (\<forall>i < n. \<exists>(k, idx) \<in> set m. i \<in> set idx)"

lemma groups_of_step:
  assumes g: "groups_of items n m" and k: "k = s_key_id (fst (items ! n))"
  shows "groups_of items (Suc n)
           (AList.update k ((case map_of m k of None \<Rightarrow> [] | Some js \<Rightarrow> js) @ [n]) m)"
proof -
  define js where "js = (case map_of m k of None \<Rightarrow> [] | Some js \<Rightarrow> js)"
  define M where "M = AList.update k (js @ [n]) m"
  have ok: "gomap_ok m" using g by (simp add: groups_of_def)
  then have ok': "gomap_ok M" unfolding M_def by (rule distinct_update)
  have M: "(k', idx) \<in> set M \<longleftrightarrow> (if k' = k then idx = js @ [n] else (k', idx) \<in> set m)" for k' idx
    using map_of_eq_Some_iff [OF ok', of k' idx] map_of_eq_Some_iff [OF ok, of k' idx]
    by (auto simp: M_def AList.update_conv')
  have old: "i < n \<and> s_key_id (fst (items ! i)) = k'" if "(k', is) \<in> set m" "i \<in> set is" for k' "is" i
    using that g unfolding groups_of_def by blast
  have js: "i < n \<and> s_key_id (fst (items ! i)) = k" if "i \<in> set js" for i
    using that old [of k _ i] ok by (auto simp: js_def split: option.splits)
  have new: "i < Suc n \<and> s_key_id (fst (items ! i)) = k'"
    if e: "(k', idx) \<in> set M" and i: "i \<in> set idx" for k' idx i
    using that js [of i] old [of k' idx i] k unfolding M by (auto split: if_splits)
  have cover: "\<exists>k' idx. (k', idx) \<in> set M \<and> i \<in> set idx" if "i < Suc n" for i
  proof (cases "i = n")
    case True
    have "(k, js @ [n]) \<in> set M" and "n \<in> set (js @ [n])" by (simp_all add: M)
    with True show ?thesis by blast
  next
    case False
    with that have "i < n" by simp
    with g have "\<exists>(k', idx) \<in> set m. i \<in> set idx" unfolding groups_of_def by blast
    then obtain k' idx where e: "(k', idx) \<in> set m" "i \<in> set idx" by auto
    show ?thesis
    proof (cases "k' = k")
      case True
      with e ok have "js = idx" by (simp add: js_def)
      with e have "(k, js @ [n]) \<in> set M" and "i \<in> set (js @ [n])" by (simp_all add: M)
      then show ?thesis by blast
    next
      case False
      with e have "(k', idx) \<in> set M" by (simp add: M)
      with e(2) show ?thesis by blast
    qed
  qed
  from ok' new cover have "groups_of items (Suc n) M" unfolding groups_of_def by blast
  then show ?thesis by (simp add: M_def js_def)
qed

lemma by_key_groups:
  assumes "items = pre @ rest" and "groups_of items (length pre) m"
  shows "groups_of items (length items) (by_key (length pre) rest m)"
  using assms
proof (induction rest arbitrary: pre m)
  case Nil
  then show ?case by simp
next
  case (Cons sa rest)
  obtain s a where sa: "sa = (s, a)" by (cases sa)
  with Cons.prems have it: "items = (pre @ [sa]) @ rest" and k: "s_key_id s = s_key_id (fst (items ! length pre))"
    by simp_all
  from Cons.IH [OF it] groups_of_step [OF Cons.prems(2) k] show ?case by (simp add: sa)
qed

lemma groups_complete: "groups_of items (length items) (by_key 0 items [])"
  using by_key_groups [of items "[]" items "[]"] by (simp add: groups_of_def)

section \<open>One group\<close>

definition opened :: "crypto \<Rightarrow> 'w envelope \<Rightarrow> 'w \<Rightarrow> sealed \<times> bytes \<Rightarrow> bytes result" where
  "opened C e w item = fst (Open C e (fst item) (snd item) w)"

text \<open>A value under a wrapper with batches, whose key that wrapper does not unwrap.\<close>

definition refused :: "'w envelope \<Rightarrow> 'w \<Rightarrow> sealed \<times> bytes \<Rightarrow> bool" where
  "refused e w item \<longleftrightarrow>
     (\<exists>wr. map_of (env_all e) (s_key_id (fst item)) = Some wr \<and> w_unwrap_many wr \<noteq> None
        \<and> \<not> is_ok (fst (w_unwrap wr (s_wrapped (fst item)) (snd item) w)))"

lemma Open_unknown:
  "map_of (env_all e) (s_key_id s) = None \<Longrightarrow> Open C e s a w = (Inl ErrUnknownKey, w)"
  by (simp add: Open_def unwrap_dek_def)

lemma put_opened_nth:
  assumes "\<forall>i \<in> set idx. i < length res"
  shows "length (put_opened C items (map (\<lambda>i. (i, g i)) idx) res) = length res \<and>
    (\<forall>j < length res. put_opened C items (map (\<lambda>i. (i, g i)) idx) res ! j =
       (if j \<in> set idx then open_unwrapped C (items ! j) (g j) else res ! j))"
  using assms
proof (induction idx arbitrary: res)
  case Nil
  show ?case by simp
next
  case (Cons i idx)
  let ?r = "res[i := open_unwrapped C (items ! i) (g i)]"
  from Cons.prems have "\<forall>i \<in> set idx. i < length ?r" by simp
  from Cons.IH [OF this] show ?case by (auto simp: nth_list_update)
qed

lemma fold_unknown_nth:
  "length (fold (\<lambda>i r. r[i := x]) idx res) = length res \<and>
   (\<forall>j < length res. fold (\<lambda>i r. r[i := x]) idx res ! j = (if j \<in> set idx then x else res ! j))"
proof (induction idx arbitrary: res)
  case Nil
  show ?case by simp
next
  case (Cons i idx)
  from Cons.IH [of "res[i := x]"] show ?case by (auto simp: nth_list_update)
qed

text \<open>
  Wrappers whose backend answers. Unwrapping is a function of its arguments whatever state the
  world is in, every refusal is \<open>ErrOpen\<close>, and a batch gives that function on each element, or
  fails with \<open>ErrOpen\<close> when it refuses one of them. \<open>moves w w'\<close> is what a call may do to the world.
\<close>

locale steady_backend =
  fixes moves :: "'k host \<Rightarrow> 'k host \<Rightarrow> bool"
  assumes moves_refl: "moves w w"
    and moves_trans: "moves u v \<Longrightarrow> moves v w \<Longrightarrow> moves u w"
begin

definition answers :: "(bytes \<Rightarrow> bytes \<Rightarrow> bytes result) \<Rightarrow> 'k host wrapper \<Rightarrow> bool" where
  "answers f wr \<longleftrightarrow>
     (\<forall>x a w. fst (w_unwrap wr x a w) = f x a \<and> moves w (snd (w_unwrap wr x a w)))
     \<and> (\<forall>x a e. f x a = Inl e \<longrightarrow> errors_is e ErrOpen)
     \<and> (\<forall>um reqs w. w_unwrap_many wr = Some um \<longrightarrow> moves w (snd (um reqs w))
          \<and> (if \<forall>(x, a) \<in> set reqs. is_ok (f x a) then fst (um reqs w) = Inr (map (\<lambda>(x, a). f x a) reqs)
             else \<exists>e. fst (um reqs w) = Inl e \<and> errors_is e ErrOpen))"

definition answering :: "'k host envelope \<Rightarrow> bool" where
  "answering e \<longleftrightarrow> (\<forall>k wr. map_of (env_all e) k = Some wr \<longrightarrow> (\<exists>f. answers f wr))"

lemma unwrap_each_answers:
  assumes "answers f wr"
  shows "moves w (snd (unwrap_each wr reqs w)) \<and> fst (unwrap_each wr reqs w) = Inr (map (\<lambda>(x, a). f x a) reqs)"
proof (induction reqs arbitrary: w)
  case Nil
  show ?case by (simp add: moves_refl)
next
  case (Cons xa reqs)
  obtain x a where xa: "xa = (x, a)" by (cases xa)
  have "fst (w_unwrap wr x a w) = f x a \<and> moves w (snd (w_unwrap wr x a w))"
    using assms by (simp add: answers_def)
  then obtain w1 where u: "w_unwrap wr x a w = (f x a, w1)" "moves w w1"
    by (cases "w_unwrap wr x a w") auto
  obtain w2 where r: "unwrap_each wr reqs w1 = (Inr (map (\<lambda>(x, a). f x a) reqs), w2)" and "moves w1 w2"
    using Cons.IH [of w1] by (cases "unwrap_each wr reqs w1") auto
  with u(2) have m: "moves w w2" by (blast intro: moves_trans)
  show ?case
  proof (cases "f x a")
    case (Inl e)
    with assms have "errors_is e ErrOpen" by (simp add: answers_def)
    with Inl u(1) r m show ?thesis by (simp add: xa)
  next
    case (Inr dek)
    with u(1) r m show ?thesis by (simp add: xa)
  qed
qed

lemma unwrap_group_answers:
  assumes "answers f wr"
  shows "moves w (snd (unwrap_group wr reqs w))
    \<and> (if w_unwrap_many wr \<noteq> None \<and> (\<exists>(x, a) \<in> set reqs. \<not> is_ok (f x a))
       then \<exists>e. fst (unwrap_group wr reqs w) = Inl e \<and> errors_is e ErrOpen
       else fst (unwrap_group wr reqs w) = Inr (map (\<lambda>(x, a). f x a) reqs))"
proof (cases "w_unwrap_many wr")
  case None
  with unwrap_each_answers [OF assms, of w reqs] show ?thesis by (simp add: unwrap_group_def)
next
  case (Some um)
  with assms have "moves w (snd (um reqs w))
      \<and> (if \<forall>(x, a) \<in> set reqs. is_ok (f x a) then fst (um reqs w) = Inr (map (\<lambda>(x, a). f x a) reqs)
         else \<exists>e. fst (um reqs w) = Inl e \<and> errors_is e ErrOpen)"
    by (simp add: answers_def)
  moreover have "(\<exists>(x, a) \<in> set reqs. \<not> is_ok (f x a)) \<longleftrightarrow> \<not> (\<forall>(x, a) \<in> set reqs. is_ok (f x a))" by auto
  ultimately show ?thesis using Some by (auto simp: unwrap_group_def)
qed

lemma Open_answers:
  assumes "map_of (env_all e) (s_key_id (fst item)) = Some wr" and "answers f wr"
  shows "opened C e w item = open_unwrapped C item (f (s_wrapped (fst item)) (snd item))"
    and "refused e w item \<longleftrightarrow> w_unwrap_many wr \<noteq> None \<and> \<not> is_ok (f (s_wrapped (fst item)) (snd item))"
proof -
  obtain w1 where "w_unwrap wr (s_wrapped (fst item)) (snd item) w = (f (s_wrapped (fst item)) (snd item), w1)"
    using assms(2) by (metis answers_def prod.collapse)
  with assms(1) show "opened C e w item = open_unwrapped C item (f (s_wrapped (fst item)) (snd item))"
    and "refused e w item \<longleftrightarrow> w_unwrap_many wr \<noteq> None \<and> \<not> is_ok (f (s_wrapped (fst item)) (snd item))"
    by (auto simp: opened_def Open_def unwrap_dek_def open_unwrapped_def openWithDEK_def refused_def
        split: sum.splits)
qed

lemma opened_steady:
  assumes "answering e"
  shows "opened C e w1 item = opened C e w item" and "refused e w1 item = refused e w item"
proof -
  have "opened C e w1 item = opened C e w item \<and> refused e w1 item = refused e w item"
  proof (cases "map_of (env_all e) (s_key_id (fst item))")
    case None
    then show ?thesis by (simp add: opened_def Open_unknown refused_def)
  next
    case (Some wr)
    with assms obtain f where "answers f wr" by (auto simp: answering_def)
    with Open_answers [OF Some this] show ?thesis by simp
  qed
  then show "opened C e w1 item = opened C e w item" and "refused e w1 item = refused e w item" by simp_all
qed

lemma open_group_answers:
  assumes env: "answering e" and idx: "\<forall>i \<in> set idx. i < length res \<and> s_key_id (fst (items ! i)) = k"
  shows "moves w (snd (open_group C e items (k, idx) res w))
    \<and> (if \<exists>i \<in> set idx. refused e w (items ! i)
       then \<exists>err. fst (open_group C e items (k, idx) res w) = Inl err \<and> errors_is err ErrOpen
       else \<exists>res'. fst (open_group C e items (k, idx) res w) = Inr res' \<and> length res' = length res
         \<and> (\<forall>j < length res. res' ! j = (if j \<in> set idx then opened C e w (items ! j) else res ! j)))"
proof (cases "map_of (env_all e) k")
  case None
  have "opened C e w (items ! j) = Inl ErrUnknownKey \<and> \<not> refused e w (items ! j)" if "j \<in> set idx" for j
    using that idx None by (simp add: opened_def Open_unknown refused_def)
  with None fold_unknown_nth [of "Inl ErrUnknownKey" idx res] show ?thesis
    by (auto simp: open_group_def moves_refl)
next
  case (Some wr)
  with env obtain f where f: "answers f wr" by (auto simp: answering_def)
  let ?g = "\<lambda>i. f (s_wrapped (fst (items ! i))) (snd (items ! i))"
  let ?reqs = "map (\<lambda>i. (s_wrapped (fst (items ! i)), snd (items ! i))) idx"
  have one: "opened C e w (items ! j) = open_unwrapped C (items ! j) (?g j)"
    "refused e w (items ! j) \<longleftrightarrow> w_unwrap_many wr \<noteq> None \<and> \<not> is_ok (?g j)" if "j \<in> set idx" for j
    using that idx Some Open_answers [OF _ f, of e "items ! j"] by simp_all
  have some: "(\<exists>i \<in> set idx. refused e w (items ! i))
      \<longleftrightarrow> w_unwrap_many wr \<noteq> None \<and> (\<exists>(x, a) \<in> set ?reqs. \<not> is_ok (f x a))"
    using one(2) by auto
  obtain r w1 where ug: "unwrap_group wr ?reqs w = (r, w1)" by (metis surj_pair)
  have ua: "moves w w1 \<and> (if \<exists>i \<in> set idx. refused e w (items ! i) then \<exists>e. r = Inl e \<and> errors_is e ErrOpen
      else r = Inr (map (\<lambda>(x, a). f x a) ?reqs))"
    unfolding some by (rule unwrap_group_answers [OF f, of w ?reqs, unfolded ug fst_conv snd_conv])
  then have m: "moves w w1" by (rule conjunct1)
  have r: "if \<exists>i \<in> set idx. refused e w (items ! i) then \<exists>e. r = Inl e \<and> errors_is e ErrOpen
      else r = Inr (map ?g idx)"
    using conjunct2 [OF ua] by (simp only: map_map comp_def prod.case)
  show ?thesis
  proof (cases "\<exists>i \<in> set idx. refused e w (items ! i)")
    case True
    with r Some ug m show ?thesis by (auto simp: open_group_def)
  next
    case False
    with r have r: "r = Inr (map ?g idx)" by (simp only: if_False)
    have z: "zip idx (map ?g idx) = map (\<lambda>i. (i, ?g i)) idx"
      by (simp add: map_zip_map2 [symmetric] zip_map2 zip_same_conv_map)
    have "open_group C e items (k, idx) res w = (Inr (put_opened C items (map (\<lambda>i. (i, ?g i)) idx) res), w1)"
      using Some ug r z by (simp add: open_group_def)
    with put_opened_nth [of idx res C items ?g] idx one(1) m False show ?thesis by simp
  qed
qed

lemma open_groups_answers:
  assumes "answering e"
    and "\<forall>(k, idx) \<in> set gs. \<forall>i \<in> set idx. i < length res \<and> s_key_id (fst (items ! i)) = k"
  shows "moves w (snd (open_groups C e items gs res w))
    \<and> (if \<exists>(k, idx) \<in> set gs. \<exists>i \<in> set idx. refused e w (items ! i)
       then \<exists>err. fst (open_groups C e items gs res w) = Inl err \<and> errors_is err ErrOpen
       else \<exists>res'. fst (open_groups C e items gs res w) = Inr res' \<and> length res' = length res
         \<and> (\<forall>j < length res. res' ! j =
             (if \<exists>(k, idx) \<in> set gs. j \<in> set idx then opened C e w (items ! j) else res ! j)))"
  using assms(2)
proof (induction gs arbitrary: res w)
  case Nil
  show ?case by (simp add: moves_refl)
next
  case (Cons g gs)
  obtain k idx where g: "g = (k, idx)" by (cases g)
  with Cons.prems have i: "\<forall>i \<in> set idx. i < length res \<and> s_key_id (fst (items ! i)) = k" by simp
  obtain r1 w1 where r1: "open_group C e items (k, idx) res w = (r1, w1)" by (metis surj_pair)
  note one = open_group_answers [OF assms(1) i, of w C, unfolded r1 fst_conv snd_conv]
  show ?case
  proof (cases "\<exists>i \<in> set idx. refused e w (items ! i)")
    case True
    with one obtain err where "r1 = Inl err" "errors_is err ErrOpen" by (auto simp only: if_True)
    with True r1 one g show ?thesis by auto
  next
    case False
    with one obtain res1 where res1: "r1 = Inr res1" "length res1 = length res"
      and n1: "\<forall>j < length res. res1 ! j = (if j \<in> set idx then opened C e w (items ! j) else res ! j)"
      by (auto simp only: if_False)
    from Cons.prems res1(2)
    have "\<forall>(k, idx) \<in> set gs. \<forall>i \<in> set idx. i < length res1 \<and> s_key_id (fst (items ! i)) = k" by simp
    note rest = Cons.IH [OF this, of w1, unfolded opened_steady [OF assms(1), where ?w1.0 = w1 and w = w] res1(2)]
    obtain r2 w2 where r2: "open_groups C e items gs res1 w1 = (r2, w2)" by (metis surj_pair)
    have all: "open_groups C e items (g # gs) res w = (r2, w2)" using r1 r2 res1 by (simp add: g)
    have m: "moves w w2" using one rest r2 moves_trans [of w w1 w2] by simp
    have cases': "(\<exists>(k, idx) \<in> set (g # gs). \<exists>i \<in> set idx. refused e w (items ! i))
        \<longleftrightarrow> (\<exists>(k, idx) \<in> set gs. \<exists>i \<in> set idx. refused e w (items ! i))" using False by (simp add: g)
    from rest [unfolded r2 fst_conv] m n1 show ?thesis
      unfolding all cases' fst_conv snd_conv by (auto simp: g split: if_splits)
  qed
qed

lemma OpenMany_answers:
  assumes "answering e"
  shows "moves w (snd (OpenMany C e items w))
    \<and> (if \<exists>item \<in> set items. refused e w item
       then \<exists>err. fst (OpenMany C e items w) = Inl err \<and> errors_is err ErrOpen
       else fst (OpenMany C e items w) = Inr (map (opened C e w) items))"
proof -
  let ?gs = "range_over (ranges w) (by_key 0 items [])" and ?res = "replicate (length items) (Inr []) :: bytes result list"
  have part: "groups_of items (length items) (by_key 0 items [])" by (rule groups_complete)
  then have set: "set ?gs = set (by_key 0 items [])" by (simp add: groups_of_def set_range_over)
  have idx: "\<forall>(k, idx) \<in> set ?gs. \<forall>i \<in> set idx. i < length ?res \<and> s_key_id (fst (items ! i)) = k"
    using part by (simp add: set groups_of_def)
  have cover: "\<exists>(k, idx) \<in> set ?gs. j \<in> set idx" if "j < length items" for j
    using part that by (simp add: set groups_of_def)
  have some: "(\<exists>(k, idx) \<in> set ?gs. \<exists>i \<in> set idx. refused e w (items ! i)) \<longleftrightarrow> (\<exists>item \<in> set items. refused e w item)"
    (is "?L \<longleftrightarrow> ?R")
  proof
    assume ?L
    then show ?R using idx by (fastforce simp: in_set_conv_nth)
  next
    assume ?R
    then obtain j where j: "j < length items" "refused e w (items ! j)" by (auto simp: in_set_conv_nth)
    with cover [OF j(1)] show ?L by blast
  qed
  note run = open_groups_answers [OF assms idx, of w C, unfolded some]
  show ?thesis
  proof (cases "\<exists>item \<in> set items. refused e w item")
    case True
    with run show ?thesis by (simp add: OpenMany_def)
  next
    case False
    with run obtain res where r: "fst (OpenMany C e items w) = Inr res" "length res = length items"
      and n: "\<forall>j < length items. res ! j =
        (if \<exists>(k, idx) \<in> set ?gs. j \<in> set idx then opened C e w (items ! j) else ?res ! j)"
      by (auto simp: OpenMany_def)
    have "res = map (opened C e w) items" using n r(2) cover by (intro nth_equalityI) auto
    with r(1) False run show ?thesis by (simp add: OpenMany_def)
  qed
qed

end

text \<open>Wrappers that leave the world alone, and wrappers whose backend may move.\<close>

interpretation unmoved: steady_backend "(=)"
  by unfold_locales simp_all

interpretation moving: steady_backend "\<lambda>_ _. True"
  by unfold_locales simp_all

text \<open>An envelope without a backend: nothing is refused as a whole and nothing moves.\<close>

definition pure_envelope :: "'k host envelope \<Rightarrow> bool" where
  "pure_envelope e \<longleftrightarrow> unmoved.answering e \<and> (\<forall>k wr. map_of (env_all e) k = Some wr \<longrightarrow> w_unwrap_many wr = None)"

lemma OpenMany_opened:
  assumes "pure_envelope e"
  shows "OpenMany C e items w = (Inr (map (opened C e w) items), w)"
proof -
  have "\<not> refused e w item" for item using assms by (auto simp: pure_envelope_def refused_def)
  with unmoved.OpenMany_answers [of e w C items] assms show ?thesis
    by (auto simp: pure_envelope_def intro: prod_eqI)
qed

lemma local_unwrap_fst: "fst (local_unwrap C k x a w) = (case open_blob C k x a of Inl _ \<Rightarrow> Inl ErrOpen | Inr dek \<Rightarrow> Inr dek)"
  by (simp add: local_unwrap_def split: sum.splits)

lemma pure_local:
  "unmoved.answers (\<lambda>x a. case open_blob C k x a of Inl _ \<Rightarrow> Inl ErrOpen | Inr dek \<Rightarrow> Inr dek) (local_wrapper C k)"
  by (auto simp: unmoved.answers_def local_wrapper_def local_unwrap_fst local_unwrap_world split: sum.splits)

end
