(* ===== verification/Keyring.thy ===== *)
theory Keyring
  imports Operations EnvelopeBatch
begin

text \<open>
  Servers configured with local master keys. A keyring is the list of master keys in use by any
  of the servers; each server wraps new keys with one and may read with others. \<open>reads\<close> is the
  readability the store's specification takes as a parameter, and every such server owes it.
\<close>

definition valid_keys :: "crypto \<Rightarrow> bytes list \<Rightarrow> bool" where
  "valid_keys C keys \<longleftrightarrow>
     aead_correct C \<and> (\<forall>k \<in> set keys. length k = KeySize) \<and> inj_on (KeyID C) (set keys)"

definition local_env :: "crypto \<Rightarrow> bytes \<Rightarrow> bytes list \<Rightarrow> 'k host envelope" where
  "local_env C k ks = new_envelope (local_wrapper C k) (map (local_wrapper C) ks)"

definition reads :: "crypto \<Rightarrow> bytes list \<Rightarrow> readable" where
  "reads C keys s a p \<longleftrightarrow>
     (\<exists>k \<in> set keys. KeyID C k = s_key_id s \<and>
        (\<exists>dek. open_blob C k (s_wrapped s) a = Inr dek \<and> openWithDEK C dek (s_ciphertext s) a = Inr p))"

lemma valid_keys_inj:
  "valid_keys C keys \<Longrightarrow> k \<in> set keys \<Longrightarrow> k' \<in> set keys \<Longrightarrow> KeyID C k = KeyID C k' \<Longrightarrow> k = k'"
  unfolding valid_keys_def inj_on_def by blast

lemma definite_reads: "valid_keys C keys \<Longrightarrow> definite (reads C keys)"
  unfolding definite_def reads_def valid_keys_def
  by (metis (no_types, lifting) inj_onD sum.inject(2))

section \<open>What the map of wrappers holds\<close>

lemma local_wrapper_simps [simp]:
  "w_id (local_wrapper C k) = KeyID C k" "w_wrap (local_wrapper C k) = local_wrap C k"
  "w_unwrap (local_wrapper C k) = local_unwrap C k" "w_rewrap (local_wrapper C k) = None"
  by (simp_all add: local_wrapper_def)

lemma add_previous_local:
  "map_of (add_previous m (map (local_wrapper C) ks)) i =
     (case map_of m i of Some wr \<Rightarrow> Some wr
      | None \<Rightarrow> map_option (local_wrapper C) (find (\<lambda>k. KeyID C k = i) ks))"
proof (induction ks arbitrary: m)
  case (Cons k ks)
  then show ?case
    by (cases "map_of m (w_id (local_wrapper C k))")
      (auto simp: AList.update_conv' split: option.splits)
qed (auto split: option.splits)

lemma local_env_lookup:
  "map_of (env_all (local_env C k ks)) i = map_option (local_wrapper C) (find (\<lambda>k. KeyID C k = i) (k # ks))"
  by (auto simp: local_env_def new_envelope_def add_previous_local)

lemma local_env_current [simp]: "env_current (local_env C k ks) = local_wrapper C k"
  by (simp add: local_env_def new_envelope_def)

lemma CurrentKeyID_local [simp]: "CurrentKeyID (local_env C k ks) = KeyID C k"
  by (simp add: CurrentKeyID_def)

lemma RewrapsInPlace_local [simp]: "\<not> RewrapsInPlace (local_env C k ks)"
  by (simp add: RewrapsInPlace_def)

lemma local_env_pure: "pure_envelope (local_env C k ks)"
  unfolding pure_envelope_def unmoved.answering_def local_env_lookup using pure_local by (auto simp: local_wrapper_def)

lemma local_env_find:
  assumes "valid_keys C keys" and "set (k # ks) \<subseteq> set keys" and "key \<in> set (k # ks)"
  shows "find (\<lambda>x. KeyID C x = KeyID C key) (k # ks) = Some key"
proof -
  have uniq: "x = key" if "x \<in> set (k # ks)" "KeyID C x = KeyID C key" for x
    using assms that unfolding valid_keys_def inj_on_def by blast
  have "\<exists>x. find (\<lambda>x. KeyID C x = KeyID C key) (k # ks) = Some x"
    using assms(3) by (rule find_ex) simp
  then obtain x where x: "find (\<lambda>x. KeyID C x = KeyID C key) (k # ks) = Some x" by blast
  then have "x \<in> set (k # ks)" and "KeyID C x = KeyID C key"
    using find_SomeD [OF x] by simp_all
  with uniq x show ?thesis by simp
qed

section \<open>Such a server owes \<open>reads\<close>\<close>

lemma local_unwrap_dek:
  fixes h :: "'k host"
  assumes "map_of (env_all (local_env C k ks :: 'k host envelope)) (s_key_id s) = Some (local_wrapper C key)"
  shows "unwrap_dek (local_env C k ks) s a h =
    (case open_blob C key (s_wrapped s) a of
       Inl e \<Rightarrow> (Inl ErrOpen, h)
     | Inr dek \<Rightarrow> (if length dek \<noteq> KeySize then Inl ErrOpen else Inr dek, h))"
  using assms by (simp add: unwrap_dek_def local_unwrap_def split: sum.splits)

lemma local_Seal_ok: "\<exists>s h1. Seal C (local_env C k ks) p a h = (Inr s, h1)"
proof -
  obtain dek w1 where "rand_read KeySize h = (dek, w1)" by (metis surj_pair)
  moreover obtain x w2 where "seal_blob C k dek a w1 = (x, w2)" by (metis surj_pair)
  moreover obtain ct w3 where "seal_blob C dek p a w2 = (ct, w3)" by (metis surj_pair)
  ultimately show ?thesis by (simp add: Seal_def local_wrap_def)
qed

lemma local_Seal_reads:
  assumes "valid_keys C keys" and "k \<in> set keys" and "Seal C (local_env C k ks) p a h = (Inr s, h')"
  shows "reads C keys s a p"
proof -
  from assms have "local_usable (C, k) (service h)" and ac: "aead_correct C"
    by (auto simp: valid_keys_def local_usable_def)
  from local_key.Seal_opens_to [of "local_env C k ks" "(C, k)" h C p a] this assms(3)
  have "local_key.opens_to C (C, k) (service h') s a p"
    by (auto simp: mk_local_def)
  with assms(2) show ?thesis
    by (auto simp: local_key.opens_to_def local_holds_def mk_local_def reads_def)
qed

lemma local_Open_reads:
  fixes h :: "'k host"
  assumes "valid_keys C keys" and "set (k # ks) \<subseteq> set keys" and "reads C keys s a p"
    and "s_key_id s \<in> KeyID C ` set (k # ks)"
  shows "Open C (local_env C k ks) s a h = (Inr p, h)"
proof -
  from assms(3) obtain key dek where key: "key \<in> set keys" "KeyID C key = s_key_id s"
    and o: "open_blob C key (s_wrapped s) a = Inr dek" "openWithDEK C dek (s_ciphertext s) a = Inr p"
    by (auto simp: reads_def)
  from assms(4) obtain k' where k': "k' \<in> set (k # ks)" "KeyID C k' = s_key_id s"
    by (metis imageE)
  have "k' = key"
    by (rule valid_keys_inj [OF assms(1)]) (use key k' assms(2) in auto)
  with k' local_env_find [OF assms(1,2) k'(1)] have
    "map_of (env_all (local_env C k ks :: 'k host envelope)) (s_key_id s) = Some (local_wrapper C key)"
    by (simp add: local_env_lookup)
  note u = local_unwrap_dek [OF this]
  have "length dek = KeySize" using o(2) by (auto simp: openWithDEK_def split: if_splits)
  with u o show ?thesis by (simp add: Open_def)
qed

lemma local_Rewrap_reads:
  fixes h :: "'k host"
  assumes v: "valid_keys C keys" and sub: "set (k # ks) \<subseteq> set keys"
    and rw: "Rewrap (local_env C k ks) (s\<lparr>s_ciphertext := ct\<rparr>) a h = (Inr (re, True), h')"
    and r: "reads C keys s a p"
  shows "reads C keys (re\<lparr>s_ciphertext := s_ciphertext s\<rparr>) a p"
proof -
  from r obtain key dek where key: "key \<in> set keys" "KeyID C key = s_key_id s"
    and o: "open_blob C key (s_wrapped s) a = Inr dek" "openWithDEK C dek (s_ciphertext s) a = Inr p"
    by (auto simp: reads_def)
  have ne: "s_key_id s \<noteq> KeyID C k"
    using rw by (auto simp: Rewrap_def)
  let ?s = "s\<lparr>s_ciphertext := ct\<rparr>"
  from rw ne obtain dek' h1 where u: "unwrap_dek (local_env C k ks) ?s a h = (Inr dek', h1)"
    and wr: "(case local_wrap C k dek' a h1 of
             (Inl err, w2) \<Rightarrow> (Inl err, w2)
           | (Inr wrapped, w2) \<Rightarrow>
               (Inr (\<lparr>s_key_id = KeyID C k, s_wrapped = wrapped, s_ciphertext = ct\<rparr>, True), w2))
          = (Inr (re, True), h')"
    by (auto simp: Rewrap_def split: prod.splits sum.splits if_splits)
  from u obtain k' where k': "map_of (env_all (local_env C k ks :: 'k host envelope)) (s_key_id s) = Some (local_wrapper C k')"
    and f: "find (\<lambda>x. KeyID C x = s_key_id s) (k # ks) = Some k'"
    by (auto simp: unwrap_dek_def local_env_lookup split: option.splits)
  have "k' = key"
    by (rule valid_keys_inj [OF v]) (use find_SomeD [OF f] key sub in auto)
  with local_unwrap_dek [of C k ks ?s key a h] k' u o(1) have d: "dek' = dek" "length dek = KeySize"
    by (auto split: if_splits)
  obtain b h2 where b: "seal_blob C k dek a h1 = (b, h2)" by (cases "seal_blob C k dek a h1")
  have "open_blob C k b a = Inr dek"
    using v sub by (intro open_seal_blob [OF _ _ b]) (auto simp: valid_keys_def)
  moreover have "re = \<lparr>s_key_id = KeyID C k, s_wrapped = b, s_ciphertext = ct\<rparr>"
    using wr b d by (simp add: local_wrap_def)
  ultimately show ?thesis using o(2) sub by (auto simp: reads_def)
qed

lemma trusted_local:
  assumes "valid_keys C keys" and "set (k # ks) \<subseteq> set keys"
  shows "trusted C (reads C keys) (local_env C k ks)"
  unfolding trusted_def
  using local_Seal_reads [OF assms(1)] local_Rewrap_reads [OF assms] assms(2) by auto

text \<open>Nothing is asked of a server when nothing is asked of the values.\<close>

lemma trusted_True [simp]: "trusted C (\<lambda>_ _ _. True) e"
  by (simp add: trusted_def)

lemma definite_True [simp]: "definite (\<lambda>_ _ _. True)"
  by (simp add: definite_def)

end
