(* ===== verification/Samples.thy ===== *)
theory Samples
  imports Keyring
begin

text \<open>
  Concrete instances of the parameters: primitives that keep the stated laws, a host, servers and
  a world, on which the witnesses evaluate the theorems.
\<close>

section \<open>Primitives\<close>

text \<open>A prefix-free header of key, nonce and associated data in front of the plaintext.\<close>

fun framed :: "bytes \<Rightarrow> bytes" where
  "framed [] = ''.''"
| "framed (c # cs) = CHR ''x'' # c # framed cs"

definition sample_header :: "bytes \<Rightarrow> bytes \<Rightarrow> bytes \<Rightarrow> bytes" where
  "sample_header k n a = framed k @ framed n @ framed a"

definition sample_crypto :: crypto where
  "sample_crypto =
     \<lparr>aead_seal = (\<lambda>k n p a. sample_header k n a @ p),
      aead_open = (\<lambda>k n c a. let h = sample_header k n a in
         if take (length h) c = h then Some (drop (length h) c) else None),
      hmac_sha256 = (\<lambda>k m. take 1 k @ m)\<rparr>"

lemma framed_append_eq: "framed k @ xs = framed k' @ ys \<longleftrightarrow> k = k' \<and> xs = ys"
proof (induction k arbitrary: k')
  case Nil
  then show ?case by (cases k') auto
next
  case (Cons c k)
  then show ?case by (cases k') auto
qed

lemma framed_inject [simp]: "framed k = framed k' \<longleftrightarrow> k = k'"
  using framed_append_eq [of k "[]" k' "[]"] by simp

lemma sample_correct: "aead_correct sample_crypto"
  by (simp add: aead_correct_def sample_crypto_def Let_def)

lemma sample_header_prefix:
  assumes "take (length (sample_header k' n' a')) (sample_header k n a @ p) = sample_header k' n' a'"
  shows "k' = k \<and> n' = n \<and> a' = a"
proof -
  from assms obtain ys where "sample_header k n a @ p = sample_header k' n' a' @ ys"
    by (metis append_take_drop_id)
  then show ?thesis by (simp add: sample_header_def framed_append_eq)
qed

lemma sample_binding: "aead_binding sample_crypto"
  unfolding aead_binding_def
proof (intro allI impI)
  fix k n p a k' n' a' p'
  assume "aead_open sample_crypto k' n' (aead_seal sample_crypto k n p a) a' = Some p'"
  then have "take (length (sample_header k' n' a')) (sample_header k n a @ p) = sample_header k' n' a'"
    by (simp only: sample_crypto_def Let_def crypto.select_convs split: if_splits) simp_all
  then show "k' = k \<and> n' = n \<and> a' = a" by (rule sample_header_prefix)
qed

section \<open>Evaluating a transaction\<close>

text \<open>\<open>in_tx\<close> in functions that match on what has been computed, for evaluation by rewriting.\<close>

fun settle :: "'a \<Rightarrow> db \<Rightarrow> weather \<times> 'k world \<Rightarrow> 'a result \<times> 'k world" where
  "settle x d (Fine, w) = (Inr x, w\<lparr>w_db := d\<rparr>)"
| "settle x d (Lost, w) = (Inl db_down, w)"
| "settle x d (Unheard, w) = (Inl db_down, w\<lparr>w_db := d\<rparr>)"

fun finish_tx :: "'a result \<times> 'k tx \<Rightarrow> 'a result \<times> 'k world" where
  "finish_tx (Inl e, (d, w)) = (Inl e, w)"
| "finish_tx (Inr x, (d, w)) = settle x d (tick w)"

fun start_tx :: "('k tx \<Rightarrow> 'a result \<times> 'k tx) \<Rightarrow> weather \<times> 'k world \<Rightarrow> 'a result \<times> 'k world" where
  "start_tx body (Fine, w) = finish_tx (body (w_db w, w))"
| "start_tx body (Lost, w) = (Inl db_down, w)"
| "start_tx body (Unheard, w) = (Inl db_down, w)"

lemma in_tx_code [code]: "in_tx body w = start_tx body (pool_tick w)"
proof -
  obtain sky w1 where "pool_tick w = (sky, w1)" by (cases "pool_tick w")
  then show ?thesis
    by (cases sky) (auto simp: in_tx_def split: prod.splits sum.splits weather.splits)
qed

section \<open>A host, a server, a world\<close>

definition sample_key :: "char \<Rightarrow> bytes" where
  "sample_key c = replicate 32 c"

definition sample_host :: "unit host" where
  "sample_host = \<lparr>entropy = (\<lambda>_. CHR ''r''), service = (), ranges = (\<lambda>ks. ks)\<rparr>"

definition sample_index :: blind_key where
  "sample_index = \<lparr>ix_key = sample_key CHR ''i''\<rparr>"

text \<open>The servers before and after a rotation of the master key from a to b.\<close>

definition sample_keys :: "bytes list" where
  "sample_keys = [sample_key CHR ''b'', sample_key CHR ''a'']"

definition sample_store :: "unit store" where
  "sample_store =
     \<lparr>st_env = local_env sample_crypto (sample_key CHR ''a'') [], st_index = sample_index,
      st_audit_to = True\<rparr>"

definition rotated_store :: "unit store" where
  "rotated_store =
     \<lparr>st_env = local_env sample_crypto (sample_key CHR ''b'') [sample_key CHR ''a''],
      st_index = sample_index, st_audit_to = False\<rparr>"

definition sample_world :: "unit world" where
  "sample_world =
     \<lparr>w_host = sample_host, w_db = empty_db, w_weather = (\<lambda>_. Fine), w_rivals = (\<lambda>_ d. d),
      w_clock = 0, w_shipped = []\<rparr>"

definition sample_item :: item where
  "sample_item = \<lparr>it_plaintext = ''{}'', it_indexed = [(''mail'', ''a@b'')], it_subject = ''kim''\<rparr>"

lemma sample_valid: "valid_keys sample_crypto sample_keys"
proof -
  have "KeyID sample_crypto (sample_key CHR ''a'') \<noteq> KeyID sample_crypto (sample_key CHR ''b'')"
    by code_simp
  then show ?thesis
    by (auto simp: valid_keys_def sample_correct sample_keys_def sample_key_def KeySize_def)
qed

lemma sample_trusted:
  "trusted sample_crypto (reads sample_crypto sample_keys) (st_env sample_store)"
  "trusted sample_crypto (reads sample_crypto sample_keys) (st_env rotated_store)"
  by (auto simp: sample_store_def rotated_store_def sample_keys_def
      intro!: trusted_local sample_valid [unfolded sample_keys_def])

lemma sample_rivals: "rivals_obey C ix G sample_world"
  by (simp add: rivals_obey_def sample_world_def)

section \<open>A short history\<close>

definition sample_id :: string where
  "sample_id = ''tok_72727272727272727272727272727272''"

definition put_world :: "unit world" where
  "put_world = snd (PutMany sample_crypto sample_store ''kim'' ''c'' [sample_item] sample_world)"

definition deleted_world :: "unit world" where
  "deleted_world = snd (Delete sample_store ''kim'' ''c'' sample_id put_world)"

lemma sample_guar:
  assumes "trusted sample_crypto G (st_env sample_store)"
  shows "spec.guar sample_crypto sample_index G sample_world put_world"
    and "spec.guar sample_crypto sample_index G put_world deleted_world"
proof -
  have ix: "st_index sample_store = sample_index" by (simp add: sample_store_def)
  have rl: "spec.rely sample_crypto sample_index G sample_world" by (simp add: rely_iff sample_rivals)
  obtain x where "PutMany sample_crypto sample_store ''kim'' ''c'' [sample_item] sample_world = (x, put_world)"
    by (metis put_world_def prod.collapse)
  from guar_PutMany [OF assms _ this] rl show g: "spec.guar sample_crypto sample_index G sample_world put_world"
    by (simp add: ix)
  obtain y where "Delete sample_store ''kim'' ''c'' sample_id put_world = (y, deleted_world)"
    by (metis deleted_world_def prod.collapse)
  from guar_Delete [OF spec.guar_rely [OF g rl] this]
  show "spec.guar sample_crypto sample_index G put_world deleted_world" .
qed

lemma sample_ok:
  assumes "trusted sample_crypto G (st_env sample_store)"
  shows "rivals_obey sample_crypto sample_index G put_world"
    and "rivals_obey sample_crypto sample_index G deleted_world"
    and "db_ok G (w_db put_world)" and "db_ok G (w_db deleted_world)"
proof -
  note g = sample_guar [OF assms]
  have rl: "spec.rely sample_crypto sample_index G sample_world" by (simp add: rely_iff sample_rivals)
  have ok: "db_ok G (w_db sample_world)" by (simp add: sample_world_def empty_db_ok)
  note rl1 = spec.guar_rely [OF g(1) rl] and ok1 = spec.stable_guar [OF stable_db_ok g(1) ok]
  show "rivals_obey sample_crypto sample_index G put_world" using rl1 by (simp add: rely_iff)
  show "rivals_obey sample_crypto sample_index G deleted_world"
    using spec.guar_rely [OF g(2) rl1] by (simp add: rely_iff)
  show "db_ok G (w_db put_world)" by (fact ok1)
  show "db_ok G (w_db deleted_world)" by (rule spec.stable_guar [OF stable_db_ok g(2) ok1])
qed

end
