(* ===== verification/StoreTheorems.thy ===== *)
theory StoreTheorems
  imports Samples
begin

text \<open>
  What the store promises over any run of its operations. A run is any sequence of operations of
  one server, with any arguments and any outcome of its round trips, while other servers commit
  transactions of the specification between them.
\<close>

section \<open>Runs\<close>

inductive serve :: "crypto \<Rightarrow> 'k store \<Rightarrow> 'k world \<Rightarrow> 'k world \<Rightarrow> bool" for C st where
  put: "PutMany C st actor c items w = (r, w') \<Longrightarrow> serve C st w w'"
| get: "GetMany C st c ids w = (m, w') \<Longrightarrow> serve C st w w'"
| search: "Search C st c f v after w = (r, w') \<Longrightarrow> serve C st w w'"
| subject: "Subject sub w = (rs, w') \<Longrightarrow> serve C st w w'"
| destroy: "Delete st actor c oid w = (u, w') \<Longrightarrow> serve C st w w'"
| forget: "DeleteSubject st actor sub w = (rs, w') \<Longrightarrow> serve C st w w'"
| audit: "AuditMany st es w = (u, w') \<Longrightarrow> serve C st w w'"
| reindex: "Reindex n C st actor c indexed w = (p, w') \<Longrightarrow> serve C st w w'"
| rotate: "Rotate n st w = (p, w') \<Longrightarrow> serve C st w w'"
| start: "loadIndexKey C (st_env st) w = (k, w') \<Longrightarrow> serve C st w w'"

lemma serve_guar:
  assumes "serve C st w w'" and "trusted C G (st_env st)" and "definite G"
    and "spec.rely C (st_index st) G w" and "db_ok G (w_db w)"
  shows "spec.guar C (st_index st) G w w'"
  using assms(1)
proof cases
  case (put actor c items r)
  with assms show ?thesis by (blast intro: guar_PutMany)
next
  case (get c ids m)
  with assms show ?thesis by (blast intro: guar_GetMany)
next
  case (search c f v after r)
  with assms show ?thesis by (blast intro: guar_Search)
next
  case (subject sub rs)
  with assms show ?thesis by (blast intro: guar_Subject)
next
  case (destroy actor c oid u)
  with assms show ?thesis by (blast intro: guar_Delete)
next
  case (forget actor sub rs)
  with assms show ?thesis by (blast intro: guar_DeleteSubject)
next
  case (audit es u)
  with assms show ?thesis by (blast intro: guar_AuditMany)
next
  case (reindex n actor c indexed p)
  with assms show ?thesis by (blast intro: guar_Reindex)
next
  case (rotate n p)
  with assms show ?thesis by (blast intro: guar_Rotate)
next
  case (start k)
  with assms show ?thesis by (blast intro: guar_loadIndexKey)
qed

lemma run_guar:
  assumes "(serve C st)\<^sup>*\<^sup>* w w'" and "trusted C G (st_env st)" and "definite G"
    and "rivals_obey C (st_index st) G w" and "db_ok G (w_db w)"
  shows "spec.guar C (st_index st) G w w'"
  using assms(1)
proof (induction rule: rtranclp_induct)
  case base
  show ?case by simp
next
  case (step w1 w2)
  have rl: "spec.rely C (st_index st) G w" using assms(4) by (simp add: rely_iff)
  from serve_guar [OF step(2) assms(2,3) spec.guar_rely [OF step(3) rl]
      spec.stable_guar [OF stable_db_ok step(3) assms(5)]]
  show ?case by (rule spec.guar_trans [OF step(3)])
qed

lemma run_lawful:
  assumes "(serve C st)\<^sup>*\<^sup>* w w'" and "trusted C G (st_env st)" and "definite G"
    and "rivals_obey C (st_index st) G w" and "db_ok G (w_db w)"
  shows "evolves G (w_db w) (w_db w')" and "db_ok G (w_db w')"
    and "audited (w_db w) \<Longrightarrow> audited (w_db w')"
  using commits_lawful [of C "st_index st" G "w_db w" "w_db w'"] run_guar [OF assms] assms(5)
  by (auto simp: spec.guar_def)

section \<open>Refinement\<close>

text \<open>
  C3: Every operation of the store (PutMany, GetMany, Search, Subject, Delete, DeleteSubject,
  AuditMany, Reindex, Rotate, and loading the blind-index key), with any arguments, any failure of its round trips, and other
  servers committing in between, changes the database only by a sequence of the specification's
  transactions, each of which is complete (an object never without its audit entry, a shredded
  row never with index entries).
\<close>

theorem store_refines_spec:
  assumes "serve C st w w'" and "trusted C G (st_env st)" and "definite G"
    and "rivals_obey C (st_index st) G w" and "db_ok G (w_db w)"
  shows "(commit C (st_index st) G)\<^sup>*\<^sup>* (w_db w) (w_db w')"
  using serve_guar [OF assms(1-3)] assms(4,5) by (simp add: rely_iff spec.guar_def)

lemma sample_rotate: "serve sample_crypto rotated_store w (snd (Rotate 3 rotated_store w))"
  by (rule serve.rotate) (rule prod.collapse [symmetric])

lemma rotated_index [simp]: "st_index rotated_store = sample_index"
  by (simp add: rotated_store_def)

theorem store_refines_spec_witness:
  "(commit sample_crypto sample_index (reads sample_crypto sample_keys))\<^sup>*\<^sup>* (w_db put_world)
     (w_db (snd (Rotate 3 rotated_store put_world)))"
  using store_refines_spec [OF sample_rotate sample_trusted(2) definite_reads [OF sample_valid],
      of put_world] sample_ok [OF sample_trusted(1)]
  by simp

section \<open>Invariants\<close>

text \<open>
  C4: Shredding is final. Once a row is deleted, no later operation of any server (a put, a
  reindex or a rotation racing with the deletion included) changes it: it stays in the table, it
  stays deleted and its wrapped key stays gone.
\<close>

theorem shredded_forever:
  assumes "(serve C st)\<^sup>*\<^sup>* w w'" and "rivals_obey C (st_index st) (\<lambda>_ _ _. True) w"
    and "db_ok (\<lambda>_ _ _. True) (w_db w)" and "r \<in> set (objects (w_db w))" and "o_deleted r"
  shows "r \<in> set (objects (w_db w')) \<and> o_wrapped r = None"
proof
  note ev = run_lawful(1) [OF assms(1) trusted_True definite_True assms(2,3)]
  from ev have "grows (row_step (\<lambda>_ _ _. True)) (objects (w_db w)) (objects (w_db w'))"
    by (simp add: evolves_def)
  from grows_member [OF this assms(4)] assms(5) show "r \<in> set (objects (w_db w'))"
    by (auto simp: row_step_def)
  show "o_wrapped r = None" using assms(3,4,5) by (auto simp: db_ok_def row_ok_def)
qed

lemma deleted_row: "\<exists>r \<in> set (objects (w_db deleted_world)). o_deleted r \<and> o_id r = sample_id"
  by code_simp

theorem shredded_forever_witness:
  "\<exists>r \<in> set (objects (w_db (snd (Rotate 3 rotated_store deleted_world)))).
     o_id r = sample_id \<and> o_deleted r"
proof -
  from deleted_row obtain r where r: "r \<in> set (objects (w_db deleted_world))" "o_deleted r"
    and "o_id r = sample_id" by blast
  moreover have "(serve sample_crypto rotated_store)\<^sup>*\<^sup>* deleted_world
      (snd (Rotate 3 rotated_store deleted_world))"
    using sample_rotate by (rule r_into_rtranclp)
  moreover note sample_ok(2,4) [OF trusted_True]
  ultimately show ?thesis using shredded_forever [OF _ _ _ r] by auto
qed

text \<open>
  C5: From an empty database, every reachable state has unique object ids, a wrapped key exactly
  on the live rows, and a blind index in which every row refers to a live object of the same
  collection: searching never yields an object that is not there.
\<close>

theorem reachable_db_ok:
  assumes "(serve C st)\<^sup>*\<^sup>* w w'" and "w_db w = empty_db"
    and "rivals_obey C (st_index st) (\<lambda>_ _ _. True) w"
  shows "distinct (map o_id (objects (w_db w')))
    \<and> (\<forall>r \<in> set (objects (w_db w')). o_deleted r = (o_wrapped r = None))
    \<and> (\<forall>x \<in> set (blind_index (w_db w')). \<exists>r \<in> set (objects (w_db w')).
           o_id r = x_object x \<and> o_collection r = x_collection x \<and> \<not> o_deleted r)"
proof -
  have "db_ok (\<lambda>_ _ _. True) (w_db w')"
    by (rule run_lawful(2) [OF assms(1) trusted_True definite_True assms(3)])
      (simp add: assms(2) empty_db_ok)
  then show ?thesis by (auto simp: db_ok_def row_ok_def points_to_def)
qed

lemma sample_put: "serve sample_crypto sample_store sample_world put_world"
  by (rule serve.put) (unfold put_world_def, rule prod.collapse [symmetric])

lemma sample_put_run: "(serve sample_crypto sample_store)\<^sup>*\<^sup>* sample_world put_world"
  using sample_put by (rule r_into_rtranclp)

lemma sample_empty: "w_db sample_world = empty_db"
  by (simp add: sample_world_def)

lemma sample_put_indexed: "blind_index (w_db put_world) \<noteq> []"
  by code_simp

theorem reachable_db_ok_witness:
  "\<exists>r \<in> set (objects (w_db put_world)).
     o_id r = x_object (hd (blind_index (w_db put_world))) \<and> \<not> o_deleted r"
  using reachable_db_ok [OF sample_put_run sample_empty sample_rivals]
    hd_in_set [OF sample_put_indexed] by blast

text \<open>
  C6: From an empty database, every reachable state has in its audit log the creation of every
  object and the deletion of every deleted one: no change is committed without its entry.
\<close>

theorem reachable_audited:
  assumes "(serve C st)\<^sup>*\<^sup>* w w'" and "w_db w = empty_db"
    and "rivals_obey C (st_index st) (\<lambda>_ _ _. True) w" and "r \<in> set (objects (w_db w'))"
    and "action = ''create'' \<or> action = ''delete'' \<and> o_deleted r"
  shows "\<exists>e \<in> set (audit_log (w_db w')). a_action e = action \<and> a_collection e = o_collection r
           \<and> a_object e = nullif_empty (o_id r)"
proof -
  have "audited (w_db w')"
    by (rule run_lawful(3) [OF assms(1) trusted_True definite_True assms(3)])
      (simp_all add: assms(2) empty_db_ok empty_db_audited)
  with assms(4,5) have "logged (w_db w') action r" by (auto simp: audited_def)
  then show ?thesis by (simp add: logged_def)
qed

lemma sample_delete_run: "(serve sample_crypto sample_store)\<^sup>*\<^sup>* sample_world deleted_world"
proof -
  have "serve sample_crypto sample_store put_world deleted_world"
    by (rule serve.destroy) (unfold deleted_world_def, rule prod.collapse [symmetric])
  with sample_put_run show ?thesis by (rule rtranclp.rtrancl_into_rtrancl)
qed

theorem reachable_audited_witness:
  "\<exists>r \<in> set (objects (w_db deleted_world)). \<exists>e \<in> set (audit_log (w_db deleted_world)).
     a_action e = ''delete'' \<and> a_object e = nullif_empty (o_id r)"
proof -
  from deleted_row obtain r where r: "r \<in> set (objects (w_db deleted_world))" "o_deleted r" by blast
  from reachable_audited [OF sample_delete_run sample_empty sample_rivals r(1)] r
  show ?thesis by blast
qed

end
