(* ===== verification/StoreContents.thy ===== *)
theory StoreContents
  imports StoreTheorems
begin

text \<open>
  What each operation of the store does: a put stores everything or nothing, a get returns what
  was put and only that, a search finds exactly the matching live objects in pages, and a
  deletion takes an object out of all of them.
\<close>

section \<open>Transactions that end\<close>

text \<open>The database as a transaction or statement finds it: after the rivals had their turn.\<close>

definition found_db :: "'k world \<Rightarrow> db" where
  "found_db w = w_rivals w (w_clock w) (w_db w)"

text \<open>A transaction leaves the database as it found it, or as its body left it; it reports success only then.\<close>

lemma in_tx_outcome:
  assumes "in_tx body w = (r, w')" and "\<And>s r s'. body s = (r, s') \<Longrightarrow> frame (snd s) (snd s')"
  shows "(w_db w' = found_db w \<and> (\<forall>x. r \<noteq> Inr x)) \<or>
         (\<exists>x v v'. body (found_db w, v) = (Inr x, (w_db w', v')) \<and> (\<forall>y. r = Inr y \<longrightarrow> y = x))"
proof -
  obtain sky w1 where t: "pool_tick w = (sky, w1)" by (cases "pool_tick w")
  then have d1: "w_db w1 = found_db w" by (auto simp: pool_tick_def tick_def found_db_def)
  show ?thesis
  proof (cases "sky = Fine")
    case False
    with t d1 assms(1) show ?thesis by (auto simp: in_tx_def)
  next
    case sky: True
    obtain r2 d w2 where b: "body (w_db w1, w1) = (r2, (d, w2))" by (metis surj_pair)
    from assms(2) [OF b] have f: "w_db w2 = w_db w1" by (simp add: frame_def)
    show ?thesis
    proof (cases r2)
      case (Inl e)
      with sky t b f d1 assms(1) show ?thesis by (auto simp: in_tx_def)
    next
      case (Inr x)
      obtain sky2 w3 where t2: "tick w2 = (sky2, w3)" by (cases "tick w2")
      then have f3: "w_db w3 = w_db w2" by (auto simp: tick_def)
      from assms(1) sky t b Inr t2 have
        "(r, w') = (case sky2 of Fine \<Rightarrow> (Inr x, w3\<lparr>w_db := d\<rparr>) | Lost \<Rightarrow> (Inl db_down, w3)
                    | Unheard \<Rightarrow> (Inl db_down, w3\<lparr>w_db := d\<rparr>))"
        by (simp add: in_tx_def)
      with b Inr f f3 d1 show ?thesis by (cases sky2) auto
    qed
  qed
qed

section \<open>PutMany\<close>

fun put_all ::
  "crypto \<Rightarrow> 'k store \<Rightarrow> string \<Rightarrow> string \<Rightarrow> item list \<Rightarrow> string list \<Rightarrow> db \<Rightarrow> db \<Rightarrow> bool" where
  "put_all C st actor c [] [] d d' = (d' = d)"
| "put_all C st actor c (it # its) (oid # oids) d d' =
     (\<exists>d1. put_effect C st actor c it oid d d1 \<and> put_all C st actor c its oids d1 d')"
| "put_all C st actor c _ _ d d' = False"

lemma try_put_all:
  assumes "try_each (put_item C st actor c) items (d, w) = (Inr puts, (d', w'))"
  shows "put_all C st actor c items (map fst puts) d d'
    \<and> map snd puts = map (object_entry actor ''create'' c \<circ> fst) puts"
  using assms
proof (induction items arbitrary: d w puts)
  case Nil
  then show ?case by simp
next
  case (Cons it items)
  obtain r1 d1 w1 where 1: "put_item C st actor c it (d, w) = (r1, (d1, w1))" by (metis surj_pair)
  with Cons.prems obtain oid e where r1: "r1 = Inr (oid, e)" by (cases r1) auto
  with Cons.prems 1 obtain puts' where
    2: "try_each (put_item C st actor c) items (d1, w1) = (Inr puts', (d', w'))" and p: "puts = (oid, e) # puts'"
    by (auto split: prod.splits sum.splits)
  from Cons.IH [OF 2] put_item_effect [OF 1 [unfolded r1]] p show ?case by auto
qed

text \<open>What a successful put has added, in terms of rows.\<close>

definition stores_item :: "crypto \<Rightarrow> 'k store \<Rightarrow> string \<Rightarrow> item \<Rightarrow> object_row \<Rightarrow> bool" where
  "stores_item C st c it r \<longleftrightarrow>
     o_collection r = c \<and> \<not> o_deleted r \<and> o_subject r = nullif_empty (it_subject it)
     \<and> seals C st (it_plaintext it) (aad c (o_id r)) (sealed_of r)"

definition index_rows :: "crypto \<Rightarrow> 'k store \<Rightarrow> string \<Rightarrow> item list \<Rightarrow> string list \<Rightarrow> index_row list" where
  "index_rows C st c items oids =
     concat (map2 (\<lambda>it oid. map (entry_of C (st_index st) c oid) (it_indexed it)) items oids)"

text \<open>
  The objects and audit entries come in the order of the items. The index rows of an item come in
  the order Go ranges over its map, so what is new in the index is fixed as a multiset.
\<close>

definition stored ::
  "crypto \<Rightarrow> 'k store \<Rightarrow> string \<Rightarrow> string \<Rightarrow> item list \<Rightarrow> string list \<Rightarrow> db \<Rightarrow> db \<Rightarrow> bool" where
  "stored C st actor c items oids d d' \<longleftrightarrow>
     (\<exists>rows. objects d' = objects d @ rows \<and> map o_id rows = oids
        \<and> list_all2 (stores_item C st c) items rows)
     \<and> (\<exists>xs. blind_index d' = blind_index d @ xs \<and> mset xs = mset (index_rows C st c items oids))
     \<and> audit_log d' = audit_log d @ map (audit_row_of \<circ> object_entry actor ''create'' c) oids
     \<and> service_keys d' = service_keys d"

lemma put_all_stored:
  assumes "put_all C st actor c items oids d d'" and "\<forall>it \<in> set items. gomap_ok (it_indexed it)"
  shows "stored C st actor c items oids d d'"
  using assms
proof (induction C st actor c items oids d d' rule: put_all.induct)
  case (1 C st actor c d d')
  then show ?case by (simp add: stored_def index_rows_def)
next
  case (2 C st actor c it its oid oids d d')
  from 2(2) obtain d1 where e: "put_effect C st actor c it oid d d1"
    and rest: "put_all C st actor c its oids d1 d'" by auto
  from 2(1) [OF rest] 2(3) have s: "stored C st actor c its oids d1 d'" by simp
  from e obtain s pick where sl: "seals C st (it_plaintext it) (aad c oid) s"
    and d1: "d1 = created C (st_index st) actor c oid s (it_subject it) (range_over pick (it_indexed it)) d"
    by (auto simp: put_effect_def)
  let ?r = "object_of oid c s (it_subject it)"
  have st: "stores_item C st c it ?r"
    using sl by (simp add: stores_item_def)
  from s obtain rows xs where rows: "objects d' = objects d1 @ rows" "map o_id rows = oids"
    "list_all2 (stores_item C st c) its rows"
    and xs: "blind_index d' = blind_index d1 @ xs" "mset xs = mset (index_rows C st c its oids)"
    and al: "audit_log d' = audit_log d1 @ map (audit_row_of \<circ> object_entry actor ''create'' c) oids"
    and sk: "service_keys d' = service_keys d1"
    unfolding stored_def by blast
  let ?new = "map (entry_of C (st_index st) c oid) (range_over pick (it_indexed it))"
  have d1': "objects d1 = objects d @ [?r]" "service_keys d1 = service_keys d"
    "audit_log d1 = audit_log d @ [audit_row_of (object_entry actor ''create'' c oid)]"
    "blind_index d1 = blind_index d @ ?new"
    unfolding d1 created_def by simp_all
  with rows st have A: "objects d' = objects d @ (?r # rows) \<and> map o_id (?r # rows) = oid # oids
      \<and> list_all2 (stores_item C st c) (it # its) (?r # rows)"
    by simp
  have "mset (range_over pick (it_indexed it)) = mset (it_indexed it)" using 2(3) by (simp add: mset_range_over)
  then have "mset ?new = mset (map (entry_of C (st_index st) c oid) (it_indexed it))" by (simp only: mset_map)
  with xs d1' have X: "blind_index d' = blind_index d @ (?new @ xs)
      \<and> mset (?new @ xs) = mset (index_rows C st c (it # its) (oid # oids))"
    by (simp add: index_rows_def)
  have B: "audit_log d' = audit_log d @ map (audit_row_of \<circ> object_entry actor ''create'' c) (oid # oids)"
    and D: "service_keys d' = service_keys d"
    unfolding al sk d1' by simp_all
  show ?case unfolding stored_def
    by (intro conjI, rule exI [of _ "?r # rows"], fact A, rule exI [of _ "?new @ xs"], fact X, fact B, fact D)
qed auto

lemma PutMany_outcome:
  assumes "PutMany C st actor c items w = (r, w')" and "\<forall>it \<in> set items. gomap_ok (it_indexed it)"
  shows "(w_db w' = found_db w \<and> (\<forall>oids. r \<noteq> Inr oids))
    \<or> (\<exists>oids. stored C st actor c items oids (found_db w) (w_db w') \<and> (\<forall>ids. r = Inr ids \<longrightarrow> ids = oids))"
proof -
  obtain x w1 where tx: "in_tx (try_each (put_item C st actor c) items) w = (x, w1)" by (metis surj_pair)
  have db: "w_db w' = w_db w1" using assms(1) tx by (auto simp: PutMany_def emit_def split: sum.splits)
  have "(w_db w1 = found_db w \<and> (\<forall>y. x \<noteq> Inr y)) \<or>
      (\<exists>puts v v'. try_each (put_item C st actor c) items (found_db w, v) = (Inr puts, (w_db w1, v'))
        \<and> (\<forall>y. x = Inr y \<longrightarrow> y = puts))"
    by (rule in_tx_outcome [OF tx]) (rule put_items_frame)
  then consider
      "w_db w1 = found_db w" "\<forall>y. x \<noteq> Inr y"
    | puts v v' where "try_each (put_item C st actor c) items (found_db w, v) = (Inr puts, (w_db w1, v'))"
        "\<forall>y. x = Inr y \<longrightarrow> y = puts"
    by blast
  then show ?thesis
  proof cases
    case 1
    with assms(1) tx db show ?thesis by (auto simp: PutMany_def split: sum.splits)
  next
    case 2
    from put_all_stored [OF conjunct1 [OF try_put_all [OF 2(1)]] assms(2)]
    have "stored C st actor c items (map fst puts) (found_db w) (w_db w')" by (simp add: db)
    moreover have "\<forall>ids. r = Inr ids \<longrightarrow> ids = map fst puts"
      using assms(1) tx 2(2) by (auto simp: PutMany_def split: sum.splits)
    ultimately show ?thesis by blast
  qed
qed

text \<open>
  C7: PutMany stores all of its items or none. Whatever fails on the way, the database afterwards
  is the one the transaction found, or that one with one live row for every item in order, sealed
  from its plaintext for exactly its row, with its subject and a create entry in the audit log, and
  with exactly the index rows of the items, each for its own object, none missing, none of another
  item and no old one gone; the ids are reported only in the second case and are those of the rows.
\<close>

theorem PutMany_all_or_nothing:
  assumes "PutMany C st actor c items w = (r, w')" and "\<forall>it \<in> set items. gomap_ok (it_indexed it)"
  shows "(w_db w' = found_db w \<and> (\<forall>oids. r \<noteq> Inr oids))
    \<or> (\<exists>oids. stored C st actor c items oids (found_db w) (w_db w') \<and> (\<forall>ids. r = Inr ids \<longrightarrow> ids = oids))"
  using assms by (rule PutMany_outcome)

theorem PutMany_all_or_nothing_witness:
  "stored sample_crypto sample_store ''kim'' ''c'' [sample_item] [sample_id] empty_db (w_db put_world)"
proof -
  have ok: "\<forall>it \<in> set [sample_item]. gomap_ok (it_indexed it)" by (simp add: sample_item_def)
  have f: "found_db sample_world = empty_db" by (simp add: found_db_def sample_world_def)
  have res: "fst (PutMany sample_crypto sample_store ''kim'' ''c'' [sample_item] sample_world) = Inr [sample_id]"
    by code_simp
  then have run: "PutMany sample_crypto sample_store ''kim'' ''c'' [sample_item] sample_world = (Inr [sample_id], put_world)"
    by (metis put_world_def prod.collapse)
  from PutMany_all_or_nothing [OF run ok] show ?thesis by (auto simp: f)
qed

end
