(* ===== verification/StoreReads.thy ===== *)
theory StoreReads
  imports StoreContents
begin

text \<open>
  What the reading operations return, and what a deletion takes away from them.
\<close>

section \<open>Delete\<close>

text \<open>
  C8: Delete does all of its work or none: either the database is as it was found and no success
  is reported, or there was a live row of that collection and id, and exactly that row has lost
  its wrapped key and is marked deleted, its index entries are gone, and a delete entry is in the
  audit log; every other row, index entry and audit entry is untouched.
\<close>

theorem Delete_all_or_nothing:
  fixes w :: "'k world"
  assumes "Delete st actor c oid w = (r, w')"
  shows "(w_db w' = found_db w \<and> r \<noteq> Inr ())
    \<or> (\<exists>row \<in> set (objects (found_db w)). o_id row = oid \<and> o_collection row = c \<and> \<not> o_deleted row)
      \<and> w_db w' = (found_db w)
          \<lparr>objects := map (\<lambda>row. if o_id row = oid \<and> o_collection row = c \<and> \<not> o_deleted row
                                 then row\<lparr>o_wrapped := None, o_deleted := True\<rparr> else row)
                         (objects (found_db w)),
           blind_index := filter (\<lambda>x. \<not> (x_collection x = c \<and> x_object x = oid)) (blind_index (found_db w)),
           audit_log := audit_log (found_db w) @
             [\<lparr>a_client = actor, a_action = ''delete'', a_collection = c,
               a_object = nullif_empty oid, a_field = None\<rparr>]\<rparr>"
proof -
  obtain x w1 where tx: "in_tx (delete_in_tx actor c oid) w = (x, w1)" by (metis surj_pair)
  have db: "w_db w' = w_db w1" using assms tx by (auto simp: Delete_def emit_def split: sum.splits)
  have "(w_db w1 = found_db w \<and> (\<forall>y. x \<noteq> Inr y)) \<or>
      (\<exists>e v (v' :: 'k world). delete_in_tx actor c oid (found_db w, v) = (Inr e, (w_db w1, v')) \<and> (\<forall>y. x = Inr y \<longrightarrow> y = e))"
    by (rule in_tx_outcome [OF tx]) (rule delete_in_tx_frame)
  then show ?thesis
  proof (elim disjE exE conjE)
    assume "w_db w1 = found_db w" "\<forall>y. x \<noteq> Inr y"
    with assms tx db show ?thesis by (cases x) (auto simp: Delete_def)
  next
    fix e v v'
    assume "delete_in_tx actor c oid (found_db w, v) = (Inr e, (w_db w1, v'))"
    from delete_in_tx_effect [OF this] have "delete_effect actor c oid (found_db w) (w_db w')"
      by (simp add: db)
    then show ?thesis
      by (auto simp: delete_effect_def deletes_def shred_def audit_row_of_def object_entry_def nullif_empty_def)
  qed
qed

theorem Delete_all_or_nothing_witness:
  "blind_index (w_db deleted_world) = []
   \<and> audit_log (w_db deleted_world) = audit_log (w_db put_world) @
       [\<lparr>a_client = ''kim'', a_action = ''delete'', a_collection = ''c'', a_object = Some sample_id,
         a_field = None\<rparr>]"
proof -
  have ok: "fst (Delete sample_store ''kim'' ''c'' sample_id put_world) = Inr ()" by code_simp
  then have run: "Delete sample_store ''kim'' ''c'' sample_id put_world = (Inr (), deleted_world)"
    by (metis deleted_world_def prod.collapse)
  have f: "found_db put_world = w_db put_world"
    using sample_guar(1) [OF sample_trusted(1)]
    by (simp add: found_db_def spec.guar_def sample_world_def)
  have ix: "blind_index (w_db put_world) = [\<lparr>x_collection = ''c'', x_field = ''mail'',
      x_hash = Hash sample_crypto sample_index ''c'' ''mail'' ''a@b'', x_object = sample_id\<rparr>]"
    by code_simp
  from Delete_all_or_nothing [OF run] show ?thesis
    by (auto simp: f ix sample_id_def nullif_empty_def)
qed

section \<open>A query on the database it finds\<close>

definition fine :: "'k world \<Rightarrow> bool" where
  "fine w \<longleftrightarrow> w_weather w (w_clock w) = Fine"

lemma pool_exec_query:
  assumes "q (found_db w) = Inr (x, found_db w)"
  shows "\<exists>w1. pool_exec q w = (if w_weather w (w_clock w) = Fine then Inr x else Inl db_down, w1)
              \<and> w_db w1 = found_db w \<and> w_host w1 = w_host w"
  using assms by (auto simp: pool_exec_def pool_tick_def tick_def found_db_def)

section \<open>GetMany\<close>

lemma collect_found_Inr:
  "collect_found (zip (map o_id rows) (map (\<lambda>r. Inr (val r)) rows)) found =
     Inr (fold (\<lambda>r. AList.update (o_id r) (val r)) rows found)"
  by (induction rows arbitrary: found) auto

lemma GetMany_all:
  assumes "valid_keys C keys" and "set (k # ks) = set keys" and "st_env st = local_env C k ks"
    and "db_ok (reads C keys) (found_db w)" and "fine w"
  shows "\<exists>m w'. GetMany C st c ids w = (Inr m, w') \<and>
    (\<forall>oid p. map_of m oid = Some p \<longleftrightarrow>
       (\<exists>r \<in> set (objects (found_db w)). o_id r = oid \<and> o_collection r = c \<and> oid \<in> set ids
          \<and> \<not> o_deleted r \<and> reads C keys (sealed_of r) (row_aad r) p))"
proof -
  let ?sel = "\<lambda>r. o_collection r = c \<and> o_id r \<in> set ids \<and> \<not> o_deleted r"
  let ?rows = "filter ?sel (objects (found_db w))"
  let ?G = "reads C keys"
  define val where "val r = (SOME p. ?G (sealed_of r) (row_aad r) p)" for r
  have G: "?G (sealed_of r) (row_aad r) p \<longleftrightarrow> p = val r" if "r \<in> set ?rows" for r p
  proof -
    have ex: "\<exists>p. ?G (sealed_of r) (row_aad r) p"
      using that assms(4) by (auto simp: db_ok_def row_ok_def)
    then have "?G (sealed_of r) (row_aad r) (val r)" unfolding val_def by (rule someI_ex)
    moreover have "p = q" if "?G (sealed_of r) (row_aad r) p" "?G (sealed_of r) (row_aad r) q" for p q
      using that assms(1) unfolding reads_def by (metis valid_keys_inj sum.inject(2))
    ultimately show ?thesis by blast
  qed
  obtain w1 where q: "pool_exec (sql_select_objects ?sel) w = (Inr ?rows, w1)" and "w_db w1 = found_db w"
    using pool_exec_query [of "sql_select_objects ?sel" w ?rows] assms(5)
    by (auto simp: sql_select_objects_def fine_def)
  let ?items = "map (\<lambda>r. (sealed_of r, aad c (o_id r))) ?rows"
  have "opened C (local_env C k ks) (w_host w1) (sealed_of r, aad c (o_id r)) = Inr (val r)"
    if "r \<in> set ?rows" for r
  proof -
    have rd: "?G (sealed_of r) (aad c (o_id r)) (val r)" using G [OF that] that by (simp add: row_aad_def)
    have in_ring: "s_key_id (sealed_of r) \<in> KeyID C ` set (k # ks)"
      using rd unfolding assms(2) reads_def by (metis image_eqI)
    show ?thesis
      by (simp add: opened_def local_Open_reads [OF assms(1) equalityD1 [OF assms(2)] rd in_ring])
  qed
  then have "map (opened C (local_env C k ks) (w_host w1)) ?items = map (\<lambda>r. Inr (val r)) ?rows" by simp
  then have "on_host (OpenMany C (st_env st) ?items) w1 = (Inr (map (\<lambda>r. Inr (val r)) ?rows), w1)"
    unfolding assms(3) on_host_def OpenMany_opened [OF local_env_pure] by simp
  with q have get: "GetMany C st c ids w =
      (collect_found (zip (map o_id ?rows) (map (\<lambda>r. Inr (val r)) ?rows)) [], w1)"
    by (simp add: GetMany_def)
  have "distinct (map o_id ?rows)" using assms(4) by (simp add: db_ok_def distinct_map_filter)
  note m = map_of_fold_update [OF this, of val "[]"]
  have "map_of (fold (\<lambda>r. AList.update (o_id r) (val r)) ?rows []) oid = Some p \<longleftrightarrow>
      (\<exists>r \<in> set ?rows. o_id r = oid \<and> ?G (sealed_of r) (row_aad r) p)" for oid p
    using G by (auto simp: m)
  with get show ?thesis by (auto simp: collect_found_Inr)
qed

text \<open>
  C9: GetMany returns exactly what is stored. With a server that holds every master key in use
  and a database its servers have written, a get whose round trip succeeds returns, for the
  requested ids, the plaintext of each live object of that collection, and nothing else: no
  deleted object, no object of another collection, no id that was not asked for.
\<close>

theorem GetMany_returns:
  assumes "valid_keys C keys" and "set (k # ks) = set keys" and "st_env st = local_env C k ks"
    and "db_ok (reads C keys) (found_db w)" and "fine w"
  shows "\<exists>m w'. GetMany C st c ids w = (Inr m, w') \<and>
    (\<forall>oid p. map_of m oid = Some p \<longleftrightarrow>
       (\<exists>r \<in> set (objects (found_db w)). o_id r = oid \<and> o_collection r = c \<and> oid \<in> set ids
          \<and> \<not> o_deleted r \<and> reads C keys (sealed_of r) (row_aad r) p))"
  using assms by (rule GetMany_all)

definition sample_row :: object_row where
  "sample_row = hd (objects (w_db put_world))"

lemma sample_row_in: "sample_row \<in> set (objects (w_db put_world)) \<and> o_id sample_row = sample_id
    \<and> o_collection sample_row = ''c'' \<and> \<not> o_deleted sample_row"
  by code_simp

lemma sample_row_reads: "reads sample_crypto sample_keys (sealed_of sample_row) (row_aad sample_row) ''{}''"
  unfolding reads_def
proof (rule bexI [of _ "sample_key CHR ''a''"], intro conjI exI)
  show "KeyID sample_crypto (sample_key CHR ''a'') = s_key_id (sealed_of sample_row)" by code_simp
  show "open_blob sample_crypto (sample_key CHR ''a'') (s_wrapped (sealed_of sample_row)) (row_aad sample_row)
      = Inr (sample_key CHR ''r'')" by code_simp
  show "openWithDEK sample_crypto (sample_key CHR ''r'') (s_ciphertext (sealed_of sample_row)) (row_aad sample_row)
      = Inr ''{}''" by code_simp
qed (simp add: sample_keys_def)

lemma found_put_world [simp]: "found_db put_world = w_db put_world"
  using sample_guar(1) [OF sample_trusted(1)]
  by (simp add: found_db_def spec.guar_def sample_world_def)

lemma fine_put_world: "fine put_world"
  unfolding fine_def by code_simp

theorem GetMany_returns_witness:
  "\<exists>m w'. GetMany sample_crypto rotated_store ''c'' [sample_id, ''tok_none''] put_world = (Inr m, w')
     \<and> map_of m sample_id = Some ''{}''"
proof -
  have env: "st_env rotated_store = local_env sample_crypto (sample_key CHR ''b'') [sample_key CHR ''a'']"
    by (simp add: rotated_store_def)
  have keys: "set [sample_key CHR ''b'', sample_key CHR ''a''] = set sample_keys"
    by (simp add: sample_keys_def)
  have ok: "db_ok (reads sample_crypto sample_keys) (found_db put_world)"
    using sample_ok(3) [OF sample_trusted(1)] by simp
  obtain m w' where get: "GetMany sample_crypto rotated_store ''c'' [sample_id, ''tok_none''] put_world = (Inr m, w')"
    and m: "\<forall>oid p. map_of m oid = Some p \<longleftrightarrow>
       (\<exists>r \<in> set (objects (found_db put_world)). o_id r = oid \<and> o_collection r = ''c''
          \<and> oid \<in> set [sample_id, ''tok_none''] \<and> \<not> o_deleted r
          \<and> reads sample_crypto sample_keys (sealed_of r) (row_aad r) p)"
    using GetMany_returns [OF sample_valid keys env ok fine_put_world, of "''c''" "[sample_id, ''tok_none'']"]
    by blast
  have "map_of m sample_id = Some ''{}''"
    unfolding m [rule_format] using sample_row_in sample_row_reads by auto
  with get show ?thesis by blast
qed

section \<open>From a put to a later get\<close>

lemma found_commits: "rivals_obey C ix G w \<Longrightarrow> (commit C ix G)\<^sup>*\<^sup>* (w_db w) (found_db w)"
  by (simp add: rivals_obey_def found_db_def)

lemma evolves_row:
  assumes "evolves G d d'" and "db_ok G d'" and "r \<in> set (objects d)" and "r' \<in> set (objects d')"
    and "o_id r' = o_id r"
  shows "row_step G r r'"
proof -
  from assms(1) have "grows (row_step G) (objects d) (objects d')" by (simp add: evolves_def)
  from grows_member [OF this assms(3)] obtain r1 where r1: "r1 \<in> set (objects d')" "row_step G r r1" by blast
  then have "o_id r1 = o_id r'" using assms(5) by (simp add: row_step_def)
  with r1(1) assms(2,4) have "r1 = r'" by (auto simp: db_ok_def intro: distinct_map_eq)
  with r1(2) show ?thesis by simp
qed

lemma stored_row:
  assumes "stored C st actor c items oids d d'" and "trusted C G (st_env st)" and "i < length items"
  shows "\<exists>r \<in> set (objects d'). o_id r = oids ! i \<and> o_collection r = c \<and> \<not> o_deleted r
           \<and> G (sealed_of r) (row_aad r) (it_plaintext (items ! i))"
proof -
  from assms(1) obtain rows where rows: "objects d' = objects d @ rows" "map o_id rows = oids"
    and l: "list_all2 (stores_item C st c) items rows" unfolding stored_def by blast
  from l have len: "length rows = length items" by (simp add: list_all2_lengthD)
  from l assms(3) have s: "stores_item C st c (items ! i) (rows ! i)" by (rule list_all2_nthD)
  then obtain h h' where "Seal C (st_env st) (it_plaintext (items ! i)) (aad c (o_id (rows ! i))) h
      = (Inr (sealed_of (rows ! i)), h')"
    by (auto simp: stores_item_def seals_def)
  from trusted_Seal [OF assms(2) this] s
  have "G (sealed_of (rows ! i)) (row_aad (rows ! i)) (it_plaintext (items ! i))"
    by (simp add: row_aad_def stores_item_def)
  moreover have "rows ! i \<in> set (objects d')" "o_id (rows ! i) = oids ! i"
    using rows len assms(3) by (auto simp flip: rows(2))
  ultimately show ?thesis using s by (auto simp: stores_item_def)
qed

text \<open>From a successful PutMany over any run to what a later operation finds.\<close>

lemma put_run:
  assumes "valid_keys C keys" and "trusted C (reads C keys) (st_env st1)"
    and "trusted C (reads C keys) (st_env st2)" and "st_index st2 = st_index st1"
    and "rivals_obey C (st_index st1) (reads C keys) w" and "db_ok (reads C keys) (w_db w)"
    and "\<forall>it \<in> set items. gomap_ok (it_indexed it)"
    and "PutMany C st1 actor c items w = (Inr oids, w1)" and "(serve C st2)\<^sup>*\<^sup>* w1 w2"
  shows "stored C st1 actor c items oids (found_db w) (w_db w1)"
    and "(commit C (st_index st1) (reads C keys))\<^sup>*\<^sup>* (w_db w1) (found_db w2)"
    and "db_ok (reads C keys) (found_db w2)"
proof -
  let ?G = "reads C keys" and ?ix = "st_index st1"
  have rl: "spec.rely C ?ix ?G w" using assms(5) by (simp add: rely_iff)
  note g1 = guar_PutMany [OF assms(2) rl assms(8)]
  note rl1 = spec.guar_rely [OF g1 rl] and ok1 = spec.stable_guar [OF stable_db_ok g1 assms(6)]
  have g2: "spec.guar C ?ix ?G w1 w2"
    using run_guar [OF assms(9,3) definite_reads [OF assms(1)] _ ok1] rl1 assms(4) by (simp add: rely_iff)
  have "rivals_obey C ?ix ?G w2" using spec.guar_rely [OF g2 rl1] by (simp add: rely_iff)
  note c2 = found_commits [OF this]
  show c12: "(commit C ?ix ?G)\<^sup>*\<^sup>* (w_db w1) (found_db w2)"
    using g2 c2 by (auto simp: spec.guar_def intro: rtranclp_trans)
  show "db_ok ?G (found_db w2)" by (rule commits_lawful(2) [OF c12 ok1])
  show "stored C st1 actor c items oids (found_db w) (w_db w1)"
    using PutMany_outcome [OF assms(8,7)] by simp
qed

lemma put_run_get:
  assumes "valid_keys C keys" and "trusted C (reads C keys) (st_env st1)"
    and "trusted C (reads C keys) (st_env st2)" and "st_index st2 = st_index st1"
    and "st_env st3 = local_env C k ks" and "set (k # ks) = set keys"
    and "rivals_obey C (st_index st1) (reads C keys) w" and "db_ok (reads C keys) (w_db w)"
    and "\<forall>it \<in> set items. gomap_ok (it_indexed it)"
    and "PutMany C st1 actor c items w = (Inr oids, w1)" and "(serve C st2)\<^sup>*\<^sup>* w1 w2" and "fine w2"
    and "i < length items"
  shows "\<exists>m w3. GetMany C st3 c [oids ! i] w2 = (Inr m, w3) \<and>
    (map_of m (oids ! i) = Some (it_plaintext (items ! i)) \<or>
     map_of m (oids ! i) = None \<and> (\<exists>r \<in> set (objects (found_db w2)). o_id r = oids ! i \<and> o_deleted r))"
proof -
  let ?G = "reads C keys"
  note run = put_run [OF assms(1-4,7-11)]
  note ev = commits_lawful(1) [OF run(2)] and ok2 = run(3)
  from stored_row [OF run(1) assms(2,13)] obtain r where r: "r \<in> set (objects (w_db w1))"
    "o_id r = oids ! i" "o_collection r = c" "\<not> o_deleted r"
    "?G (sealed_of r) (row_aad r) (it_plaintext (items ! i))" by blast
  from ev have "grows (row_step ?G) (objects (w_db w1)) (objects (found_db w2))" by (simp add: evolves_def)
  from grows_member [OF this r(1)] obtain r' where r': "r' \<in> set (objects (found_db w2))" "row_step ?G r r'"
    by blast
  then have id: "o_id r' = oids ! i" "o_collection r' = c" using r by (simp_all add: row_step_def)
  from GetMany_all [OF assms(1,6,5) ok2 assms(12), of c "[oids ! i]"] obtain m w3
    where get: "GetMany C st3 c [oids ! i] w2 = (Inr m, w3)"
    and m: "\<And>oid p. map_of m oid = Some p \<longleftrightarrow>
       (\<exists>r \<in> set (objects (found_db w2)). o_id r = oid \<and> o_collection r = c \<and> oid \<in> set [oids ! i]
          \<and> \<not> o_deleted r \<and> reads C keys (sealed_of r) (row_aad r) p)"
    by blast
  show ?thesis
  proof (cases "o_deleted r'")
    case False
    then have "?G (sealed_of r') (row_aad r') (it_plaintext (items ! i))"
      using r' r(5) by (simp add: row_step_def)
    with False r'(1) id have "map_of m (oids ! i) = Some (it_plaintext (items ! i))"
      unfolding m by auto
    with get show ?thesis by blast
  next
    case True
    have "map_of m (oids ! i) \<noteq> Some p" for p
    proof
      assume "map_of m (oids ! i) = Some p"
      then obtain r1 where "r1 \<in> set (objects (found_db w2))" "o_id r1 = oids ! i" "\<not> o_deleted r1"
        unfolding m by blast
      with r'(1) id True ok2 show False unfolding db_ok_def by (metis distinct_map_eq)
    qed
    then have "map_of m (oids ! i) = None" by auto
    with get r'(1) id True show ?thesis by blast
  qed
qed

text \<open>
  C1: What was put is what is got. After a successful PutMany by one server, any run of another
  server (rotations of the master key and reindexing included) with still other servers working
  in between, a get by a server that holds the keys returns for each new id the plaintext that
  was put, byte for byte, or nothing at all, and nothing only if the object has been shredded.
\<close>

theorem put_then_get:
  assumes "valid_keys C keys" and "trusted C (reads C keys) (st_env st1)"
    and "trusted C (reads C keys) (st_env st2)" and "st_index st2 = st_index st1"
    and "st_env st3 = local_env C k ks" and "set (k # ks) = set keys"
    and "rivals_obey C (st_index st1) (reads C keys) w" and "db_ok (reads C keys) (w_db w)"
    and "\<forall>it \<in> set items. gomap_ok (it_indexed it)"
    and "PutMany C st1 actor c items w = (Inr oids, w1)" and "(serve C st2)\<^sup>*\<^sup>* w1 w2" and "fine w2"
    and "i < length items"
  shows "\<exists>m w3. GetMany C st3 c [oids ! i] w2 = (Inr m, w3) \<and>
    (map_of m (oids ! i) = Some (it_plaintext (items ! i)) \<or>
     map_of m (oids ! i) = None \<and> (\<exists>r \<in> set (objects (found_db w2)). o_id r = oids ! i \<and> o_deleted r))"
  by (rule put_run_get [OF assms])

text \<open>A server with the new master key starts, and re-wraps what it finds.\<close>

definition started_world :: "unit world" where
  "started_world = snd (loadIndexKey sample_crypto (st_env rotated_store) put_world)"

definition rotated_world :: "unit world" where
  "rotated_world = snd (Rotate 3 rotated_store started_world)"

lemma rotated_run: "(serve sample_crypto rotated_store)\<^sup>*\<^sup>* put_world rotated_world"
proof -
  have "serve sample_crypto rotated_store put_world started_world"
    unfolding started_world_def by (rule serve.start) (rule prod.collapse [symmetric])
  moreover have "serve sample_crypto rotated_store started_world rotated_world"
    unfolding rotated_world_def by (rule sample_rotate)
  ultimately show ?thesis by (meson converse_rtranclp_into_rtranclp r_into_rtranclp)
qed

lemma rotated_both:
  "(case Rotate 3 rotated_store started_world of (x, w) \<Rightarrow>
      x = Some ((1, 0), None) \<and> w_weather w (w_clock w) = Fine)"
  by code_simp

lemma rotated_one: "fst (Rotate 3 rotated_store started_world) = Some ((1, 0), None)"
  using rotated_both by (simp add: case_prod_unfold)

lemma fine_rotated_world: "fine rotated_world"
  using rotated_both by (simp add: case_prod_unfold fine_def rotated_world_def)

lemma sample_put_result:
  "PutMany sample_crypto sample_store ''kim'' ''c'' [sample_item] sample_world = (Inr [sample_id], put_world)"
proof -
  have "fst (PutMany sample_crypto sample_store ''kim'' ''c'' [sample_item] sample_world) = Inr [sample_id]"
    by code_simp
  then show ?thesis by (metis put_world_def prod.collapse)
qed

theorem put_then_get_witness:
  "\<exists>m w3. GetMany sample_crypto rotated_store ''c'' [sample_id] rotated_world = (Inr m, w3)
     \<and> (map_of m sample_id = Some ''{}'' \<or>
        map_of m sample_id = None \<and> (\<exists>r \<in> set (objects (found_db rotated_world)). o_id r = sample_id \<and> o_deleted r))"
proof -
  have env: "st_env rotated_store = local_env sample_crypto (sample_key CHR ''b'') [sample_key CHR ''a'']"
    and ix: "st_index rotated_store = st_index sample_store"
    by (simp_all add: rotated_store_def sample_store_def)
  have keys: "set [sample_key CHR ''b'', sample_key CHR ''a''] = set sample_keys"
    by (simp add: sample_keys_def)
  have ok: "db_ok (reads sample_crypto sample_keys) (w_db sample_world)"
    by (simp add: sample_empty empty_db_ok)
  have maps: "\<forall>it \<in> set [sample_item]. gomap_ok (it_indexed it)" by (simp add: sample_item_def)
  from put_then_get [OF sample_valid sample_trusted ix env keys sample_rivals ok maps sample_put_result
      rotated_run fine_rotated_world, of 0]
  show ?thesis by (simp add: sample_item_def)
qed

section \<open>Search\<close>

text \<open>The ids a search is about, of which a page is the first \<open>SearchPage\<close> after the cursor.\<close>

definition matches :: "crypto \<Rightarrow> blind_key \<Rightarrow> db \<Rightarrow> string \<Rightarrow> string \<Rightarrow> string \<Rightarrow> string set" where
  "matches C ix d c f v =
     {x_object x | x. x \<in> set (blind_index d) \<and> x_collection x = c \<and> x_field x = f
                      \<and> x_hash x = Hash C ix c f v}"

lemma sorted_page:
  fixes xs :: "'a::linorder list"
  assumes "sorted xs" and "distinct xs" and "y \<in> set xs" and "y \<notin> set (take n xs)"
  shows "length (take n xs) = n \<and> (\<forall>z \<in> set (take n xs). z < y)"
proof -
  have y: "y \<in> set (drop n xs)" using assms(3,4) by (metis Un_iff append_take_drop_id set_append)
  then have "n < length xs" by (metis drop_all empty_iff list.set(1) not_le)
  moreover have "z < y" if "z \<in> set (take n xs)" for z
  proof -
    have "sorted (take n xs @ drop n xs)" "distinct (take n xs @ drop n xs)" using assms(1,2) by simp_all
    with that y have "z \<le> y" and "z \<noteq> y" unfolding sorted_append distinct_append by blast+
    then show ?thesis by simp
  qed
  ultimately show ?thesis by simp
qed

lemma Search_ids:
  assumes "fine w" and "db_ok G (found_db w)"
  shows "\<exists>ids w'. Search C st c f v after w = (Inr ids, w') \<and> w_db w' = found_db w
     \<and> sorted ids \<and> distinct ids \<and> length ids \<le> SearchPage
     \<and> set ids \<subseteq> {oid \<in> matches C (st_index st) (found_db w) c f v. after < oid}
     \<and> (\<forall>oid \<in> matches C (st_index st) (found_db w) c f v. after < oid \<longrightarrow> oid \<notin> set ids \<longrightarrow>
          length ids = SearchPage \<and> (\<forall>z \<in> set ids. z < oid))"
proof -
  let ?d = "found_db w"
  let ?p = "\<lambda>x. x_collection x = c \<and> x_field x = f \<and> x_hash x = Hash C (st_index st) c f v \<and> x_object x > after"
  let ?xs = "sort (map x_object (filter ?p (blind_index ?d)))"
  obtain w1 where s: "Search C st c f v after w = (Inr (take SearchPage ?xs), w1)" and "w_db w1 = ?d"
    using pool_exec_query [of "sql_select_index ?p SearchPage" w "take SearchPage ?xs"] assms(1)
    by (auto simp: Search_def sql_select_index_def fine_def)
  have "distinct (filter ?p (blind_index ?d))" using assms(2) by (simp add: db_ok_def)
  moreover have "inj_on x_object (set (filter ?p (blind_index ?d)))"
    by (rule inj_onI) (auto intro: index_row.equality)
  ultimately have dist: "distinct ?xs" by (simp add: distinct_map)
  have set: "set ?xs = {oid \<in> matches C (st_index st) ?d c f v. after < oid}"
    by (auto simp: matches_def)
  have "sorted ?xs" by simp
  note page = sorted_page [OF this dist, of _ SearchPage]
  have all: "length (take SearchPage ?xs) = SearchPage \<and> (\<forall>z \<in> set (take SearchPage ?xs). z < oid)"
    if "oid \<in> matches C (st_index st) ?d c f v" "after < oid" "oid \<notin> set (take SearchPage ?xs)" for oid
    by (rule page) (use that in \<open>simp_all only: set mem_Collect_eq simp_thms\<close>)
  have sub: "set (take SearchPage ?xs) \<subseteq> {oid \<in> matches C (st_index st) ?d c f v. after < oid}"
    unfolding set [symmetric] by (rule set_take_subset)
  have "sorted (take SearchPage ?xs)" "distinct (take SearchPage ?xs)" "length (take SearchPage ?xs) \<le> SearchPage"
    using dist by (simp_all add: sorted_wrt_take)
  note parts = s \<open>w_db w1 = ?d\<close> this sub
  have "\<forall>oid \<in> matches C (st_index st) ?d c f v. after < oid \<longrightarrow> oid \<notin> set (take SearchPage ?xs) \<longrightarrow>
          length (take SearchPage ?xs) = SearchPage \<and> (\<forall>z \<in> set (take SearchPage ?xs). z < oid)"
    using all by simp
  with parts show ?thesis
    by (intro exI [of _ "take SearchPage ?xs"] exI [of _ w1] conjI)
qed

lemma matches_live:
  "db_ok G d \<Longrightarrow> oid \<in> matches C ix d c f v \<Longrightarrow> \<exists>r \<in> set (objects d). o_id r = oid \<and> o_collection r = c \<and> \<not> o_deleted r"
  by (force simp: matches_def db_ok_def points_to_def)

text \<open>
  C10: A search page is the next ids in order. Of the objects whose blind-index entry is the hash
  of the searched value, a search whose round trip succeeds returns those after the cursor in
  strictly ascending order, at most SearchPage (100) of them, and it misses one only when the
  page is full and everything on it comes before the missed one, so that asking again after the
  last id of the page misses none. Every id returned is a live object of the collection.
\<close>

theorem Search_pages:
  assumes "fine w" and "db_ok G (found_db w)"
  shows "\<exists>ids w'. Search C st c f v after w = (Inr ids, w')
     \<and> sorted ids \<and> distinct ids \<and> length ids \<le> SearchPage
     \<and> (\<forall>oid \<in> set ids. after < oid \<and> oid \<in> matches C (st_index st) (found_db w) c f v
          \<and> (\<exists>r \<in> set (objects (found_db w)). o_id r = oid \<and> o_collection r = c \<and> \<not> o_deleted r))
     \<and> (\<forall>oid \<in> matches C (st_index st) (found_db w) c f v. after < oid \<longrightarrow> oid \<notin> set ids \<longrightarrow>
          length ids = SearchPage \<and> (\<forall>z \<in> set ids. z < oid))"
proof -
  from Search_ids [OF assms, of C st c f v after] obtain ids w' where
    s: "Search C st c f v after w = (Inr ids, w')" "sorted ids" "distinct ids" "length ids \<le> SearchPage"
    and sub: "set ids \<subseteq> {oid \<in> matches C (st_index st) (found_db w) c f v. after < oid}"
    and all: "\<forall>oid \<in> matches C (st_index st) (found_db w) c f v. after < oid \<longrightarrow> oid \<notin> set ids \<longrightarrow>
          length ids = SearchPage \<and> (\<forall>z \<in> set ids. z < oid)"
    by blast
  note live = matches_live [OF assms(2)]
  show ?thesis
    by (rule exI [of _ ids], rule exI [of _ w'], intro conjI ballI, (fact s)+)
      (use sub all live in blast)+
qed

theorem Search_pages_witness:
  "\<exists>ids w'. Search sample_crypto sample_store ''c'' ''mail'' ''a@b'' [] put_world = (Inr ids, w')
     \<and> sample_id \<in> set ids \<and> length ids \<le> 100"
proof -
  have ok: "db_ok (reads sample_crypto sample_keys) (found_db put_world)"
    using sample_ok(3) [OF sample_trusted(1)] by simp
  have "\<exists>x \<in> set (blind_index (found_db put_world)). x_object x = sample_id \<and> x_collection x = ''c''
      \<and> x_field x = ''mail'' \<and> x_hash x = Hash sample_crypto (st_index sample_store) ''c'' ''mail'' ''a@b''"
    unfolding found_put_world by code_simp
  then have m: "sample_id \<in> matches sample_crypto (st_index sample_store) (found_db put_world) ''c'' ''mail'' ''a@b''"
    unfolding matches_def mem_Collect_eq by metis
  have one: "length (blind_index (w_db put_world)) = 1" by code_simp
  from Search_pages [OF fine_put_world ok, of sample_crypto sample_store "''c''" "''mail''" "''a@b''" "[]"]
  obtain ids w' where s: "Search sample_crypto sample_store ''c'' ''mail'' ''a@b'' [] put_world = (Inr ids, w')"
    and d: "distinct ids" and len: "length ids \<le> SearchPage"
    and sub: "\<forall>oid \<in> set ids. oid \<in> matches sample_crypto (st_index sample_store) (found_db put_world) ''c'' ''mail'' ''a@b''"
    and all: "\<forall>oid \<in> matches sample_crypto (st_index sample_store) (found_db put_world) ''c'' ''mail'' ''a@b''.
       [] < oid \<longrightarrow> oid \<notin> set ids \<longrightarrow> length ids = SearchPage \<and> (\<forall>z \<in> set ids. z < oid)"
    by blast
  have "set ids \<subseteq> set (map x_object (blind_index (w_db put_world)))" using sub by (auto simp: matches_def)
  with d one have "length ids \<le> 1"
    by (metis card_mono distinct_card length_map List.finite_set card_length order_trans)
  then have "length ids \<noteq> SearchPage" by (simp add: SearchPage_def)
  moreover have "[] < sample_id" by (simp add: sample_id_def)
  ultimately have "sample_id \<in> set ids" using all m by blast
  with s len show ?thesis by (auto simp: SearchPage_def)
qed

end
