(* ===== verification/Gateway.thy ===== *)
theory Gateway
  imports ApiGate StoreReads
begin

text \<open>
  The API over the store: the store's operations as the vault of the API, the proof that they
  keep the vault's contract, and the properties that hold of the two together.
\<close>

section \<open>The store as a vault\<close>

definition store_vault :: "crypto \<Rightarrow> 'k store \<Rightarrow> 'k world vault" where
  "store_vault C st =
     \<lparr>v_PutMany = PutMany C st, v_GetMany = GetMany C st, v_Delete = Delete st,
      v_Search = Search C st, v_Subject = Subject, v_DeleteSubject = DeleteSubject st,
      v_AuditMany = AuditMany st\<rparr>"

definition vault_inv :: "crypto \<Rightarrow> 'k store \<Rightarrow> 'k world \<Rightarrow> bool" where
  "vault_inv C st w \<longleftrightarrow> rivals_obey C (st_index st) (\<lambda>_ _ _. True) w"

definition in_log :: "'k world \<Rightarrow> audit_entry \<Rightarrow> bool" where
  "in_log w e \<longleftrightarrow> audit_row_of e \<in> set (audit_log (w_db w))"

lemma in_tx_success:
  assumes "in_tx body w = (Inr x, w')" and "\<And>s r s'. body s = (r, s') \<Longrightarrow> frame (snd s) (snd s')"
  shows "\<exists>v v'. body (found_db w, v) = (Inr x, (w_db w', v'))"
  using in_tx_outcome [OF assms] by auto

lemma put_all_audit:
  "put_all C st actor c items oids d d' \<Longrightarrow> length oids = length items \<and>
   audit_log d' = audit_log d @ map (audit_row_of \<circ> object_entry actor ''create'' c) oids"
proof (induction C st actor c items oids d d' rule: put_all.induct)
  case (2 C st actor c it its oid oids d d')
  then obtain d1 where "put_effect C st actor c it oid d d1" and rest: "put_all C st actor c its oids d1 d'"
    by auto
  then have "audit_log d1 = audit_log d @ [audit_row_of (object_entry actor ''create'' c oid)]"
    by (auto simp: put_effect_def created_def)
  with "2.IH" [OF rest] show ?case by simp
qed auto

lemma PutMany_logged:
  fixes w :: "'k world"
  assumes "PutMany C st actor c items w = (Inr ids, w')"
  shows "length ids = length items \<and> list_all (\<lambda>i. in_log w' (object_entry actor ''create'' c i)) ids"
proof -
  obtain x w1 where tx: "in_tx (try_each (put_item C st actor c) items) w = (x, w1)" by (metis surj_pair)
  have db: "w_db w' = w_db w1" using assms tx by (auto simp: PutMany_def emit_def split: sum.splits)
  from assms tx obtain puts where x: "x = Inr puts" and ids: "ids = map fst puts"
    by (auto simp: PutMany_def split: sum.splits)
  have "\<exists>v (v' :: 'k world). try_each (put_item C st actor c) items (found_db w, v) = (Inr puts, (w_db w1, v'))"
    by (rule in_tx_success [OF tx [unfolded x]]) (rule put_items_frame)
  then obtain v and v' :: "'k world" where b: "try_each (put_item C st actor c) items (found_db w, v) = (Inr puts, (w_db w1, v'))"
    by blast
  from put_all_audit [OF conjunct1 [OF try_put_all [OF b]]] show ?thesis
    by (auto simp: ids db in_log_def list_all_iff)
qed

lemma Delete_logged:
  fixes w :: "'k world"
  assumes "Delete st actor c oid w = (Inr u, w')"
  shows "in_log w' (object_entry actor ''delete'' c oid)"
proof -
  obtain x w1 where tx: "in_tx (delete_in_tx actor c oid) w = (x, w1)" by (metis surj_pair)
  have db: "w_db w' = w_db w1" using assms tx by (auto simp: Delete_def emit_def split: sum.splits)
  from assms tx obtain e where x: "x = Inr e" by (auto simp: Delete_def split: sum.splits)
  have "\<exists>v (v' :: 'k world). delete_in_tx actor c oid (found_db w, v) = (Inr e, (w_db w1, v'))"
    by (rule in_tx_success [OF tx [unfolded x]]) (rule delete_in_tx_frame)
  then obtain v and v' :: "'k world" where b: "delete_in_tx actor c oid (found_db w, v) = (Inr e, (w_db w1, v'))"
    by blast
  from delete_in_tx_effect [OF b] show ?thesis by (simp add: in_log_def db delete_effect_def)
qed

lemma DeleteSubject_logged:
  fixes w :: "'k world"
  assumes "DeleteSubject st actor who w = (Inr refs, w')"
  shows "w_db w' = subject_effect actor who (found_db w)
    \<and> refs = map ref_of (filter (belongs who) (objects (found_db w)))"
proof -
  obtain x w1 where tx: "in_tx (delete_subject_in_tx actor who) w = (x, w1)" by (metis surj_pair)
  have db: "w_db w' = w_db w1" using assms tx by (auto simp: DeleteSubject_def emit_def split: sum.splits)
  from assms tx obtain es where x: "x = Inr (refs, es)" by (auto simp: DeleteSubject_def split: sum.splits)
  have "\<exists>v (v' :: 'k world). delete_subject_in_tx actor who (found_db w, v) = (Inr (refs, es), (w_db w1, v'))"
    by (rule in_tx_success [OF tx [unfolded x]]) (rule delete_subject_in_tx_frame)
  then obtain v and v' :: "'k world" where b: "delete_subject_in_tx actor who (found_db w, v) = (Inr (refs, es), (w_db w1, v'))"
    by blast
  from delete_subject_in_tx_effect [OF b] show ?thesis by (simp add: db)
qed

lemma AuditMany_logged:
  assumes "AuditMany st es w = (Inr u, w')"
  shows "list_all (in_log w') es"
proof (cases "es = []")
  case False
  with assms obtain w1 y where q: "pool_exec (sql_insert_audit (map audit_row_of es)) w = (Inr y, w1)"
    and db: "w_db w' = w_db w1"
    by (auto simp: AuditMany_def emit_def split: prod.splits sum.splits)
  then have "set (map audit_row_of es) \<subseteq> set (audit_log (w_db w'))"
    by (auto simp: pool_exec_def sql_insert_audit_def split: prod.splits if_splits)
  then show ?thesis by (auto simp: list_all_iff in_log_def)
qed simp

interpretation sv: vault_laws "store_vault C st" "vault_inv C st"
    "spec.guar C (st_index st) (\<lambda>_ _ _. True)" in_log for C st
proof (unfold_locales, goal_cases)
  case (1 v)
  then show ?case by simp
next
  case (2 v v')
  then show ?case using spec.guar_rely by (auto simp: vault_inv_def rely_iff)
next
  case (3 v v' e)
  then have "evolves (\<lambda>_ _ _. True) (w_db v) (w_db v')"
    using commits_lawful(1) by (auto simp: spec.guar_def)
  with 3(2) show ?case by (auto simp: in_log_def evolves_def)
next
  case (4 v v1 v2)
  then show ?case by (rule spec.guar_trans)
next
  case (5 v actor c items r v')
  then have "spec.guar C (st_index st) (\<lambda>_ _ _. True) v v'"
    by (intro guar_PutMany [OF trusted_True]) (simp_all add: vault_inv_def rely_iff store_vault_def)
  with 5 PutMany_logged show ?case by (force simp: store_vault_def)
next
  case (6 v c oids m v')
  then show ?case by (intro guar_GetMany) (simp_all add: vault_inv_def rely_iff store_vault_def)
next
  case (7 v actor c oid u v')
  then have "spec.guar C (st_index st) (\<lambda>_ _ _. True) v v'"
    by (intro guar_Delete) (simp_all add: vault_inv_def rely_iff store_vault_def)
  with 7 Delete_logged show ?case by (auto simp: store_vault_def)
next
  case (8 v c f x after r v')
  then show ?case by (intro guar_Search) (simp_all add: vault_inv_def rely_iff store_vault_def)
next
  case (9 v who rs v')
  then show ?case by (intro guar_Subject) (simp_all add: vault_inv_def rely_iff store_vault_def)
next
  case (10 v actor who rs v')
  then have "spec.guar C (st_index st) (\<lambda>_ _ _. True) v v'"
    by (intro guar_DeleteSubject) (simp_all add: vault_inv_def rely_iff store_vault_def)
  with 10 DeleteSubject_logged show ?case
    by (fastforce simp: store_vault_def list_all_iff in_log_def subject_effect_def erase_effect_def
        delete_entry_def)
next
  case (11 v es u v')
  then have "spec.guar C (st_index st) (\<lambda>_ _ _. True) v v'"
    by (intro guar_AuditMany) (simp_all add: vault_inv_def rely_iff store_vault_def)
  with 11 AuditMany_logged show ?case by (auto simp: store_vault_def)
qed

end
