(* ===== verification/SchemaTheorems.thy ===== *)
theory SchemaTheorems
  imports Schema
begin

text \<open>
  What the schema promises: masks release only the declared parts of a value, a card number with
  a typing error is refused, and what is indexed is what a search looks for.
\<close>

section \<open>Masks\<close>

text \<open>
  The parts of a value its mask may depend on, in terms of its bytes alone: the first character of
  what comes before the first @ of an address, which in UTF-8 is a byte and the continuation bytes
  after it, and what comes after the @; the last four of the digits of a number that has as many.
\<close>

fun leading :: "string \<Rightarrow> string" where
  "leading [] = []"
| "leading (c # cs) = c # takeWhile (\<lambda>d. 0x80 \<le> byte d \<and> byte d \<le> 0xBF) cs"

definition released :: "string \<Rightarrow> string \<Rightarrow> string list" where
  "released t v =
     (if t = ''email'' then
        (case dropWhile (\<lambda>x. x \<noteq> CHR ''@'') v of
           _ # c # domain \<Rightarrow> [leading (takeWhile (\<lambda>x. x \<noteq> CHR ''@'') v), c # domain]
         | _ \<Rightarrow> [])
      else if t = ''phone'' \<or> t = ''card'' then
        (let ds = filter (\<lambda>c. 0x30 \<le> byte c \<and> byte c \<le> 0x39) v
         in if length ds < 4 then [] else [rev (take 4 (rev ds))])
      else [])"

lemma takeWhile_is_cont: "takeWhile (\<lambda>d. 0x80 \<le> byte d \<and> byte d \<le> 0xBF) cs = takeWhile is_cont cs"
  by (rule takeWhile_cong) (simp_all add: is_cont_def)

lemma second_is_cont: "second3 b c \<Longrightarrow> is_cont c" "second4 b c \<Longrightarrow> is_cont c"
  by (auto simp: second3_def second4_def is_cont_def split: if_splits)

lemma decode_takeWhile:
  "decode2 b (takeWhile is_cont s) = decode2 b s"
  "decode3 b (takeWhile is_cont s) = decode3 b s"
  "decode4 b (takeWhile is_cont s) = decode4 b s"
  using second_is_cont by (cases "(b, s)" rule: decode2.cases; cases "(b, s)" rule: decode3.cases;
      cases "(b, s)" rule: decode4.cases; auto)+

lemma decode_leading: "decode_rune (leading s) = decode_rune s"
  by (cases s) (simp_all add: decode_rune_def takeWhile_is_cont decode_takeWhile Let_def)

lemma first_rune_leading:
  "first_rune s = (if leading s = [] then [] else encode_rune (fst (decode_rune (leading s))))"
proof (cases s)
  case (Cons c cs)
  obtain r n where "decode_rune (c # cs) = (r, n)"
    "segments (c # cs) = (r, take n (c # cs)) # segments (drop n (c # cs))"
    by (rule segments_Cons_cases)
  with Cons show ?thesis unfolding decode_leading by (simp add: first_rune_def runes_def)
qed (simp add: first_rune_def)

lemma released_email:
  "released ''email'' v =
     (let domain = drop 1 (dropWhile (\<lambda>x. x \<noteq> CHR ''@'') v)
      in if domain = [] then [] else [leading (takeWhile (\<lambda>x. x \<noteq> CHR ''@'') v), domain])"
proof (cases "dropWhile (\<lambda>x. x \<noteq> CHR ''@'') v")
  case (Cons c domain)
  then show ?thesis by (cases domain) (simp_all add: released_def)
qed (simp add: released_def del: dropWhile_eq_Nil_conv)

lemma maskEmail_released:
  assumes "released ''email'' v = released ''email'' v'"
  shows "maskEmail v = maskEmail v'"
  using assms unfolding released_email maskEmail_def cut_at_def first_rune_leading
  by (simp add: Let_def split: if_splits)

lemma last4_released:
  "released t v = released t v' \<Longrightarrow> t = ''phone'' \<or> t = ''card'' \<Longrightarrow> last4 (digits v) = last4 (digits v')"
proof -
  have ds: "filter (\<lambda>c. 0x30 \<le> byte c \<and> byte c \<le> 0x39) x = digits x" for x
    by (auto simp: digits_eq_filter is_digit_def intro: filter_cong)
  have "last4 (digits x) = []" if "length (digits x) < 4" for x using that by (simp add: last4_def)
  moreover have "rev (take 4 (rev (digits x))) = last4 (digits x)" if "\<not> length (digits x) < 4" for x
    using that by (simp add: last4_def rev_take)
  ultimately show "released t v = released t v' \<Longrightarrow> t = ''phone'' \<or> t = ''card'' \<Longrightarrow> last4 (digits v) = last4 (digits v')"
    by (auto simp: released_def ds Let_def split: if_splits)
qed

definition declared_type :: "schema \<Rightarrow> string \<Rightarrow> string \<Rightarrow> string" where
  "declared_type s cname name =
     (case map_of (fields_of s cname) name of Some f \<Rightarrow> f_type f | None \<Rightarrow> ''string'')"

text \<open>Two fields a reader of the masked view is not meant to tell apart.\<close>

definition looks_alike :: "schema \<Rightarrow> string \<Rightarrow> string \<times> bytes \<Rightarrow> string \<times> bytes \<Rightarrow> bool" where
  "looks_alike s cname nr nr' \<longleftrightarrow>
     fst nr = fst nr' \<and>
     (case (unmarshal_string (snd nr), unmarshal_string (snd nr')) of
        (None, None) \<Rightarrow> True
      | (Some v, Some v') \<Rightarrow>
          (let t = declared_type s cname (fst nr) in released t v = released t v')
      | _ \<Rightarrow> False)"

lemma mask_released:
  assumes "map_of types t = Some ft" and "released t v = released t v'"
  shows "ft_mask ft v = ft_mask ft v'"
  using assms maskEmail_released [of v v'] last4_released [of t v v']
  by (auto simp: types_def type_string_def type_email_def type_phone_def type_card_def
      maskPhone_def maskCard_def split: if_splits)

lemma mask_member_alike:
  assumes "looks_alike s cname nr nr'"
  shows "mask_member s cname nr = mask_member s cname nr'"
proof -
  obtain name raw raw' where n: "nr = (name, raw)" "nr' = (name, raw')"
    using assms by (cases nr; cases nr') (simp add: looks_alike_def)
  show ?thesis
  proof (cases "unmarshal_string raw")
    case None
    with assms n show ?thesis
      by (cases "unmarshal_string raw'") (simp_all add: looks_alike_def mask_member_def)
  next
    case (Some v)
    with assms n obtain v' where v': "unmarshal_string raw' = Some v'"
      and r: "released (declared_type s cname name) v = released (declared_type s cname name) v'"
      by (cases "unmarshal_string raw'") (simp_all add: looks_alike_def Let_def)
    have "mask_member s cname (name, raw) =
        (case map_of types (declared_type s cname name) of None \<Rightarrow> Inl Nil_call | Some ft \<Rightarrow> Inr (name, ft_mask ft v))"
      and "mask_member s cname (name, raw') =
        (case map_of types (declared_type s cname name) of None \<Rightarrow> Inl Nil_call | Some ft \<Rightarrow> Inr (name, ft_mask ft v'))"
      by (simp_all add: mask_member_def declared_type_def Let_def Some v')
    then show ?thesis
      using mask_released [OF _ r] by (simp add: n split: option.split)
  qed
qed

lemma Mask_alike:
  assumes "list_all2 (looks_alike s cname) obj obj'"
  shows "Mask s cname obj = Mask s cname obj'"
  using assms unfolding Mask_def
proof (induction rule: list_all2_induct)
  case (Cons nr obj nr' obj')
  with mask_member_alike [OF Cons(1)] show ?case by (simp split: sum.split)
qed simp

text \<open>
  C27: A masked view shows the released part of a value and nothing else. Two objects with the same
  field names whose values agree in what their declared type releases (the first character and
  the domain of an email address, the last four digits of a phone or card number, nothing of
  any other string, and nothing of a value that is not a string) have the same masked view.
\<close>

theorem masks_release_only:
  assumes "list_all2 (looks_alike s cname) obj obj'"
  shows "Mask s cname obj = Mask s cname obj'"
  using assms by (rule Mask_alike)

definition card_schema :: schema where
  "card_schema = [(''c'', \<lparr>c_fields = [(''card'', \<lparr>f_type = ''card'', f_index = False, f_fragments = [''last4'']\<rparr>)]\<rparr>)]"

definition json_text :: "string \<Rightarrow> bytes" where
  "json_text v = quote # v @ [quote]"

theorem masks_release_only_witness:
  "Mask card_schema ''c'' [(''card'', json_text ''4111 1111 1111 1111'')]
   = Mask card_schema ''c'' [(''card'', json_text ''5500 0000 0000 1111'')]"
  by (rule masks_release_only) code_simp

section \<open>Card numbers\<close>

lemma luhn_at:
  "luhn (xs @ c # ys) \<longleftrightarrow>
     (luhn_sum False 0 (rev ys) + luhn_term (odd (length ys)) c
        + luhn_sum (even (length ys)) 0 (rev xs)) mod 10 = 0"
  by (simp add: luhn_def luhn_sum_append luhn_sum_Cons add.assoc)

lemma luhn_at2:
  "luhn (xs @ c # d # ys) \<longleftrightarrow>
     (luhn_sum False 0 (rev ys) + luhn_sum (odd (length ys)) 0 (rev xs)
        + (luhn_term (odd (length ys)) d + luhn_term (even (length ys)) c)) mod 10 = 0"
  by (simp add: luhn_def luhn_sum_append luhn_sum_Cons ac_simps)

lemma accepted_card: "validateCard v = Inr () \<Longrightarrow> luhn (digits v)"
  by (auto simp: validateCard_def Let_def split: if_splits)

lemma digits_are_digits: "c \<in> set (digits v) \<Longrightarrow> is_digit c"
  by (simp add: digits_eq_filter)

lemma same_digit: "(a + b) mod 10 = 0 \<Longrightarrow> (a + c) mod 10 = 0 \<Longrightarrow> b < 10 \<Longrightarrow> c < 10 \<Longrightarrow> b = (c :: nat)"
proof -
  assume "(a + b) mod 10 = 0" "(a + c) mod 10 = 0" and digit: "b < 10" "c < 10"
  then have d: "10 dvd a + b" "10 dvd a + c" by (simp_all only: mod_0_imp_dvd)
  from dvd_diff_nat [OF d] dvd_diff_nat [OF d(2,1)] have "10 dvd b - c" "10 dvd c - b" by simp_all
  with digit show ?thesis using nat_dvd_not_less [of "b - c" 10] nat_dvd_not_less [of "c - b" 10] by linarith
qed

lemma luhn_one_digit:
  assumes "luhn (xs @ c # ys)" and "luhn (xs @ d # ys)" and "is_digit c" and "is_digit d"
  shows "c = d"
proof -
  let ?rest = "luhn_sum False 0 (rev ys) + luhn_sum (even (length ys)) 0 (rev xs)"
  have "(?rest + luhn_term (odd (length ys)) c) mod 10 = 0" "(?rest + luhn_term (odd (length ys)) d) mod 10 = 0"
    using assms(1,2) by (simp_all add: luhn_at ac_simps)
  from same_digit [OF this luhn_term_less [OF assms(3)] luhn_term_less [OF assms(4)]]
  show ?thesis by (rule luhn_term_inj [OF assms(3,4)])
qed

lemma same_mod:
  assumes "(a + b) mod 10 = (0 :: nat)" and "(a + c) mod 10 = 0"
  shows "b mod 10 = c mod 10"
proof -
  obtain k l where "a + b = 10 * k" "a + c = 10 * l" using assms by (auto simp: mod_eq_0_iff_dvd elim!: dvdE)
  then have "b + 10 * l = c + 10 * k" by simp
  then have "(b + 10 * l) mod 10 = (c + 10 * k) mod 10" by simp
  then show ?thesis by simp
qed

lemma luhn_swap:
  assumes "luhn (xs @ c # d # ys)" and "luhn (xs @ d # c # ys)" and "is_digit c" and "is_digit d"
  shows "c = d \<or> {c, d} = {CHR ''0'', CHR ''9''}"
proof (rule ccontr)
  assume no: "\<not> ?thesis"
  let ?p = "odd (length ys)"
  have even: "(\<not> ?p) = even (length ys)" by simp
  from no have "(luhn_term ?p d + luhn_term (\<not> ?p) c) mod 10 \<noteq> (luhn_term ?p c + luhn_term (\<not> ?p) d) mod 10"
    using luhn_term_swap [OF assms(4,3), of ?p] unfolding insert_commute [of d c] by blast
  moreover have "(luhn_term ?p d + luhn_term (\<not> ?p) c) mod 10 = (luhn_term ?p c + luhn_term (\<not> ?p) d) mod 10"
    using same_mod [OF assms(1) [unfolded luhn_at2] assms(2) [unfolded luhn_at2]] unfolding even .
  ultimately show False by blast
qed

text \<open>One digit wrong, or two neighbours swapped other than a 0 and a 9.\<close>

definition mistyped :: "string \<Rightarrow> string \<Rightarrow> bool" where
  "mistyped ds ds' \<longleftrightarrow>
     (\<exists>xs c d ys. c \<noteq> d \<and> ds = xs @ c # ys \<and> ds' = xs @ d # ys)
     \<or> (\<exists>xs c d ys. c \<noteq> d \<and> {c, d} \<noteq> {CHR ''0'', CHR ''9''}
          \<and> ds = xs @ c # d # ys \<and> ds' = xs @ d # c # ys)"

text \<open>
  C29: A mistyped card number is refused. If a value is accepted as a card number, no value is whose
  digits differ from it in exactly one place, or in two neighbouring digits swapped, except for
  the swap of a 0 and a 9 that the checksum is known not to see. Separators do not matter.
\<close>

theorem mistyped_card_refused:
  assumes "validateCard v = Inr ()" and "mistyped (digits v) (digits v')"
  shows "validateCard v' \<noteq> Inr ()"
proof
  assume "validateCard v' = Inr ()"
  with assms(1) have l: "luhn (digits v)" "luhn (digits v')" by (simp_all add: accepted_card)
  from assms(2) show False
    unfolding mistyped_def
  proof (elim disjE exE conjE)
    fix xs c d ys
    assume d: "c \<noteq> d" "digits v = xs @ c # ys" "digits v' = xs @ d # ys"
    then have "is_digit c" "is_digit d" by (auto intro: digits_are_digits [of _ v] digits_are_digits [of _ v'])
    with luhn_one_digit [of xs c ys d] l d show False by simp
  next
    fix xs c d ys
    assume d: "c \<noteq> d" "{c, d} \<noteq> {CHR ''0'', CHR ''9''}" "digits v = xs @ c # d # ys" "digits v' = xs @ d # c # ys"
    then have "is_digit c" "is_digit d" by (auto intro: digits_are_digits [of _ v])
    with luhn_swap [of xs c d ys] l d show False by simp
  qed
qed

lemma char_1_2: "CHR ''1'' \<noteq> CHR ''2''"
  by simp

theorem mistyped_card_refused_witness:
  "validateCard ''4111-1111-1111-1112'' \<noteq> Inr ()"
proof (rule mistyped_card_refused)
  show "validateCard ''4111 1111 1111 1111'' = Inr ()" by code_simp
  have "digits ''4111 1111 1111 1111'' = ''411111111111111'' @ CHR ''1'' # []"
    and "digits ''4111-1111-1111-1112'' = ''411111111111111'' @ CHR ''2'' # []" by code_simp+
  then show "mistyped (digits ''4111 1111 1111 1111'') (digits ''4111-1111-1111-1112'')"
    unfolding mistyped_def by (metis (no_types, lifting) char_1_2)
qed

section \<open>The blind index\<close>

text \<open>What one field adds to the index.\<close>

definition index_pairs :: "json_object \<Rightarrow> string \<times> field \<Rightarrow> string gomap" where
  "index_pairs object nf =
     (case nf of (name, f) \<Rightarrow>
        (case Option.bind (map_of object name) unmarshal_string of
           None \<Rightarrow> []
         | Some v \<Rightarrow>
             (let normalized = (case normalize_fn (f_type f) of None \<Rightarrow> v | Some nfun \<Rightarrow> nfun v) in
              (if f_index f then [(name, normalized)] else []) @
              (if fragmentLast4 \<in> set (f_fragments f) \<and> 4 \<le> length normalized
               then [(fragment_name name, drop (length normalized - 4) normalized)] else []))))"

abbreviation assign :: "string gomap \<Rightarrow> string gomap \<Rightarrow> string gomap" where
  "assign ps out \<equiv> fold (\<lambda>p. AList.update (fst p) (snd p)) ps out"

lemma index_field_pairs:
  assumes "field_ok f"
  shows "index_field object (name, f) out = Inr (assign (index_pairs object (name, f)) out)"
proof (cases "f_index f \<or> f_fragments f \<noteq> []")
  case True
  with assms field_ok_normalizes obtain nfun where "normalize_fn (f_type f) = Some nfun" by blast
  with True show ?thesis
    by (auto simp: index_field_def index_pairs_def Let_def split: option.split)
qed (auto simp: index_field_def index_pairs_def Let_def split: option.split)

lemma index_fields_pairs:
  "\<forall>(name, f) \<in> set nfs. field_ok f \<Longrightarrow>
   index_fields object nfs out = Inr (assign (concat (map (index_pairs object) nfs)) out)"
proof (induction nfs arbitrary: out)
  case (Cons nf nfs)
  then show ?case by (cases nf) (simp add: index_field_pairs)
qed simp

text \<open>
  No declared field is named like the fragment of another one. Without that the two would write
  the same index name, and the order of the map would decide; a lemma below shows it.
\<close>

definition no_clash :: "field gomap \<Rightarrow> bool" where
  "no_clash fs \<longleftrightarrow> (\<forall>n \<in> fst ` set fs. \<forall>n' \<in> fst ` set fs. n \<noteq> fragment_name n')"

lemma fragment_name_inj [simp]: "fragment_name n = fragment_name n' \<longleftrightarrow> n = n'"
  by (simp add: fragment_name_def)

lemma fragment_name_neq [simp]: "fragment_name n \<noteq> n" "n \<noteq> fragment_name n"
  by (simp_all add: fragment_name_def)

lemma index_pairs_keys: "k \<in> fst ` set (index_pairs object (n, f)) \<Longrightarrow> k = n \<or> k = fragment_name n"
  by (auto simp: index_pairs_def Let_def split: option.splits if_splits)

lemma index_pairs_distinct: "distinct (map fst (index_pairs object nf))"
  by (cases nf) (auto simp: index_pairs_def Let_def split: option.split)

lemma index_pairs_disjoint:
  assumes "n \<noteq> n'" and "n \<noteq> fragment_name n'" and "n' \<noteq> fragment_name n"
  shows "fst ` set (index_pairs object (n, f)) \<inter> fst ` set (index_pairs object (n', f')) = {}"
  using assms by (auto dest!: index_pairs_keys [OF imageI])

lemma pairs_distinct:
  "gomap_ok fs \<Longrightarrow> no_clash fs \<Longrightarrow> distinct (map fst (concat (map (index_pairs object) fs)))"
proof (induction fs)
  case (Cons nf fs)
  obtain n f where nf: "nf = (n, f)" by (cases nf)
  from Cons.prems(2) have "no_clash fs" by (auto simp: no_clash_def)
  with Cons have IH: "distinct (map fst (concat (map (index_pairs object) fs)))" by simp
  have "fst ` set (index_pairs object nf) \<inter> fst ` set (index_pairs object (n', f')) = {}"
    if m: "(n', f') \<in> set fs" for n' f'
    unfolding nf
  proof (rule index_pairs_disjoint)
    have "n' \<in> fst ` set fs" using m by force
    then show "n \<noteq> n'" using Cons.prems(1) nf by auto
    show "n \<noteq> fragment_name n'" "n' \<noteq> fragment_name n"
      using Cons.prems(2) \<open>n' \<in> fst ` set fs\<close> by (auto simp: no_clash_def nf)
  qed
  then have "fst ` set (index_pairs object nf) \<inter> (\<Union>x \<in> set fs. fst ` set (index_pairs object x)) = {}"
    unfolding Int_UN_distrib by (intro equals0I) (metis UN_E surj_pair empty_iff)
  moreover have "fst ` set (concat (map (index_pairs object) fs)) = (\<Union>x \<in> set fs. fst ` set (index_pairs object x))"
    by (simp add: image_UN)
  ultimately have "fst ` set (index_pairs object nf) \<inter> fst ` set (concat (map (index_pairs object) fs)) = {}"
    by simp
  with IH index_pairs_distinct show ?case by (simp add: distinct_append)
qed simp

lemma Indexed_pairs:
  assumes "schema_ok s" and "maps_ok s" and "no_clash (fields_of s cname)"
    and "Indexed pick s cname object = Inr m"
  shows "map_of m k = Some x \<longleftrightarrow>
    (\<exists>(n, f) \<in> set (fields_of s cname). (k, x) \<in> set (index_pairs object (n, f)))"
proof -
  let ?fs = "range_over pick (fields_of s cname)"
  have gm: "gomap_ok (fields_of s cname)" by (rule fields_of_gomap [OF assms(2)])
  then have set: "set ?fs = set (fields_of s cname)" by (rule set_range_over)
  have ok: "\<forall>(n, f) \<in> set ?fs. field_ok f"
    using fields_of_member_ok [OF assms(1)] by (auto simp: set)
  let ?ps = "concat (map (index_pairs object) ?fs)"
  have m: "m = assign ?ps []" using assms(4) index_fields_pairs [OF ok] by (simp add: Indexed_def)
  have "distinct (map fst ?ps)"
    using assms(3) by (intro pairs_distinct distinct_range_over gm) (simp add: no_clash_def set)
  have "(\<exists>r \<in> set ps. fst r = k \<and> snd r = x) \<longleftrightarrow> (k, x) \<in> set ps" for ps by force
  with map_of_fold_update [OF \<open>distinct (map fst ?ps)\<close>, of snd "[]" k x]
  have "map_of m k = Some x \<longleftrightarrow> (k, x) \<in> set ?ps" unfolding m by auto
  then show ?thesis by (auto simp: set)
qed

text \<open>So the index values do not depend on the order the fields are visited in.\<close>

lemma Indexed_any_order:
  assumes "schema_ok s" and "maps_ok s" and "no_clash (fields_of s cname)"
    and "Indexed pick s cname object = Inr m"
  shows "\<exists>m'. Indexed pick' s cname object = Inr m' \<and> map_of m' = map_of m"
proof -
  obtain m' where m': "Indexed pick' s cname object = Inr m'"
    using Indexed_no_panic [OF assms(1,2)] by blast
  have "map_of m' k = Some x \<longleftrightarrow> map_of m k = Some x" for k x
    by (rule trans [OF Indexed_pairs [OF assms(1-3) m'] Indexed_pairs [OF assms, symmetric]])
  then have "map_of m' = map_of m" by (intro ext) (metis option.exhaust)
  with m' show ?thesis by blast
qed

text \<open>
  C28: A search finds exactly the objects it should. With a schema Parse accepts and no field named
  like another one's fragment, let Normalize send a search for a field and value to an index name
  and a normalized value. Then an object has that entry in the blind index if and only if it has
  the field, as a string, whose normal form equals the searched one, or, when the search is for
  the last-four fragment, whose last four digits equal it.
\<close>

theorem search_matches_exactly:
  assumes "Parse pick0 data = Inr s" and "no_clash (fields_of s cname)"
    and "Normalize s cname name v' = Inr (index, x)" and "Indexed pick s cname object = Inr m"
  shows "map_of m index = Some x \<longleftrightarrow>
    (\<exists>raw v f nfun. map_of object name = Some raw \<and> unmarshal_string raw = Some v
       \<and> map_of (fields_of s cname) name = Some f \<and> normalize_fn (f_type f) = Some nfun
       \<and> (if index = name then nfun v = nfun v' else last4 (nfun v) = nfun v'))"
proof -
  have ok: "schema_ok s" "maps_ok s" using Parse_schema_ok [OF assms(1)] by simp_all
  from assms(3) obtain f nfun where f: "map_of (fields_of s cname) name = Some f"
    and nf: "normalize_fn (f_type f) = Some nfun" and x: "x = nfun v'"
    and ix: "index = fragment_name name \<and> length x = 4 \<and> fragmentLast4 \<in> set (f_fragments f)
      \<or> index = name \<and> f_index f"
    by (auto simp: Normalize_def Let_def split: option.splits if_splits)
  have mem: "(name, f) \<in> set (fields_of s cname)" using f by (rule map_of_SomeD)
  have only: "n = name \<and> g = f" if g: "(n, g) \<in> set (fields_of s cname)"
    and k: "(index, x) \<in> set (index_pairs object (n, g))" for n g
  proof -
    have "index = n \<or> index = fragment_name n"
      using k by (intro index_pairs_keys [of _ object n g]) force
    moreover have "n \<in> fst ` set (fields_of s cname)" "name \<in> fst ` set (fields_of s cname)"
      using g mem by force+
    ultimately have "n = name"
      using ix assms(2) unfolding no_clash_def by (metis fragment_name_inj)
    with g f fields_of_gomap [OF ok(2)] show ?thesis by (metis map_of_is_SomeI option.inject)
  qed
  have "map_of m index = Some x \<longleftrightarrow> (index, x) \<in> set (index_pairs object (name, f))"
    using Indexed_pairs [OF ok assms(2,4), of index x] only mem by blast
  also have "\<dots> \<longleftrightarrow> (\<exists>raw v. map_of object name = Some raw \<and> unmarshal_string raw = Some v
      \<and> (if index = name then nfun v = nfun v' else last4 (nfun v) = nfun v'))"
    using ix by (cases "map_of object name"; cases "unmarshal_string (the (map_of object name))")
      (auto simp: index_pairs_def nf Let_def x last4_def split: option.split)
  finally show ?thesis using f nf by auto
qed

text \<open>A schema file, with angle brackets for its quotes.\<close>

definition quoted :: "string \<Rightarrow> bytes" where
  "quoted s = map (\<lambda>c. if c \<in> set ''<>'' then quote else c) s"

definition schema_text :: bytes where
  "schema_text = quoted
     ''{<c>: {<fields>: {<mail>: {<type>: <email>, <index>: true},
                         <card>: {<type>: <card>, <fragments>: [<last4>]}}}}''"

definition sample_schema :: schema where
  "sample_schema =
     [(''c'', \<lparr>c_fields = [(''mail'', \<lparr>f_type = ''email'', f_index = True, f_fragments = []\<rparr>),
                            (''card'', \<lparr>f_type = ''card'', f_index = False, f_fragments = [''last4'']\<rparr>)]\<rparr>)]"

lemma schema_text_parses: "Parse (\<lambda>ks. ks) schema_text = Inr sample_schema"
  by code_simp

definition sample_object :: json_object where
  "sample_object = [(''card'', quoted ''<4111 1111 1111 1111>'')]"

theorem search_matches_exactly_witness:
  "\<exists>m. Indexed (\<lambda>ks. ks) sample_schema ''c'' sample_object = Inr m
     \<and> map_of m ''card#last4'' = Some ''1111''"
proof -
  have nc: "no_clash (fields_of sample_schema ''c'')" by code_simp
  have q: "Normalize sample_schema ''c'' ''card'' ''11 11'' = Inr (''card#last4'', ''1111'')" by code_simp
  have "is_ok (Indexed (\<lambda>ks. ks) sample_schema ''c'' sample_object)" by code_simp
  then obtain m where m: "Indexed (\<lambda>ks. ks) sample_schema ''c'' sample_object = Inr m" by (rule is_okE)
  have "map_of sample_object ''card'' = Some (quoted ''<4111 1111 1111 1111>'')"
    "unmarshal_string (quoted ''<4111 1111 1111 1111>'') = Some ''4111 1111 1111 1111''"
    "map_of (fields_of sample_schema ''c'') ''card'' = Some \<lparr>f_type = ''card'', f_index = False, f_fragments = [''last4'']\<rparr>"
    "last4 (digits ''4111 1111 1111 1111'') = digits ''11 11''" by code_simp+
  with search_matches_exactly [OF schema_text_parses nc q m] m show ?thesis by auto
qed

text \<open>
  Without the assumption the order of the map shows: a schema that Parse accepts, with a field
  named like a fragment, gives one object two different indexes.
\<close>

definition clashing_schema :: schema where
  "clashing_schema =
     [(''c'', \<lparr>c_fields = [(''card'', \<lparr>f_type = ''card'', f_index = False, f_fragments = [''last4'']\<rparr>),
                            (''card#last4'', \<lparr>f_type = ''phone'', f_index = True, f_fragments = []\<rparr>)]\<rparr>)]"

lemma clash_depends_on_map_order:
  "Parse (\<lambda>ks. ks) (quoted ''{<c>: {<fields>: {<card>: {<type>: <card>, <fragments>: [<last4>]},
      <card#last4>: {<type>: <phone>, <index>: true}}}}'') = Inr clashing_schema
   \<and> Indexed (\<lambda>ks. ks) clashing_schema ''c''
       [(''card'', quoted ''<41111>''), (''card#last4'', quoted ''<777>'')]
     = Inr [(''card#last4'', ''777'')]
   \<and> Indexed rev clashing_schema ''c''
       [(''card'', quoted ''<41111>''), (''card#last4'', quoted ''<777>'')]
     = Inr [(''card#last4'', ''1111'')]"
  by code_simp

end
