(* ===== verification/ApiTheorems.thy ===== *)
theory ApiTheorems
  imports Gateway SchemaTheorems
begin

text \<open>
  The promises of the HTTP API, over any vault or over the store, and concrete requests on which
  they are evaluated.
\<close>

section \<open>A small installation\<close>

definition sample_client :: client where
  "sample_client =
     \<lparr>c_name = ''kim'', c_key = ''0123456789abcdef'', c_roles = AllRoles, c_reveal_per_second = 0\<rparr>"

definition masked_client :: client where
  "masked_client =
     \<lparr>c_name = ''bob'', c_key = ''fedcba9876543210'', c_roles = [RoleReadMasked],
      c_reveal_per_second = 0\<rparr>"

definition sample_allow :: "string \<Rightarrow> limiter \<Rightarrow> nat \<Rightarrow> nat \<Rightarrow> bool \<times> nat" where
  "sample_allow name l n b = (if int n \<le> l_burst l \<and> n \<le> b then (True, b - n) else (False, b))"

definition sample_limiter :: limiter where
  "sample_limiter = \<lparr>l_rate = 200, l_burst = 1000\<rparr>"

definition sample_server :: "(unit world, nat) server" where
  "sample_server =
     \<lparr>s_vault = store_vault sample_crypto sample_store, s_schema = [],
      s_limiters = [(''kim'', sample_limiter), (''bob'', sample_limiter)],
      s_allowN = sample_allow, s_range = (\<lambda>ks. ks)\<rparr>"

definition sample_clients :: "client list" where
  "sample_clients = [sample_client, masked_client]"

definition sample_api ::
  "request \<Rightarrow> (unit world, nat) site \<Rightarrow> answer \<times> (unit world, nat) site" where
  "sample_api = requireKey (\<lambda>k. k) sample_clients (serve_mux sample_server)"

definition site_of :: "unit world \<Rightarrow> (unit world, nat) site" where
  "site_of w = \<lparr>at_vault = w, at_budget = 10, at_log = []\<rparr>"

definition ask :: "string \<Rightarrow> string \<Rightarrow> string list \<Rightarrow> (string \<times> string) list \<Rightarrow> bytes \<Rightarrow> request" where
  "ask key m path q body =
     \<lparr>r_method = m, r_path = path, r_query = q, r_authorization = ''Bearer '' @ key,
      r_body = Whole body\<rparr>"

definition object_path :: "string list" where
  "object_path = [''v1'', ''collections'', ''c'', ''objects'', sample_id]"

definition get_full :: request where
  "get_full = ask ''0123456789abcdef'' ''GET'' object_path [(''reveal'', ''full'')] []"

lemma round64_1000: "round64 1000 = 1000"
  by code_simp

text \<open>The default budget: 200 a second, a thousand at once.\<close>

lemma new_limiter_default: "c_reveal_per_second c = 0 \<Longrightarrow> new_limiter c = sample_limiter"
  using round64_1000
  by (simp add: new_limiter_def defaultRevealPerSecond_def float_to_int_def sample_limiter_def)

lemma sample_api_New:
  "New (\<lambda>k. k) sample_allow (\<lambda>ks. ks) (store_vault sample_crypto sample_store) [] sample_clients = sample_api"
  by (simp add: New_def sample_api_def sample_server_def new_limiters_def sample_clients_def
      new_limiter_default sample_client_def masked_client_def)

lemma sample_get:
  "fst (sample_api get_full (site_of put_world)) = Answer 200 (Shown (Raw ''{}''))"
  by code_simp

lemma sample_values: "path_values get_full = [''c'', sample_id]"
  by code_simp

section \<open>Accountability\<close>

text \<open>
  C18: Nothing leaves the API unlogged. Whatever the database does, an answer that shows an object
  (masked or in full, alone or in a batch), confirms a search, or reports something created,
  deleted or erased, is only given to a client that presented its key, and by then the audit log
  in the database has an entry under this client's name for every object shown, created or
  deleted, with the action and the collection.
\<close>

theorem nothing_leaves_unlogged:
  assumes "rivals_obey C (st_index st) (\<lambda>_ _ _. True) (at_vault s)"
    and "New sha256 allowN pick (store_vault C st) sc clients r s = (Answer n p, s')"
    and "substantive p"
  shows "\<exists>c \<in> set clients. authenticate sha256 clients (r_authorization r) = (c, True)
    \<and> accounted (in_log (at_vault s')) (c_name c) (path_collection (path_values r))
        (path_id (path_values r)) p"
  using assms by (intro sv.accountable(1)) (simp_all add: vault_inv_def)

theorem nothing_leaves_unlogged_witness:
  "\<exists>n p s'. sample_api get_full (site_of put_world) = (Answer n p, s')
     \<and> (\<exists>c \<in> set sample_clients. in_log (at_vault s') (object_entry (c_name c) ''reveal_full'' ''c'' sample_id))"
proof -
  obtain s' where run: "sample_api get_full (site_of put_world) = (Answer 200 (Shown (Raw ''{}'')), s')"
    using sample_get by (metis prod.collapse)
  have "rivals_obey sample_crypto (st_index sample_store) (\<lambda>_ _ _. True) (at_vault (site_of put_world))"
    using sample_ok(1) [OF trusted_True] by (simp add: site_of_def sample_store_def)
  from nothing_leaves_unlogged [OF this run [folded sample_api_New]] run show ?thesis
    by (auto simp: sample_values path_collection_def path_id_def shown_action_def)
qed

section \<open>Authorization\<close>

lemma new_limiters_lookup:
  assumes "distinct (map c_name clients)" and "c \<in> set clients"
  shows "map_of (new_limiters clients) (c_name c) = Some (new_limiter c)"
  using map_of_fold_update [OF assms(1), of new_limiter "[]" "c_name c" "new_limiter c"] assms(2)
  by (auto simp: new_limiters_def)

text \<open>
  C19: Plaintext has its price. With any vault behind the API, an answer that carries the plaintext
  of k objects is given only to a client whose key was presented and who holds the read_full
  role, and only after the rate limiter, asked at this client's own rate for at least k units of the
  budget as this request found it, has granted them: what it then left of the budget is what the
  next request finds.
\<close>

theorem plaintext_has_its_price:
  assumes "ValidateClients clients = Inr ()"
    and "New sha256 allowN pick V sc clients r s = (Answer n p, s')" and "raw_count p \<noteq> 0"
  shows "\<exists>c \<in> set clients. authenticate sha256 clients (r_authorization r) = (c, True)
    \<and> has c RoleReadFull
    \<and> (\<exists>k. raw_count p \<le> k \<and> allowN (c_name c) (new_limiter c) k (at_budget s) = (True, at_budget s'))"
proof -
  obtain c ok where au: "authenticate sha256 clients (r_authorization r) = (c, ok)" by (metis surj_pair)
  let ?srv = "\<lparr>s_vault = V, s_schema = sc, s_limiters = new_limiters clients, s_allowN = allowN, s_range = pick\<rparr>"
  from assms(2,3) au have ok: "ok" and sm: "serve_mux ?srv c r s = (Answer n p, s')"
    by (auto simp: New_def requireKey_def writeError_def split: if_splits)
  with assms(3) obtain e vs where "handle ?srv c e vs r s = (Answer n p, s')"
    by (auto simp: serve_mux_def writeError_def split: option.splits if_splits)
  with covered_handle [of ?srv c s e vs r] assms(3) have f: "has c RoleReadFull"
    and g: "granted ?srv c (raw_count p) (at_budget s) (at_budget s')"
    by (simp_all add: covered_def)
  from au ok authenticate_matched [of sha256 clients] have c: "c \<in> set clients" by auto
  have "distinct (map c_name clients)" using assms(1) by (simp add: ValidateClients_ok clients_ok_def)
  with g c have "\<exists>k. raw_count p \<le> k \<and> allowN (c_name c) (new_limiter c) k (at_budget s) = (True, at_budget s')"
    by (simp add: granted_def new_limiters_lookup)
  with c au ok f show ?thesis by auto
qed

lemma sample_clients_valid: "ValidateClients sample_clients = Inr ()"
  by code_simp

theorem plaintext_has_its_price_witness:
  "\<exists>c s' k. authenticate (\<lambda>k. k) sample_clients (r_authorization get_full) = (c, True) \<and> has c RoleReadFull
     \<and> sample_api get_full (site_of put_world) = (Answer 200 (Shown (Raw ''{}'')), s')
     \<and> 1 \<le> k \<and> k \<le> (10 :: nat) \<and> at_budget s' = 10 - k"
proof -
  obtain s' where run: "sample_api get_full (site_of put_world) = (Answer 200 (Shown (Raw ''{}'')), s')"
    using sample_get by (metis prod.collapse)
  from plaintext_has_its_price [OF sample_clients_valid run [folded sample_api_New]] obtain c k where
    "authenticate (\<lambda>k. k) sample_clients (r_authorization get_full) = (c, True)" "has c RoleReadFull"
    "1 \<le> k" "sample_allow (c_name c) (new_limiter c) k 10 = (True, at_budget s')"
    by (auto simp: site_of_def)
  with run show ?thesis by (auto simp: sample_allow_def split: if_splits)
qed

text \<open>
  C20: Without a key and the role nothing is touched. A request with no valid key, for no route, or
  by a client that lacks the role its endpoint asks for (for a reveal, the role of the level
  asked for) is answered with a refusal and changes nothing: no call reaches the vault, no
  budget is spent, nothing is logged.
\<close>

theorem unauthorized_touches_nothing:
  assumes "\<nexists>c e vs. admitted sha256 clients r c e vs"
  shows "\<exists>n p. New sha256 allowN pick V sc clients r s = (Answer n p, s) \<and> \<not> substantive p"
  using New_denied [OF assms] by (simp add: turned_away_def)

definition get_full_as_bob :: request where
  "get_full_as_bob = ask ''fedcba9876543210'' ''GET'' object_path [(''reveal'', ''full'')] []"

lemma bob_not_admitted: "\<nexists>c e vs. admitted (\<lambda>k. k) sample_clients get_full_as_bob c e vs"
proof -
  have "authenticate (\<lambda>k. k) sample_clients (r_authorization get_full_as_bob) = (masked_client, True)"
    by code_simp
  moreover have "lookup_route routes (r_method get_full_as_bob) (r_path get_full_as_bob)
      = Some (Get, [''c'', sample_id])"
    by code_simp
  moreover have "\<not> has masked_client (required_role Get get_full_as_bob)" by code_simp
  ultimately show ?thesis by (auto simp: admitted_def)
qed

theorem unauthorized_touches_nothing_witness:
  "\<exists>n p. sample_api get_full_as_bob (site_of put_world) = (Answer n p, site_of put_world) \<and> \<not> substantive p"
  using unauthorized_touches_nothing [OF bob_not_admitted, of sample_allow "\<lambda>ks. ks"
      "store_vault sample_crypto sample_store" "[]" "site_of put_world"]
  unfolding sample_api_New .

text \<open>
  C21: No request crashes a handler. A server whose schema was accepted by Parse answers every
  request, whatever its method, path, query and body, and whatever the store returns: no handler
  calls a nil normalize, mask or validate function, and creating an object always finds its id.
\<close>

theorem no_request_panics:
  assumes "Parse pick0 data = Inr sc" and "rivals_obey C (st_index st) (\<lambda>_ _ _. True) (at_vault s)"
  shows "fst (New sha256 allowN pick (store_vault C st) sc clients r s) \<noteq> Dropped"
  using sv.New_answers [OF _ Parse_schema_ok [OF assms(1)], of C st s] assms(2) by (simp add: answers_def vault_inv_def)

definition post_mail :: request where
  "post_mail = ask ''0123456789abcdef'' ''POST'' [''v1'', ''collections'', ''c'', ''objects''] []
     (quoted ''{<mail>: <a@b.c>, <_subject>: <kim>}'')"

theorem no_request_panics_witness:
  "fst (New (\<lambda>k. k) sample_allow (\<lambda>ks. ks) (store_vault sample_crypto sample_store) sample_schema
      sample_clients post_mail (site_of sample_world)) \<noteq> Dropped"
  by (rule no_request_panics [OF schema_text_parses])
    (simp add: site_of_def sample_rivals)

section \<open>Erasure\<close>

lemma collect_found_keys:
  "collect_found rs found = Inr m \<Longrightarrow> map_of m oid = Some p \<Longrightarrow> oid \<in> set (map fst rs) \<or> map_of found oid = Some p"
proof (induction rs found rule: collect_found.induct)
  case (2 i r rs found)
  then show ?case by (cases r) (auto simp: update_conv' split: if_splits)
qed simp

lemma GetMany_live:
  assumes "GetMany C st c ids w = (Inr m, w')" and "map_of m oid = Some p"
  shows "\<exists>r \<in> set (objects (found_db w)). o_id r = oid \<and> o_collection r = c \<and> \<not> o_deleted r"
proof -
  let ?sel = "\<lambda>r. o_collection r = c \<and> o_id r \<in> set ids \<and> \<not> o_deleted r"
  from assms(1) obtain rows w1 opened where q: "pool_exec (sql_select_objects ?sel) w = (Inr rows, w1)"
    and f: "collect_found (zip (map o_id rows) opened) [] = Inr m"
    by (auto simp: GetMany_def split: prod.splits sum.splits)
  from q have rows: "rows = filter ?sel (objects (found_db w))"
    by (auto simp: pool_exec_def pool_tick_def tick_def sql_select_objects_def found_db_def split: if_splits)
  from collect_found_keys [OF f assms(2)] have "oid \<in> set (map fst (zip (map o_id rows) opened))" by simp
  then have "oid \<in> set (map o_id rows)" by (auto dest: set_zip_leftD)
  then show ?thesis by (auto simp: rows)
qed

lemma shredded_not_live:
  assumes "db_ok G d" and "r \<in> set (objects d)" and "o_deleted r" and "evolves G d d'" and "db_ok G d'"
    and "r' \<in> set (objects d')" and "o_id r' = o_id r"
  shows "o_deleted r'"
  using evolves_row [OF assms(4,5,2,6,7)] assms(3) by (simp add: row_step_def)

lemma Delete_shreds:
  fixes w :: "'k world"
  assumes "Delete st actor c oid w = (Inr u, w')"
  shows "\<exists>r \<in> set (objects (w_db w')). o_id r = oid \<and> o_deleted r"
proof -
  obtain x w1 where tx: "in_tx (delete_in_tx actor c oid) w = (x, w1)" by (metis surj_pair)
  have db: "w_db w' = w_db w1" using assms tx by (auto simp: Delete_def emit_def split: sum.splits)
  from assms tx obtain e where x: "x = Inr e" by (auto simp: Delete_def split: sum.splits)
  have "\<exists>v (v' :: 'k world). delete_in_tx actor c oid (found_db w, v) = (Inr e, (w_db w1, v'))"
    by (rule in_tx_success [OF tx [unfolded x]]) (rule delete_in_tx_frame)
  then obtain v and v' :: "'k world" where "delete_in_tx actor c oid (found_db w, v) = (Inr e, (w_db w1, v'))"
    by blast
  from delete_in_tx_effect [OF this] obtain r where r: "r \<in> set (objects (found_db w))" "deletes c oid r"
    and o: "objects (w_db w') = map (\<lambda>r. if deletes c oid r then shred r else r) (objects (found_db w))"
    by (auto simp: db delete_effect_def)
  then have "shred r \<in> set (objects (w_db w'))" by force
  with r show ?thesis by (intro bexI [of _ "shred r"]) (simp_all add: deletes_def)
qed

lemma get_shown:
  assumes "get srv c coll oid r s = (Answer n p, s')" and "substantive p"
    and "s_vault srv = store_vault C st" 
  shows "\<exists>m w' x. GetMany C st coll [oid] (at_vault s) = (Inr m, w') \<and> map_of m oid = Some x"
proof -
  let ?live = "\<lambda>s1. \<exists>m s2 x. on_vault (v_GetMany (s_vault srv) coll [oid]) s1 = (Inr m, s2) \<and> map_of m oid = Some x"
  have "?live s \<or> (\<exists>b. ?live (s\<lparr>at_budget := b\<rparr>))"
  proof (rule ccontr)
    assume "\<not> ?thesis"
    then have none: "on_vault (v_GetMany (s_vault srv) coll [oid]) s = (Inr m, s2) \<Longrightarrow> map_of m oid = None"
      "on_vault (v_GetMany (s_vault srv) coll [oid]) (s\<lparr>at_budget := b\<rparr>) = (Inr m, s2) \<Longrightarrow> map_of m oid = None"
      for m s2 b by (metis not_None_eq)+
    show False
    proof (cases "query_get r ''reveal'' = ''full''")
      case True
      with assms(1,2) show False
        by (auto simp: get_def Let_def writeError_def internalError_def require_def allow_def
            split: if_splits option.splits prod.splits sum.splits dest: none)
    next
      case False
      with assms(1,2) show False
        by (auto simp: get_def Let_def writeError_def internalError_def require_def
            split: if_splits option.splits prod.splits sum.splits dest: none)
    qed
  qed
  then show ?thesis
    using assms(3) by (auto simp: on_vault_def store_vault_def split: prod.splits)
qed

text \<open>
  C22: What a DELETE has confirmed is gone for good. Once the API has answered 204, then after any
  further run of any server of the fleet (rotations, reindexing and restarts with other keys
  included), no GET on that id, by any client, at any server, in any collection and at any reveal
  level, shows an object again.
\<close>

theorem deleted_is_gone:
  assumes "s_vault srv = store_vault C st" and "delete srv c coll oid s = (Answer 204 Empty, s1)"
    and "rivals_obey C (st_index st) (\<lambda>_ _ _. True) (at_vault s)"
    and "db_ok (\<lambda>_ _ _. True) (w_db (at_vault s))"
    and "(serve C st2)\<^sup>*\<^sup>* (at_vault s1) (at_vault s2)" and "st_index st2 = st_index st"
    and "s_vault srv' = store_vault C' st'" and "get srv' c' coll' oid r s2 = (Answer n p, s3)"
  shows "\<not> substantive p"
proof
  assume "substantive p"
  from get_shown [OF assms(8) this assms(7)] obtain m w' x where
    g: "GetMany C' st' coll' [oid] (at_vault s2) = (Inr m, w')" "map_of m oid = Some x" by blast
  from GetMany_live [OF g] obtain row where row: "row \<in> set (objects (found_db (at_vault s2)))"
    "o_id row = oid" "\<not> o_deleted row" by blast
  let ?T = "\<lambda>_ _ _. True"
  from assms(1,2) obtain u where d: "Delete st (c_name c) coll oid (at_vault s) = (Inr u, at_vault s1)"
    by (auto simp: delete_def require_def writeError_def internalError_def on_vault_def store_vault_def
        split: if_splits option.splits prod.splits sum.splits)
  have rl: "spec.rely C (st_index st) ?T (at_vault s)" using assms(3) by (simp add: rely_iff)
  note g1 = guar_Delete [OF rl d]
  note rl1 = spec.guar_rely [OF g1 rl] and ok1 = spec.stable_guar [OF stable_db_ok g1 assms(4)]
  have g2: "spec.guar C (st_index st) ?T (at_vault s1) (at_vault s2)"
    using run_guar [OF assms(5) trusted_True definite_True _ ok1] rl1 assms(6) by (simp add: rely_iff)
  have "rivals_obey C (st_index st) ?T (at_vault s2)"
    using spec.guar_rely [OF g2 rl1] by (simp add: rely_iff)
  from found_commits [OF this] g2
  have c12: "(commit C (st_index st) ?T)\<^sup>*\<^sup>* (w_db (at_vault s1)) (found_db (at_vault s2))"
    by (auto simp: spec.guar_def intro: rtranclp_trans)
  from Delete_shreds [OF d] obtain r0 where r0: "r0 \<in> set (objects (w_db (at_vault s1)))"
    "o_id r0 = oid" "o_deleted r0" by blast
  have "o_deleted row"
    by (rule shredded_not_live [OF ok1 r0(1,3) commits_lawful(1) [OF c12]
          commits_lawful(2) [OF c12 ok1] row(1)]) (simp add: row(2) r0(2))
  with row(3) show False by simp
qed

definition deleted_site :: "(unit world, nat) site" where
  "deleted_site = snd (delete sample_server sample_client ''c'' sample_id (site_of put_world))"

lemma deleted_site_answer:
  "delete sample_server sample_client ''c'' sample_id (site_of put_world) = (Answer 204 Empty, deleted_site)"
proof -
  have "fst (delete sample_server sample_client ''c'' sample_id (site_of put_world)) = Answer 204 Empty"
    by code_simp
  then show ?thesis by (metis deleted_site_def prod.collapse)
qed

theorem deleted_is_gone_witness:
  "\<exists>n p s3. get sample_server sample_client ''c'' sample_id get_full deleted_site = (Answer n p, s3)
     \<and> \<not> substantive p"
proof -
  obtain a s3 where g: "get sample_server sample_client ''c'' sample_id get_full deleted_site = (a, s3)"
    by (metis surj_pair)
  have "fst (get sample_server sample_client ''c'' sample_id get_full deleted_site) \<noteq> Dropped"
    by code_simp
  with g obtain n p where a: "a = Answer n p" by (cases a) auto
  have sv: "s_vault sample_server = store_vault sample_crypto sample_store" by (simp add: sample_server_def)
  have "rivals_obey sample_crypto (st_index sample_store) (\<lambda>_ _ _. True) (at_vault (site_of put_world))"
    "db_ok (\<lambda>_ _ _. True) (w_db (at_vault (site_of put_world)))"
    using sample_ok(1,3) [OF trusted_True] by (simp_all add: site_of_def sample_store_def)
  from deleted_is_gone [OF sv deleted_site_answer this rtranclp.rtrancl_refl refl sv g [unfolded a]]
  show ?thesis using g a by blast
qed

end
