(* ===== verification/RequestTheorems.thy ===== *)
theory RequestTheorems
  imports ApiTheorems
begin

text \<open>
  What the keys file and the bearer header decide, and what becomes of a batch of objects.
\<close>

section \<open>The keys file\<close>

text \<open>
  Validation accepts exactly the sets of clients that can be told apart: every client has a
  name, a key of at least 16 bytes, at least one role, only known roles and no negative rate, no
  two clients have one name and no two have one key.
\<close>

theorem ValidateClients_exact:
  "ValidateClients cs = Inr () \<longleftrightarrow>
     list_all (\<lambda>c. c_name c \<noteq> [] \<and> 16 \<le> length (c_key c) \<and> c_roles c \<noteq> []
        \<and> set (c_roles c) \<subseteq> {''write'', ''delete'', ''read_masked'', ''read_full'', ''search''}
        \<and> 0 \<le> c_reveal_per_second c) cs
     \<and> distinct (map c_name cs) \<and> distinct (map c_key cs)"
proof -
  have "client_ok = (\<lambda>c. c_name c \<noteq> [] \<and> 16 \<le> length (c_key c) \<and> c_roles c \<noteq> []
        \<and> set (c_roles c) \<subseteq> {''write'', ''delete'', ''read_masked'', ''read_full'', ''search''}
        \<and> 0 \<le> c_reveal_per_second c)"
    by (simp add: fun_eq_iff client_ok_def AllRoles_def RoleWrite_def RoleDelete_def
        RoleReadMasked_def RoleReadFull_def RoleSearch_def minKeyLen_def)
  then show ?thesis by (simp only: ValidateClients_ok clients_ok_def)
qed

lemma decode_clients_ok: "decode_clients data = Some m \<Longrightarrow> gomap_ok m"
  by (auto simp: decode_clients_def intro: take_elements_gomap split: option.splits)

lemma clients_ok_perm:
  assumes "mset cs = mset cs'"
  shows "clients_ok cs \<longleftrightarrow> clients_ok cs'"
proof -
  have s: "set cs = set cs'" using assms by (rule mset_eq_setD)
  have d: "distinct (map f cs) \<longleftrightarrow> distinct (map f cs')" for f :: "client \<Rightarrow> string"
    by (rule mset_eq_imp_distinct_iff) (simp add: assms)
  show ?thesis by (simp only: clients_ok_def list_all_iff s d)
qed

text \<open>
  The order in which Go walks the decoded keys file makes no difference: whichever orders two
  runs pick, they accept the same documents, and give the same clients.
\<close>

theorem keys_file_order_irrelevant:
  "(case ParseClients pick data of Inl e \<Rightarrow> None | Inr cs \<Rightarrow> Some (mset cs)) =
   (case ParseClients pick' data of Inl e \<Rightarrow> None | Inr cs \<Rightarrow> Some (mset cs))"
proof (cases "decode_clients data")
  case None
  then show ?thesis by (simp add: ParseClients_def)
next
  case (Some m)
  let ?named = "\<lambda>p. map (\<lambda>(name, c). c\<lparr>c_name := name\<rparr>) (range_over p m)"
  have "mset (?named pick) = mset (?named pick')"
    by (simp add: mset_range_over [OF decode_clients_ok [OF Some]])
  note perm = this
  have valid: "ValidateClients (?named pick) = Inr () \<longleftrightarrow> ValidateClients (?named pick') = Inr ()"
    by (simp only: ValidateClients_ok clients_ok_perm [OF perm])
  have parse: "(case ParseClients p data of Inl e \<Rightarrow> None | Inr cs \<Rightarrow> Some (mset cs)) =
      (if ValidateClients (?named p) = Inr () then Some (mset (?named p)) else None)" for p
    by (cases "ValidateClients (?named p)") (simp_all add: ParseClients_def Some Let_def)
  show ?thesis by (simp only: parse valid perm)
qed

section \<open>The bearer header\<close>

lemma filter_key:
  assumes "distinct (map c_key cs)"
  shows "filter (\<lambda>c. c_key c = key) cs = (case find (\<lambda>c. c_key c = key) cs of None \<Rightarrow> [] | Some c \<Rightarrow> [c])"
  using assms
proof (induction cs)
  case (Cons c cs)
  show ?case
  proof (cases "c_key c = key")
    case True
    with Cons.prems have "filter (\<lambda>c. c_key c = key) cs = []"
      by (auto simp: filter_empty_conv image_iff)
    with True show ?thesis by simp
  qed (use Cons in simp)
qed simp

text \<open>
  C30: Authentication is a lookup of the presented key. For a validated set of clients, and a key
  whose hash none of their keys shares without being that key, the request runs as the one client
  that has this key, and as no client when nobody has it.
\<close>

theorem authenticate_exact:
  assumes "ValidateClients cs = Inr ()"
    and "\<And>c. c \<in> set cs \<Longrightarrow> sha256 (c_key c) = sha256 key \<Longrightarrow> c_key c = key"
  shows "authenticate sha256 cs (''Bearer '' @ key) =
    (case find (\<lambda>c. c_key c = key) cs of None \<Rightarrow> (no_client, False) | Some c \<Rightarrow> (c, True))"
proof -
  have "filter (\<lambda>c. sha256 key = sha256 (c_key c)) cs = filter (\<lambda>c. c_key c = key) cs"
    using assms(2) by (intro filter_cong) auto
  moreover have "distinct (map c_key cs)"
    using assms(1) by (simp add: ValidateClients_ok clients_ok_def)
  ultimately show ?thesis
    by (simp add: authenticate_def authenticate_fold Let_def filter_key split: option.split)
qed

theorem authenticate_exact_witness:
  "authenticate (\<lambda>k. k) sample_clients ''Bearer fedcba9876543210'' = (masked_client, True)"
proof -
  have ok: "ValidateClients sample_clients = Inr ()" by code_simp
  show ?thesis using authenticate_exact [OF ok, of "\<lambda>k. k" "''fedcba9876543210''"]
    by (simp add: sample_clients_def sample_client_def masked_client_def)
qed

section \<open>Batches\<close>

text \<open>The position and the verdict of the first object that is refused, or all the items.\<close>

lemma parse_batch_spec:
  "case parse_batch srv coll i raws of
     Inl (j, e) \<Rightarrow> i \<le> j \<and> j < i + length raws \<and> parseObject srv coll (raws ! (j - i)) = Inl e
        \<and> list_all (\<lambda>raw. \<exists>it. parseObject srv coll raw = Inr it) (take (j - i) raws)
   | Inr its \<Rightarrow> map (parseObject srv coll) raws = map Inr its"
proof (induction raws arbitrary: i)
  case (Cons raw raws)
  show ?case
  proof (cases "parseObject srv coll raw")
    case (Inr it)
    then show ?thesis using Cons.IH [of "Suc i"]
      by (auto simp: nth_Cons' take_Cons' Suc_diff_le split: sum.splits)
  qed simp
qed simp

text \<open>
  C31: A batch is taken whole or not at all. When an object of the batch is refused, nothing has
  changed, and the answer gives the verdict on the first object that does not pass and its
  position; when ids are answered, every object passed its checks and exactly these objects went
  to the vault, in one call.
\<close>

theorem batch_whole_or_nothing:
  assumes "createBatch srv c coll r s = (Answer n p, s')"
  shows "case p of
      Refusal i e \<Rightarrow> s' = s \<and> (\<exists>k body objs. i = Some k \<and> readBody r maxBatchBody = Inr body
        \<and> unmarshal_batch body = Some objs \<and> k < length objs \<and> parseObject srv coll (objs ! k) = Inl e
        \<and> list_all (\<lambda>raw. \<exists>it. parseObject srv coll raw = Inr it) (take k objs))
    | Created_ids ids \<Rightarrow> (\<exists>body objs items. readBody r maxBatchBody = Inr body
        \<and> unmarshal_batch body = Some objs \<and> objs \<noteq> [] \<and> length objs \<le> maxBatch
        \<and> map (parseObject srv coll) objs = map Inr items
        \<and> v_PutMany (s_vault srv) (c_name c) coll items (at_vault s) = (Inr ids, at_vault s'))
    | Failure msg \<Rightarrow> s' = s \<or> n = 500
    | _ \<Rightarrow> False"
proof (cases "require c RoleWrite")
  case (Some a)
  with assms show ?thesis by (auto simp: createBatch_def require_def writeError_def split: if_splits)
next
  case None
  show ?thesis
  proof (cases "readBody r maxBatchBody")
    case (Inl a)
    with assms None show ?thesis
      by (auto simp: createBatch_def readBody_def writeError_def split: if_splits upload.splits)
  next
    case (Inr body)
    show ?thesis
    proof (cases "unmarshal_batch body")
      case none: None
      with assms None Inr show ?thesis by (auto simp: createBatch_def writeError_def split: if_splits)
    next
      case (Some objs)
      with assms None Inr parse_batch_spec [where srv = srv and coll = coll and i = 0 and raws = objs] show ?thesis
        by (auto simp: createBatch_def writeError_def refuse_def on_vault_def internalError_def
            split: if_splits sum.splits prod.splits)
    qed
  qed
qed

definition mixed_text :: bytes where
  "mixed_text = ''{'' @ [quote] @ ''objects'' @ [quote] @ '':[{},7,{}]}''"

definition mixed_batch :: request where
  "mixed_batch = ask ''0123456789abcdef'' ''POST'' [''v1'', ''collections'', ''c'', ''objects'', ''batch'']
     [] mixed_text"

lemma mixed_body:
  "readBody mixed_batch maxBatchBody = Inr mixed_text"
  by (simp add: readBody_def mixed_batch_def ask_def maxBatchBody_def mixed_text_def)

lemma mixed_objects:
  "unmarshal_batch mixed_text = Some [''{}'', ''7'', ''{}'']"
  by code_simp

lemma mixed_first: "\<exists>it. parseObject sample_server ''c'' ''{}'' = Inr it"
proof -
  have "utf8_valid ''{}''" "unmarshal_map ''{}'' = Some (Some [])" "marshal_map [] = Some ''{}''"
    "Validate (s_range sample_server) (s_schema sample_server) ''c'' [] = Inr ()"
    "Indexed (s_range sample_server) (s_schema sample_server) ''c'' [] = Inr []"
    by code_simp+
  then show ?thesis by (simp add: parseObject_def maxBody_def take_subject_def)
qed

lemma mixed_second: "parseObject sample_server ''c'' ''7'' = Inl Not_a_JSON_object"
proof -
  have "utf8_valid ''7''" "unmarshal_map ''7'' = None" by code_simp+
  then show ?thesis by (simp add: parseObject_def maxBody_def)
qed

lemma mixed_run:
  "createBatch sample_server sample_client ''c'' mixed_batch s
     = (Answer 400 (Refusal (Some 1) Not_a_JSON_object), s)"
proof -
  have "require sample_client RoleWrite = None" "collectionRe ''c''" by code_simp+
  then show ?thesis using mixed_first
    by (auto simp: createBatch_def mixed_body mixed_objects mixed_second maxBatch_def refuse_def)
qed

theorem batch_whole_or_nothing_witness:
  "\<exists>e. parseObject sample_server ''c'' ([''{}'', ''7'', ''{}''] ! 1) = Inl e
     \<and> (\<exists>it. parseObject sample_server ''c'' ''{}'' = Inr it)"
  using batch_whole_or_nothing [OF mixed_run] by (auto simp: mixed_body mixed_objects)

section \<open>Corners\<close>

text \<open>
  A client may be given a rate below one fifth of a reveal per second; its budget then holds less
  than one, so every full read and every search it makes is refused.
\<close>

definition slow_client :: client where
  "slow_client = sample_client\<lparr>c_reveal_per_second := 1/8\<rparr>"

lemma slow_client_starves:
  "ValidateClients [slow_client] = Inr () \<and> l_rate (new_limiter slow_client) > 0 \<and> l_burst (new_limiter slow_client) = 0"
proof -
  have "ValidateClients [slow_client] = Inr ()" by code_simp
  moreover have "float_to_int (round64 (5/8)) = 0" by code_simp
  ultimately show ?thesis by (simp add: slow_client_def new_limiter_def)
qed

text \<open>
  The bytes that bind a row do not tell apart names with a NUL in them. Neither a collection nor an
  id of the API has one.
\<close>

lemma aad_of_NUL_names: "aad ''a'' (''b'' @ [nul] @ ''c'') = aad (''a'' @ [nul] @ ''b'') ''c''"
  by (simp add: aad_def)

end
