(* ===== verification/Metrics.thy ===== *)
theory Metrics
  imports Handlers "HOL-Library.Word"
begin

text \<open>
  Request counters (internal/metrics/metrics.go): the registry, the middleware that counts, and
  the page it renders. Counters are Go's \<open>int64\<close>, 64-bit words here.

  The middleware reads the pattern that routing left in the request object it was given. Which
  object that is matters, because \<open>requireKey\<close> hands a copy to the mux behind it; so request
  objects live at addresses, and the patterns written to them are a store.
\<close>

section \<open>The registry\<close>

type_synonym route_key = "string \<times> nat"

record registry =
  m_requests :: "(route_key \<times> 64 word) list"
  m_seconds :: "(string \<times> float64) list"
  m_count :: "(string \<times> 64 word) list"

definition zero_registry :: registry where
  "zero_registry = \<lparr>m_requests = [], m_seconds = [], m_count = []\<rparr>"

definition counter :: "('k \<times> 64 word) list \<Rightarrow> 'k \<Rightarrow> 64 word" where
  "counter m k = (case map_of m k of None \<Rightarrow> 0 | Some n \<Rightarrow> n)"

definition bump :: "'k \<Rightarrow> ('k \<times> 64 word) list \<Rightarrow> ('k \<times> 64 word) list" where
  "bump k m = AList.update k (counter m k + 1) m"

text \<open>The addition of two \<open>float64\<close>; a sum of durations never leaves their range.\<close>

definition add64 :: "float64 \<Rightarrow> float64 \<Rightarrow> float64" where
  "add64 x y = round64 (x + y)"

definition observe :: "string \<Rightarrow> nat \<Rightarrow> float64 \<Rightarrow> registry \<Rightarrow> registry" where
  "observe route status secs g =
     g\<lparr>m_requests := bump (route, status) (m_requests g),
       m_seconds := AList.update route
         (add64 (case map_of (m_seconds g) route of None \<Rightarrow> 0 | Some s \<Rightarrow> s) secs) (m_seconds g),
       m_count := bump route (m_count g)\<rparr>"

text \<open>The recorder: the status of the last \<open>WriteHeader\<close>, 200 when there is none.\<close>

definition recorded :: "nat list \<Rightarrow> nat" where
  "recorded statuses = foldl (\<lambda>_ status. status) 200 statuses"

section \<open>Request objects\<close>

record 's traffic =
  t_patterns :: "string list"
  t_state :: 's

definition new_request :: "'s traffic \<Rightarrow> nat \<times> 's traffic" where
  "new_request t = (length (t_patterns t), t\<lparr>t_patterns := t_patterns t @ [[]]\<rparr>)"

definition with_context :: "nat \<Rightarrow> 's traffic \<Rightarrow> nat \<times> 's traffic" where
  "with_context a t =
     (length (t_patterns t), t\<lparr>t_patterns := t_patterns t @ [t_patterns t ! a]\<rparr>)"

definition set_pattern :: "nat \<Rightarrow> string \<Rightarrow> 's traffic \<Rightarrow> 's traffic" where
  "set_pattern a p t = t\<lparr>t_patterns := (t_patterns t)[a := p]\<rparr>"

section \<open>The middleware\<close>

text \<open>
  A reply is what was written to the response, \<open>None\<close> after a panic, which skips the counting:
  the statuses passed to \<open>WriteHeader\<close>. \<open>secs\<close> is the time it took.
\<close>

type_synonym ('r, 's) handler = "nat \<Rightarrow> 's traffic \<Rightarrow> (nat list option \<times> 'r) \<times> 's traffic"

definition Middleware ::
  "('r, 's) handler \<Rightarrow> float64 \<Rightarrow> 's traffic \<Rightarrow> registry \<Rightarrow> 'r \<times> 's traffic \<times> registry" where
  "Middleware next secs t g =
     (case new_request t of (a, t1) \<Rightarrow>
      (case next a t1 of
         ((None, r), t2) \<Rightarrow> (r, t2, g)
       | ((Some statuses, r), t2) \<Rightarrow>
           (let p = t_patterns t2 ! a; route = (if p = [] then ''other'' else p) in
            (r, t2, observe route (recorded statuses) secs g))))"

section \<open>The API behind it\<close>

text \<open>The patterns of \<open>routes\<close>, as the mux writes them into the request.\<close>

fun pattern_of :: "endpoint \<Rightarrow> string" where
  "pattern_of Create = ''POST /v1/collections/{collection}/objects''"
| "pattern_of Create_batch = ''POST /v1/collections/{collection}/objects/batch''"
| "pattern_of Reveal_batch = ''POST /v1/collections/{collection}/objects/reveal''"
| "pattern_of Get = ''GET /v1/collections/{collection}/objects/{id}''"
| "pattern_of Delete_object = ''DELETE /v1/collections/{collection}/objects/{id}''"
| "pattern_of Search_in = ''POST /v1/collections/{collection}/search''"
| "pattern_of Subject_of = ''GET /v1/subjects/{subject}''"
| "pattern_of Erase_subject = ''DELETE /v1/subjects/{subject}''"

definition api_pattern :: "request \<Rightarrow> string" where
  "api_pattern r =
     (case lookup_route routes (r_method r) (r_path r) of None \<Rightarrow> [] | Some (e, _) \<Rightarrow> pattern_of e)"

fun written :: "answer \<Rightarrow> nat list option" where
  "written (Answer n _) = Some [n]"
| "written Dropped = None"

text \<open>\<open>New\<close> as a handler of request objects: \<open>requireKey\<close> and the mux behind it.\<close>

definition api_handler ::
  "(bytes \<Rightarrow> bytes) \<Rightarrow> client list \<Rightarrow> ('v, 'l) server \<Rightarrow> request \<Rightarrow> (answer, ('v, 'l) site) handler" where
  "api_handler sha256 clients srv r a t =
     (case authenticate sha256 clients (r_authorization r) of
        (c, ok) \<Rightarrow>
          if \<not> ok then ((Some [401], writeError 401 ''invalid API key''), t)
          else
            (case with_context a t of (b, t1) \<Rightarrow>
             (case set_pattern b (api_pattern r) t1 of t2 \<Rightarrow>
              (case serve_mux srv c r (t_state t2) of
                 (ans, s) \<Rightarrow> ((written ans, ans), t2\<lparr>t_state := s\<rparr>)))))"

lemma api_handler_New:
  "api_handler sha256 clients srv r a t = ((w, ans), t') \<Longrightarrow>
   requireKey sha256 clients (serve_mux srv) r (t_state t) = (ans, t_state t') \<and> w = written ans"
  by (auto simp: api_handler_def requireKey_def with_context_def set_pattern_def writeError_def
      split: prod.splits if_splits)

section \<open>The page\<close>

text \<open>
  \<open>%d\<close> of an \<open>int64\<close> and \<open>%q\<close> of a string, except for the runes outside ASCII, whose escapes depend on
  the Unicode tables and come in as \<open>wide\<close>; no route has one. \<open>%g\<close> of a \<open>float64\<close> is the argument \<open>show_g\<close>.
\<close>

definition show_int64 :: "64 word \<Rightarrow> string" where
  "show_int64 w = (if sint w < 0 then ''-'' @ decimal (nat (- sint w)) else decimal (nat (sint w)))"

definition q_ascii :: "rune \<Rightarrow> string" where
  "q_ascii r =
     (if r = 0x22 then [backslash, quote]
      else if r = 0x5C then [backslash, backslash]
      else if 0x20 \<le> r \<and> r \<le> 0x7E then [char_of r]
      else if 7 \<le> r \<and> r \<le> 13 then [backslash, ''abtnvfr'' ! (r - 7)]
      else [backslash, CHR ''x'', hex_digit (r div 16), hex_digit (r mod 16)])"

definition show_q :: "(rune \<times> string \<Rightarrow> string) \<Rightarrow> string \<Rightarrow> string" where
  "show_q wide s =
     [quote] @ concat (map (\<lambda>(r, bs). if r < 0x80 then q_ascii r else wide (r, bs)) (segments s)) @ [quote]"

definition newline :: string where
  "newline = [CHR 0x0A]"

definition request_keys :: "registry \<Rightarrow> route_key list" where
  "request_keys g = sort_key fst (sort_key snd (map fst (m_requests g)))"

definition request_line :: "(rune \<times> string \<Rightarrow> string) \<Rightarrow> registry \<Rightarrow> route_key \<Rightarrow> string" where
  "request_line wide g k =
     ''sealbox_requests_total{route='' @ show_q wide (fst k) @ '',status='' @ [quote]
       @ decimal (snd k) @ [quote] @ ''} '' @ show_int64 (counter (m_requests g) k) @ newline"

definition route_lines ::
  "(rune \<times> string \<Rightarrow> string) \<Rightarrow> (float64 \<Rightarrow> string) \<Rightarrow> registry \<Rightarrow> string \<Rightarrow> string" where
  "route_lines wide show_g g route =
     ''sealbox_request_duration_seconds_sum{route='' @ show_q wide route @ ''} ''
       @ show_g (case map_of (m_seconds g) route of None \<Rightarrow> 0 | Some s \<Rightarrow> s) @ newline
     @ ''sealbox_request_duration_seconds_count{route='' @ show_q wide route @ ''} ''
       @ show_int64 (counter (m_count g) route) @ newline"

definition metrics_page ::
  "(rune \<times> string \<Rightarrow> string) \<Rightarrow> (float64 \<Rightarrow> string) \<Rightarrow> registry \<Rightarrow> string" where
  "metrics_page wide show_g g =
     ''# HELP sealbox_requests_total Requests by route and status.'' @ newline
     @ ''# TYPE sealbox_requests_total counter'' @ newline
     @ concat (map (request_line wide g) (request_keys g))
     @ ''# HELP sealbox_request_duration_seconds Time spent answering, by route.'' @ newline
     @ ''# TYPE sealbox_request_duration_seconds summary'' @ newline
     @ concat (map (route_lines wide show_g g) (sort (map fst (m_count g))))"

section \<open>What the counters count\<close>

lemma counter_bump: "counter (bump k m) k' = (if k' = k then counter m k + 1 else counter m k')"
  by (simp add: counter_def bump_def update_conv')

lemma bump_keys: "distinct (map fst m) \<Longrightarrow> distinct (map fst (bump k m))"
  by (simp add: bump_def distinct_update)

lemma set_bump: "fst ` set (bump k m) = insert k (fst ` set m)"
  by (simp add: bump_def dom_update)

definition observe_all :: "(string \<times> nat \<times> float64) list \<Rightarrow> registry \<Rightarrow> registry" where
  "observe_all obs = fold (\<lambda>(route, status, secs). observe route status secs) obs"

lemma observe_all_counters:
  "counter (m_requests (observe_all obs g)) k
     = counter (m_requests g) k + of_nat (length (filter (\<lambda>(route, status, _). (route, status) = k) obs))
   \<and> counter (m_count (observe_all obs g)) route
     = counter (m_count g) route + of_nat (length (filter (\<lambda>(r, _). r = route) obs))"
  by (induction obs arbitrary: g) (auto simp: observe_all_def observe_def counter_bump)

lemma observe_all_keys:
  "distinct (map fst (m_requests g)) \<Longrightarrow> distinct (map fst (m_count g)) \<Longrightarrow>
   distinct (map fst (m_requests (observe_all obs g))) \<and> distinct (map fst (m_count (observe_all obs g)))
   \<and> fst ` set (m_requests (observe_all obs g)) = fst ` set (m_requests g) \<union> (\<lambda>(route, status, _). (route, status)) ` set obs
   \<and> fst ` set (m_count (observe_all obs g)) = fst ` set (m_count g) \<union> fst ` set obs"
proof (induction obs arbitrary: g)
  case (Cons ob obs)
  obtain route status secs where ob: "ob = (route, status, secs)" by (cases ob)
  let ?g = "observe route status secs g"
  have "distinct (map fst (m_requests ?g))" "distinct (map fst (m_count ?g))"
    "fst ` set (m_requests ?g) = insert (route, status) (fst ` set (m_requests g))"
    "fst ` set (m_count ?g) = insert route (fst ` set (m_count g))"
    using Cons.prems by (simp_all add: observe_def bump_keys set_bump)
  with Cons.IH [of ?g] show ?case by (simp add: observe_all_def ob)
qed (simp add: observe_all_def)

text \<open>Sorting by one key and then by another.\<close>

lemma insort_lex:
  fixes f :: "'a \<Rightarrow> 'b :: linorder" and g :: "'a \<Rightarrow> 'c :: linorder"
  assumes "sorted_wrt (\<lambda>x y. f x < f y \<or> f x = f y \<and> g x \<le> g y) ys" and "\<forall>y \<in> set ys. g x \<le> g y"
  shows "sorted_wrt (\<lambda>x y. f x < f y \<or> f x = f y \<and> g x \<le> g y) (insort_key f x ys)"
  using assms
proof (induction ys)
  case (Cons y ys)
  show ?case
  proof (cases "f x \<le> f y")
    case True
    with Cons.prems show ?thesis by fastforce
  next
    case False
    with Cons show ?thesis by (auto simp: set_insort_key)
  qed
qed simp

lemma sort_lex:
  fixes f :: "'a \<Rightarrow> 'b :: linorder" and g :: "'a \<Rightarrow> 'c :: linorder"
  shows "sorted (map g xs) \<Longrightarrow>
    sorted_wrt (\<lambda>x y. f x < f y \<or> f x = f y \<and> g x \<le> g y) (sort_key f xs)"
  by (induction xs) (auto intro: insort_lex)

lemma sorted_wrt_distinct: "sorted_wrt P xs \<Longrightarrow> distinct xs \<Longrightarrow> sorted_wrt (\<lambda>x y. P x y \<and> x \<noteq> y) xs"
  by (induction xs) auto

lemma request_keys_sorted:
  assumes "distinct (map fst (m_requests g))"
  shows "sorted_wrt (\<lambda>(r, s) (r', s'). r < r' \<or> r = r' \<and> s < s') (request_keys g)"
proof -
  have "sorted_wrt (\<lambda>x y. fst x < fst y \<or> fst x = fst y \<and> snd x \<le> snd y) (request_keys g)"
    unfolding request_keys_def by (rule sort_lex) simp
  moreover have "distinct (request_keys g)" using assms by (simp add: request_keys_def)
  ultimately have "sorted_wrt (\<lambda>x y. (fst x < fst y \<or> fst x = fst y \<and> snd x \<le> snd y) \<and> x \<noteq> y) (request_keys g)"
    by (rule sorted_wrt_distinct)
  then show ?thesis
    by (rule sorted_wrt_mono_rel [rotated]) (auto simp: order_less_le prod_eq_iff)
qed

text \<open>
  The metrics page counts every answered request once. After any answered requests, by route
  and status, the page has one line for every route and status that occurred, in order, and for
  every route that occurred one pair of lines, in order, and the numbers on them are how often
  that route was answered with that status and at all (modulo 2 to the 64).
\<close>

theorem page_counts_requests:
  "sorted_wrt (\<lambda>(r, s) (r', s'). r < r' \<or> r = r' \<and> s < s') (request_keys (observe_all obs zero_registry))
   \<and> set (request_keys (observe_all obs zero_registry)) = (\<lambda>(route, status, _). (route, status)) ` set obs
   \<and> set (sort (map fst (m_count (observe_all obs zero_registry)))) = fst ` set obs
   \<and> distinct (sort (map fst (m_count (observe_all obs zero_registry))))
   \<and> counter (m_requests (observe_all obs zero_registry)) (route, status)
     = of_nat (length (filter (\<lambda>(r, s, _). (r, s) = (route, status)) obs))
   \<and> counter (m_count (observe_all obs zero_registry)) route
     = of_nat (length (filter (\<lambda>(r, _). r = route) obs))"
  using observe_all_keys [of zero_registry obs] observe_all_counters [of obs zero_registry "(route, status)" route]
    request_keys_sorted [of "observe_all obs zero_registry"]
  by (simp add: request_keys_def zero_registry_def counter_def)

end
