(* ===== verification/NetAddr.thy ===== *)
theory NetAddr
  imports Json
begin

text \<open>
  What the command uses of Go's \<open>net\<close> package to judge a listen address: \<open>SplitHostPort\<close>,
  \<open>ParseIP\<close> and \<open>IP.IsLoopback\<close>. An address is the list of its 16 bytes, IPv4 in its mapped form.
\<close>

section \<open>Host and port\<close>

definition split_host_port :: "string \<Rightarrow> (string \<times> string) option" where
  "split_host_port s =
     (case s of
        [] \<Rightarrow> None
      | c # t \<Rightarrow>
          if c = CHR ''['' then
            (case span_while (\<lambda>x. x \<noteq> CHR '']'') t of
               (host, rest) \<Rightarrow>
                 (case rest of
                    _ # colon # port \<Rightarrow>
                      if colon = CHR '':'' \<and> CHR '':'' \<notin> set port \<and> CHR ''['' \<notin> set (host @ port)
                         \<and> CHR '']'' \<notin> set port
                      then Some (host, port) else None
                  | _ \<Rightarrow> None))
          else
            (case span_while (\<lambda>x. x \<noteq> CHR '':'') s of
               (host, rest) \<Rightarrow>
                 (case rest of
                    [] \<Rightarrow> None
                  | _ # port \<Rightarrow>
                      if CHR '':'' \<notin> set port \<and> CHR ''['' \<notin> set (host @ port) \<and> CHR '']'' \<notin> set (host @ port)
                      then Some (host, port) else None)))"

section \<open>Addresses\<close>

text \<open>A decimal field: digits, at most 255, no leading zero.\<close>

definition decimal_field :: "string \<Rightarrow> nat option" where
  "decimal_field ds =
     (if ds = [] \<or> \<not> list_all is_digit ds \<or> (length ds > 1 \<and> hd ds = CHR ''0'') \<or> length ds > 3 then None
      else let n = foldl (\<lambda>n c. 10 * n + (byte c - 0x30)) 0 ds in if n > 255 then None else Some n)"

fun split_dots :: "string \<Rightarrow> string \<Rightarrow> string list" where
  "split_dots cur [] = [cur]"
| "split_dots cur (c # s) = (if c = CHR ''.'' then cur # split_dots [] s else split_dots (cur @ [c]) s)"

definition parse_ipv4 :: "string \<Rightarrow> nat list option" where
  "parse_ipv4 s =
     (case map decimal_field (split_dots [] s) of
        [Some a, Some b, Some c, Some d] \<Rightarrow> Some [a, b, c, d]
      | _ \<Rightarrow> None)"

text \<open>The groups of an IPv6 address: at most four hexadecimal digits each, two bytes.\<close>

definition hex_pair :: "nat list \<Rightarrow> nat list" where
  "hex_pair ds =
     (case replicate (4 - length ds) 0 @ ds of [a, b, c, d] \<Rightarrow> [16 * a + b, 16 * c + d] | _ \<Rightarrow> [])"

definition hex_group :: "string \<Rightarrow> (nat list \<times> string) option" where
  "hex_group s =
     (case span_while (\<lambda>c. hex_val c \<noteq> None) s of
        (ds, rest) \<Rightarrow>
          if ds = [] \<or> length ds > 4 then None
          else Some (hex_pair (map (\<lambda>c. case hex_val c of None \<Rightarrow> 0 | Some v \<Rightarrow> v) ds), rest))"

text \<open>
  The loop of \<open>parseIPv6\<close>: the bytes so far, the place of the \<open>::\<close>, and what is left to read. It
  stops after 16 bytes, so eight rounds are enough.
\<close>

fun ipv6_groups ::
  "nat \<Rightarrow> nat list \<Rightarrow> nat option \<Rightarrow> string \<Rightarrow> (nat list \<times> nat option \<times> string) option" where
  "ipv6_groups 0 ip gap s = Some (ip, gap, s)"
| "ipv6_groups (Suc n) ip gap s =
     (if length ip \<ge> 16 then Some (ip, gap, s)
      else
     (case hex_group s of
        None \<Rightarrow> None
      | Some (pair, rest) \<Rightarrow>
          (case rest of
             [] \<Rightarrow> Some (ip @ pair, gap, [])
           | c # t \<Rightarrow>
               if c = CHR ''.'' then
                 (if (gap = None \<and> length ip \<noteq> 12) \<or> length ip + 4 > 16 then None
                  else map_option (\<lambda>v4. (ip @ v4, gap, [])) (parse_ipv4 s))
               else if c \<noteq> CHR '':'' then None
               else
                 (let ip' = ip @ pair in
                  (case t of
                     [] \<Rightarrow> None
                   | d # u \<Rightarrow>
                       if d = CHR '':'' then
                         (if gap \<noteq> None then None
                          else if u = [] then Some (ip', Some (length ip'), [])
                          else ipv6_groups n ip' (Some (length ip')) u)
                       else ipv6_groups n ip' gap t)))))"

definition expand_gap :: "nat list \<Rightarrow> nat option \<Rightarrow> nat list option" where
  "expand_gap ip gap =
     (case gap of
        None \<Rightarrow> (if length ip < 16 then None else Some ip)
      | Some at \<Rightarrow>
          if length ip < 16 then Some (take at ip @ replicate (16 - length ip) 0 @ drop at ip) else None)"

definition parse_ipv6 :: "string \<Rightarrow> nat list option" where
  "parse_ipv6 s =
     (if CHR ''%'' \<in> set s then None
      else if s = ''::'' then Some (replicate 16 0)
      else
        (let leading = (take 2 s = ''::'');
             start = (if leading then ipv6_groups 8 [] (Some 0) (drop 2 s) else ipv6_groups 8 [] None s)
         in
         (case start of
            None \<Rightarrow> None
          | Some (ip, gap, rest) \<Rightarrow> if rest \<noteq> [] then None else expand_gap ip gap)))"

text \<open>The first of the separators decides the form. A zone is refused, as \<open>ParseIP\<close> does.\<close>

definition parse_ip :: "string \<Rightarrow> nat list option" where
  "parse_ip s =
     (case filter (\<lambda>c. c \<in> set ''.:%'') s of
        [] \<Rightarrow> None
      | c # _ \<Rightarrow>
          if c = CHR ''.'' then map_option (\<lambda>v4. replicate 10 0 @ [255, 255] @ v4) (parse_ipv4 s)
          else if c = CHR '':'' then parse_ipv6 s
          else None)"

definition is_loopback_ip :: "nat list \<Rightarrow> bool" where
  "is_loopback_ip ip =
     (if take 12 ip = replicate 10 0 @ [255, 255] then (case drop 12 ip of [] \<Rightarrow> False | b # _ \<Rightarrow> b = 127)
      else ip = replicate 15 0 @ [1])"

section \<open>The listen address\<close>

definition isLoopback :: "string \<Rightarrow> bool" where
  "isLoopback addr =
     (case split_host_port addr of
        None \<Rightarrow> False
      | Some (host, _) \<Rightarrow>
          if host = ''localhost'' then True
          else (case parse_ip host of None \<Rightarrow> False | Some ip \<Rightarrow> is_loopback_ip ip))"

lemma samples_loopback:
  "isLoopback ''127.0.0.1:8080'' \<and> isLoopback ''localhost:8080'' \<and> isLoopback ''[::1]:8080''"
  "isLoopback ''[::ffff:127.0.0.1]:80''" "isLoopback ''[::ffff:7f00:1]:80''"
  by code_simp+

lemma samples_not_loopback:
  "\<not> isLoopback ''[::]:8080'' \<and> \<not> isLoopback '':8080'' \<and> \<not> isLoopback ''0.0.0.0:80''"
  "\<not> isLoopback ''10.0.0.127:80'' \<and> \<not> isLoopback ''127.0.0.01:80'' \<and> \<not> isLoopback ''127.0.0.1''"
  "\<not> isLoopback ''[::1%lo]:80''" "\<not> isLoopback ''::1:80''"
  by code_simp+

end
