(* ===== verification/Base64.thy ===== *)
theory Base64
  imports Prelude
begin

text \<open>
  The standard base64 encoding of Go's \<open>encoding/base64\<close> with padding, and its decoder, which
  skips line breaks, wants whole groups of four and accepts padding in the last group only. Master
  keys are read in this form and keys travel to a transit engine in it.
\<close>

definition b64_char :: "nat \<Rightarrow> char" where
  "b64_char n =
     char_of (if n < 26 then 0x41 + n
              else if n < 52 then 0x61 + (n - 26)
              else if n < 62 then 0x30 + (n - 52)
              else if n = 62 then 0x2B else 0x2F)"

definition b64_val :: "char \<Rightarrow> nat option" where
  "b64_val c =
     (let b = byte c in
      if 0x41 \<le> b \<and> b \<le> 0x5A then Some (b - 0x41)
      else if 0x61 \<le> b \<and> b \<le> 0x7A then Some (b - 0x61 + 26)
      else if 0x30 \<le> b \<and> b \<le> 0x39 then Some (b - 0x30 + 52)
      else if b = 0x2B then Some 62
      else if b = 0x2F then Some 63
      else None)"

definition pad :: char where "pad = CHR ''=''"

fun b64_encode :: "bytes \<Rightarrow> string" where
  "b64_encode (a # b # c # rest) =
     (let x = byte a; y = byte b; z = byte c
      in b64_char (x div 4) # b64_char (x mod 4 * 16 + y div 16)
         # b64_char (y mod 16 * 4 + z div 64) # b64_char (z mod 64) # b64_encode rest)"
| "b64_encode [a, b] =
     (let x = byte a; y = byte b
      in [b64_char (x div 4), b64_char (x mod 4 * 16 + y div 16), b64_char (y mod 16 * 4), pad])"
| "b64_encode [a] = (let x = byte a in [b64_char (x div 4), b64_char (x mod 4 * 16), pad, pad])"
| "b64_encode [] = []"

fun b64_groups :: "string \<Rightarrow> bytes option" where
  "b64_groups [] = Some []"
| "b64_groups (a # b # c # d # rest) =
     (case (b64_val a, b64_val b) of
        (Some i, Some j) \<Rightarrow>
          if c = pad then (if d = pad \<and> rest = [] then Some [char_of (i * 4 + j div 16)] else None)
          else (case b64_val c of
                  None \<Rightarrow> None
                | Some k \<Rightarrow>
                    if d = pad then
                      (if rest = []
                       then Some [char_of (i * 4 + j div 16), char_of (j mod 16 * 16 + k div 4)]
                       else None)
                    else (case b64_val d of
                            None \<Rightarrow> None
                          | Some l \<Rightarrow>
                              map_option
                                (\<lambda>out. char_of (i * 4 + j div 16) # char_of (j mod 16 * 16 + k div 4)
                                       # char_of (k mod 4 * 64 + l) # out)
                                (b64_groups rest)))
      | _ \<Rightarrow> None)"
| "b64_groups _ = None"

definition b64_decode :: "string \<Rightarrow> bytes option" where
  "b64_decode s = b64_groups (filter (\<lambda>c. c \<noteq> CHR 0x0A \<and> c \<noteq> CHR 0x0D) s)"

section \<open>Decoding undoes encoding\<close>

lemma b64_val_char [simp]: "n < 64 \<Longrightarrow> b64_val (b64_char n) = Some n"
proof -
  assume "n < 64"
  then consider "n < 26" | "26 \<le> n" "n < 52" | "52 \<le> n" "n < 62" | "n = 62" | "n = 63" by linarith
  then show ?thesis by cases (auto simp: b64_val_def b64_char_def Let_def)
qed

lemma b64_char_not_pad [simp]: "n < 64 \<Longrightarrow> b64_char n \<noteq> pad"
proof
  assume n: "n < 64" and "b64_char n = pad"
  then have "b64_val pad = Some n" using b64_val_char [OF n] by simp
  then show False by (simp add: b64_val_def pad_def byte_def)
qed

lemma b64_char_no_break [simp]:
  assumes "n < 64"
  shows "b64_char n \<noteq> CHR 0x0A" and "b64_char n \<noteq> CHR 0x0D"
  using b64_val_char [OF assms] by (auto simp: b64_val_def byte_def)

lemma pad_no_break [simp]: "pad \<noteq> CHR 0x0A" "pad \<noteq> CHR 0x0D"
  by (simp_all add: pad_def)

text \<open>How three bytes split into four groups of six bits, and come together again.\<close>

lemma byte_div [simp]: "byte c div 4 < 64" "byte c div 16 < 16" "byte c div 64 < 4"
  using byte_less_256 [of c] by (simp_all add: less_mult_imp_div_less)

lemma six_bits [simp]:
  "m mod 4 * 16 + byte c div 16 < 64" "m mod 16 * 4 + byte c div 64 < 64"
  "(m::nat) mod 4 * 16 < 64" "(m::nat) mod 16 * 4 < 64"
proof -
  have "m mod 4 < 4" "m mod 16 < 16" by simp_all
  then show "m mod 4 * 16 + byte c div 16 < 64" "m mod 16 * 4 + byte c div 64 < 64"
    "m mod 4 * 16 < 64" "m mod 16 * 4 < 64"
    using byte_div(2,3) [of c] by linarith+
qed

lemma join_bits:
  "q < 16 \<Longrightarrow> (p * 16 + q) div 16 = (p::nat)" "q < 16 \<Longrightarrow> (p * 16 + q) mod 16 = (q::nat)"
  "q < 4 \<Longrightarrow> (p * 4 + q) div 4 = (p::nat)" "q < 4 \<Longrightarrow> (p * 4 + q) mod 4 = (q::nat)"
  by simp_all

lemma b64_encode_no_break:
  "filter (\<lambda>c. c \<noteq> CHR 0x0A \<and> c \<noteq> CHR 0x0D) (b64_encode s) = b64_encode s"
  by (induction s rule: b64_encode.induct) (simp_all add: Let_def)

lemma b64_groups_encode: "b64_groups (b64_encode s) = Some s"
  by (induction s rule: b64_encode.induct) (simp_all add: Let_def join_bits)

lemma b64_roundtrip: "b64_decode (b64_encode s) = Some s"
  by (simp only: b64_decode_def b64_encode_no_break b64_groups_encode)

end
