(* ===== verification/KeyServices.thy ===== *)
theory KeyServices
  imports EnvelopeLaws GoStrings Base64
begin

text \<open>
  Wrappers whose wrapping key lives in a key service: the transit engine of Vault and OpenBao
  (internal/envelope/transit.go) and AWS KMS (internal/envelope/awskms.go, and the stub of
  binaries built without it). The services themselves are not part of the program: the engine
  behind HTTP and the KMS client of the AWS SDK are arguments of the definitions.
\<close>

section \<open>The transit engine, seen from the program\<close>

text \<open>
  A request is a JSON object of string fields, or a batch of such objects. An answer is a request
  that could not be made, no answer at all, a status other than 200 with the errors its body holds,
  a body that does not decode, or the data of the reply; a batch result is a plaintext and an error
  text.
\<close>

datatype engine_request =
    Fields "string gomap"
  | Batch_input "string gomap list"

record engine_data =
  d_ciphertext :: string
  d_plaintext :: string
  d_results :: "(string \<times> string) list"

datatype engine_reply =
    Bad_request string
  | No_answer string
  | Bad_json string
  | Status nat "string list"
  | Answer engine_data

type_synonym 'k engine = "string \<Rightarrow> string \<Rightarrow> engine_request \<Rightarrow> 'k \<Rightarrow> engine_reply \<times> 'k"

record transit =
  t_addr :: string
  t_mount :: string
  t_key :: string
  t_token :: string

definition NewTransit :: "string \<Rightarrow> string \<Rightarrow> string \<Rightarrow> string \<Rightarrow> transit" where
  "NewTransit addr mount key token =
     \<lparr>t_addr = trim_right addr ''/'', t_mount = trim_cutset mount ''/'', t_key = key, t_token = token\<rparr>"

definition transit_ID :: "transit \<Rightarrow> string" where
  "transit_ID t = ''transit:'' @ t_mount t @ ''/'' @ t_key t"

definition transit_url :: "transit \<Rightarrow> string \<Rightarrow> string" where
  "transit_url t op = t_addr t @ ''/v1/'' @ t_mount t @ ''/'' @ op @ ''/'' @ t_key t"

text \<open>\<open>call\<close>: 400 means the engine rejected the ciphertext or the context.\<close>

definition transit_error :: "string \<Rightarrow> string \<Rightarrow> string" where
  "transit_error op msg = ''transit '' @ op @ '': '' @ msg"

definition transit_call ::
  "'k engine \<Rightarrow> transit \<Rightarrow> string \<Rightarrow> engine_request \<Rightarrow> 'k host
   \<Rightarrow> engine_data result \<times> 'k host" where
  "transit_call E t op body w =
     (case E (transit_url t op) (t_token t) body (service w) of
        (reply, k1) \<Rightarrow>
          ((case reply of
              Bad_request msg \<Rightarrow> Inl (ErrMsg msg)
            | No_answer msg \<Rightarrow> Inl (ErrWrap (transit_error op msg) (ErrMsg msg))
            | Status code errs \<Rightarrow>
                if code = 400 then Inl (ErrWrap (transit_error op (join ''; '' errs)) ErrOpen)
                else Inl (ErrMsg (transit_error op (''HTTP '' @ decimal code @ '': '' @ join ''; '' errs)))
            | Bad_json msg \<Rightarrow> Inl (ErrMsg msg)
            | Answer d \<Rightarrow> Inr d), w\<lparr>service := k1\<rparr>))"

definition transit_wrap ::
  "'k engine \<Rightarrow> transit \<Rightarrow> bytes \<Rightarrow> bytes \<Rightarrow> 'k host \<Rightarrow> bytes result \<times> 'k host"
where
  "transit_wrap E t dek aad w =
     (case transit_call E t ''encrypt''
             (Fields [(''plaintext'', b64_encode dek), (''context'', b64_encode aad)]) w of
        (Inl e, w1) \<Rightarrow> (Inl e, w1)
      | (Inr d, w1) \<Rightarrow> (Inr (d_ciphertext d), w1))"

definition transit_unwrap ::
  "'k engine \<Rightarrow> transit \<Rightarrow> bytes \<Rightarrow> bytes \<Rightarrow> 'k host \<Rightarrow> bytes result \<times> 'k host"
where
  "transit_unwrap E t wrapped aad w =
     (case transit_call E t ''decrypt''
             (Fields [(''ciphertext'', wrapped), (''context'', b64_encode aad)]) w of
        (Inl e, w1) \<Rightarrow> (Inl e, w1)
      | (Inr d, w1) \<Rightarrow>
          (case b64_decode (d_plaintext d) of None \<Rightarrow> (Inl ErrOpen, w1) | Some dek \<Rightarrow> (Inr dek, w1)))"

text \<open>\<open>UnwrapMany\<close>: one round trip for every \<open>batchSize\<close> keys, results in input order.\<close>

definition batchSize :: nat where "batchSize = 500"

definition batch_result :: "string \<times> string \<Rightarrow> unwrapped" where
  "batch_result r =
     (case r of (plaintext, err) \<Rightarrow>
        if err \<noteq> [] then Inl (ErrWrap (''transit decrypt: '' @ err) ErrOpen)
        else (case b64_decode plaintext of None \<Rightarrow> Inl ErrOpen | Some dek \<Rightarrow> Inr dek))"

definition batch_item :: "bytes \<times> bytes \<Rightarrow> string gomap" where
  "batch_item xa = [(''ciphertext'', fst xa), (''context'', b64_encode (snd xa))]"

function transit_unwrap_many ::
  "'k engine \<Rightarrow> transit \<Rightarrow> (bytes \<times> bytes) list \<Rightarrow> 'k host
   \<Rightarrow> unwrapped list result \<times> 'k host" where
  "transit_unwrap_many E t reqs w =
     (if reqs = [] then (Inr [], w)
      else
        (let items = take batchSize reqs in
         (case transit_call E t ''decrypt'' (Batch_input (map batch_item items)) w of
            (Inl e, w1) \<Rightarrow> (Inl e, w1)
          | (Inr d, w1) \<Rightarrow>
              if length (d_results d) \<noteq> length items
              then (Inl (ErrMsg (''transit decrypt: '' @ decimal (length (d_results d)) @ '' results for ''
                                   @ decimal (length items) @ '' inputs'')), w1)
              else (case transit_unwrap_many E t (drop batchSize reqs) w1 of
                      (Inl e, w2) \<Rightarrow> (Inl e, w2)
                    | (Inr out, w2) \<Rightarrow> (Inr (map batch_result (d_results d) @ out), w2)))))"
  by pat_completeness auto
termination
  by (relation "measure (\<lambda>(E, t, reqs, w). length reqs)") (auto simp: batchSize_def)

declare transit_unwrap_many.simps [simp del]

text \<open>The "<scheme>:<version>" prefix of a transit ciphertext, or all of it when there is none.\<close>

definition version :: "string \<Rightarrow> string" where
  "version ciphertext =
     (case index_byte (CHR '':'') ciphertext of
        None \<Rightarrow> ciphertext
      | Some first \<Rightarrow>
          (case index_byte (CHR '':'') (drop (first + 1) ciphertext) of
             None \<Rightarrow> ciphertext
           | Some second \<Rightarrow> take (first + 1 + second) ciphertext))"

definition transit_rewrap ::
  "'k engine \<Rightarrow> transit \<Rightarrow> bytes \<Rightarrow> bytes \<Rightarrow> 'k host
   \<Rightarrow> (bytes \<times> bool) result \<times> 'k host" where
  "transit_rewrap E t wrapped aad w =
     (case transit_call E t ''rewrap''
             (Fields [(''ciphertext'', wrapped), (''context'', b64_encode aad)]) w of
        (Inl e, w1) \<Rightarrow> (Inl e, w1)
      | (Inr d, w1) \<Rightarrow> (Inr (d_ciphertext d, version (d_ciphertext d) \<noteq> version wrapped), w1))"

definition transit_wrapper :: "'k engine \<Rightarrow> transit \<Rightarrow> 'k host wrapper" where
  "transit_wrapper E t =
     \<lparr>w_id = transit_ID t, w_wrap = transit_wrap E t, w_unwrap = transit_unwrap E t,
      w_rewrap = Some (transit_rewrap E t), w_unwrap_many = Some (transit_unwrap_many E t)\<rparr>"

section \<open>AWS KMS\<close>

datatype kms_reply = Kms_blob bytes | Kms_invalid_ciphertext | Kms_failure string

text \<open>The two calls of the SDK client: key id, input, encryption context.\<close>

record 'k kms_client =
  kms_encrypt :: "string \<Rightarrow> bytes \<Rightarrow> string gomap \<Rightarrow> 'k \<Rightarrow> kms_reply \<times> 'k"
  kms_decrypt :: "string \<Rightarrow> bytes \<Rightarrow> string gomap \<Rightarrow> 'k \<Rightarrow> kms_reply \<times> 'k"

definition encryptionContext :: "bytes \<Rightarrow> string gomap" where
  "encryptionContext aad = [(''sealbox'', hex_encode aad)]"

definition kms_error :: "kms_reply \<Rightarrow> goerr" where
  "kms_error r = (case r of Kms_failure m \<Rightarrow> ErrMsg m | _ \<Rightarrow> ErrMsg ''InvalidCiphertextException'')"

definition kms_wrap ::
  "'k kms_client \<Rightarrow> string \<Rightarrow> bytes \<Rightarrow> bytes \<Rightarrow> 'k host \<Rightarrow> bytes result \<times> 'k host"
where
  "kms_wrap cl key dek aad w =
     (case kms_encrypt cl key dek (encryptionContext aad) (service w) of
        (r, k1) \<Rightarrow> ((case r of Kms_blob b \<Rightarrow> Inr b | _ \<Rightarrow> Inl (kms_error r)), w\<lparr>service := k1\<rparr>))"

definition kms_unwrap ::
  "'k kms_client \<Rightarrow> string \<Rightarrow> bytes \<Rightarrow> bytes \<Rightarrow> 'k host \<Rightarrow> bytes result \<times> 'k host"
where
  "kms_unwrap cl key wrapped aad w =
     (case kms_decrypt cl key wrapped (encryptionContext aad) (service w) of
        (r, k1) \<Rightarrow>
          ((case r of Kms_blob b \<Rightarrow> Inr b | Kms_invalid_ciphertext \<Rightarrow> Inl ErrOpen
            | Kms_failure m \<Rightarrow> Inl (ErrMsg m)), w\<lparr>service := k1\<rparr>))"

definition kms_wrapper :: "'k kms_client \<Rightarrow> string \<Rightarrow> 'k host wrapper" where
  "kms_wrapper cl key =
     \<lparr>w_id = ''awskms:'' @ key, w_wrap = kms_wrap cl key, w_unwrap = kms_unwrap cl key,
      w_rewrap = None, w_unwrap_many = None\<rparr>"

text \<open>
  \<open>NewAWSKMS\<close> in a binary with AWS support: \<open>config\<close> is what loading the default configuration
  and making the client from it and the endpoint gives. Without AWS support it always fails.
\<close>

definition NewAWSKMS ::
  "(string \<Rightarrow> 'k kms_client result) \<Rightarrow> string \<Rightarrow> string \<Rightarrow> 'k host wrapper result" where
  "NewAWSKMS config key endpoint =
     (if key = [] then Inl (ErrMsg ''envelope: AWS KMS key id is required'')
      else (case config endpoint of Inl e \<Rightarrow> Inl e | Inr cl \<Rightarrow> Inr (kms_wrapper cl key)))"

definition NewAWSKMS_stub :: "string \<Rightarrow> string \<Rightarrow> 'k host wrapper result" where
  "NewAWSKMS_stub key endpoint =
     Inl (ErrMsg ''envelope: this binary was built without AWS KMS support: build with -tags awskms'')"

end
