(* ===== verification/Command.thy ===== *)
theory Command
  imports NetAddr Base64 KeyServices Auth Schema
begin

text \<open>
  The sealbox command (cmd/sealbox/main.go), the part that decides: where the wrapping keys come
  from and whether the process may start at all. The operating system is a record: the
  environment, files, and running a program. What the decisions set off is in the Process theory.
\<close>

section \<open>The environment\<close>

record os =
  environ :: "string gomap"
  read_file :: "string \<Rightarrow> bytes result"
  run_program :: "string list \<Rightarrow> string gomap \<Rightarrow> bytes result"

definition getenv :: "os \<Rightarrow> string \<Rightarrow> string" where
  "getenv os name = (case map_of (environ os) name of None \<Rightarrow> [] | Some v \<Rightarrow> v)"

text \<open>\<open>strings.FieldsFunc\<close>, and \<open>strings.Fields\<close>.\<close>

fun split_runs :: "(rune \<Rightarrow> bool) \<Rightarrow> (rune \<times> string) list \<Rightarrow> string \<Rightarrow> string list" where
  "split_runs P [] cur = (if cur = [] then [] else [cur])"
| "split_runs P ((r, bs) # segs) cur =
     (if P r then (if cur = [] then split_runs P segs [] else cur # split_runs P segs [])
      else split_runs P segs (cur @ bs))"

definition fields_func :: "(rune \<Rightarrow> bool) \<Rightarrow> string \<Rightarrow> string list" where
  "fields_func P s = split_runs P (segments s) []"

datatype start_error =
    Unreadable goerr
  | Command_failed goerr
  | Several_key_sources
  | Bad_master_key
  | No_key_in_source
  | No_master_key
  | Transit_incomplete
  | Secret_missing string
  | Wrapper_refused goerr
  | Unknown_kms string
  | No_database_url
  | Bad_migrate
  | Unknown_command string
  | Keys_refused keys_error
  | No_api_keys
  | Schema_refused schema_error
  | Half_a_certificate
  | Client_CA_without_TLS
  | Plaintext_refused string
  | No_certificates

section \<open>Master keys\<close>

text \<open>
  The environment of the key command: everything but sealbox's own variables. \<open>exec.Cmd\<close> reads a nil
  \<open>Env\<close>, which is what appending nothing leaves, as the environment of this process.
\<close>

definition own_variable :: "string \<Rightarrow> bool" where
  "own_variable name \<longleftrightarrow> cut_prefix ''SEALBOX_'' name \<noteq> None"

definition command_env :: "string gomap \<Rightarrow> string gomap" where
  "command_env env = (let kept = filter (\<lambda>kv. \<not> own_variable (fst kv)) env in if kept = [] then env else kept)"

text \<open>The sources that are set, in the order they are read. Reading a file or running the command may fail.\<close>

definition key_sources :: "os \<Rightarrow> start_error + string list" where
  "key_sources os =
     (let v = getenv os ''SEALBOX_MASTER_KEY''; path = getenv os ''SEALBOX_MASTER_KEY_FILE'';
          command = getenv os ''SEALBOX_MASTER_KEY_COMMAND'';
          direct = (if v = [] then [] else [v]) in
      (case (if path = [] then Inr [] else case read_file os path of Inl e \<Rightarrow> Inl (Unreadable e) | Inr b \<Rightarrow> Inr [b]) of
         Inl e \<Rightarrow> Inl e
       | Inr file \<Rightarrow>
           (if trim_space command = [] then Inr (direct @ file)
            else
              (case run_program os (fields_func is_space command) (command_env (environ os)) of
                 Inl e \<Rightarrow> Inl (Command_failed e)
               | Inr out \<Rightarrow> Inr (direct @ file @ [out])))))"

definition key_separator :: "rune \<Rightarrow> bool" where
  "key_separator r \<longleftrightarrow> r \<in> set [0x0A, 0x0D, 0x2C, 0x20, 0x09]"

definition decode_key :: "string \<Rightarrow> start_error + bytes" where
  "decode_key field =
     (case b64_decode field of
        None \<Rightarrow> Inl Bad_master_key
      | Some key \<Rightarrow> if length key \<noteq> KeySize then Inl Bad_master_key else Inr key)"

definition loadMasterKeys :: "os \<Rightarrow> start_error + bytes list" where
  "loadMasterKeys os =
     (case key_sources os of
        Inl e \<Rightarrow> Inl e
      | Inr [] \<Rightarrow> Inr []
      | Inr [raw] \<Rightarrow>
          (case try_map decode_key (fields_func key_separator raw) of
             Inl e \<Rightarrow> Inl e
           | Inr keys \<Rightarrow> if keys = [] then Inl No_key_in_source else Inr keys)
      | Inr _ \<Rightarrow> Inl Several_key_sources)"

definition secret :: "os \<Rightarrow> string \<Rightarrow> start_error + string" where
  "secret os name =
     (let v = getenv os name; path = getenv os (name @ ''_FILE'') in
      if v \<noteq> [] then Inr v
      else if path \<noteq> [] then
        (case read_file os path of Inl e \<Rightarrow> Inl (Unreadable e) | Inr b \<Rightarrow> Inr (trim_space b))
      else Inl (Secret_missing name))"

text \<open>
  The wrapping keys, current first. \<open>engine\<close> is the transit engine behind its HTTP calls, and
  \<open>aws\<close> the \<open>NewAWSKMS\<close> of this binary, with its context.
\<close>

definition loadWrappers ::
  "crypto \<Rightarrow> 'k engine \<Rightarrow> (string \<Rightarrow> string \<Rightarrow> 'k host wrapper result) \<Rightarrow> os
   \<Rightarrow> start_error + 'k host wrapper list" where
  "loadWrappers C engine aws os =
     (case loadMasterKeys os of
        Inl e \<Rightarrow> Inl e
      | Inr keys \<Rightarrow>
     (case try_map (NewLocal C) keys of
        Inl e \<Rightarrow> Inl (Wrapper_refused e)
      | Inr local \<Rightarrow>
     (let kms = getenv os ''SEALBOX_KMS'' in
      if kms = [] \<or> kms = ''local'' then (if local = [] then Inl No_master_key else Inr local)
      else if kms = ''transit'' then
        (let addr = getenv os ''SEALBOX_TRANSIT_ADDR''; key = getenv os ''SEALBOX_TRANSIT_KEY'' in
         if addr = [] \<or> key = [] then Inl Transit_incomplete
         else
           (case secret os ''SEALBOX_TRANSIT_TOKEN'' of
              Inl e \<Rightarrow> Inl e
            | Inr token \<Rightarrow>
                (let m = getenv os ''SEALBOX_TRANSIT_MOUNT''; mount = (if m = [] then ''transit'' else m) in
                 Inr (transit_wrapper engine (NewTransit addr mount key token) # local))))
      else if kms = ''awskms'' then
        (case aws (getenv os ''SEALBOX_AWSKMS_KEY'') (getenv os ''SEALBOX_AWSKMS_ENDPOINT'') of
           Inl e \<Rightarrow> Inl (Wrapper_refused e)
         | Inr w \<Rightarrow> Inr (w # local))
      else Inl (Unknown_kms kms))))"

section \<open>Starting\<close>

record serve_plan =
  p_clients :: "client list"
  p_schema :: schema
  p_addr :: string
  p_tls :: "(string \<times> string) option"
  p_client_ca :: string
  p_audit_stdout :: bool
  p_metrics_addr :: string

datatype task = Migrate string | Rotate_all | Reindex_in string schema | Serve serve_plan

record plan =
  p_database :: string
  p_migrate :: bool
  p_task :: task

definition migrate_setting :: "os \<Rightarrow> start_error + bool" where
  "migrate_setting os =
     (let m = getenv os ''SEALBOX_MIGRATE'' in
      if m = [] \<or> m = ''auto'' then Inr True else if m = ''off'' then Inr False else Inl Bad_migrate)"

text \<open>The clients of a server: those of the keys file, and one more for \<open>SEALBOX_API_KEY\<close>.\<close>

definition start_clients :: "(string list \<Rightarrow> string list) \<Rightarrow> os \<Rightarrow> start_error + client list" where
  "start_clients pick os =
     (case LoadClients pick (read_file os) (getenv os ''SEALBOX_KEYS_FILE'') of
        Inl e \<Rightarrow> Inl (Keys_refused e)
      | Inr cs \<Rightarrow>
          (let k = getenv os ''SEALBOX_API_KEY'';
               clients = (if k = [] then cs
                 else cs @ [\<lparr>c_name = ''default'', c_key = k, c_roles = AllRoles, c_reveal_per_second = 0\<rparr>])
           in if clients = [] then Inl No_api_keys
              else (case ValidateClients clients of Inl e \<Rightarrow> Inl (Keys_refused e) | Inr _ \<Rightarrow> Inr clients)))"

definition plan_serve :: "(string list \<Rightarrow> string list) \<Rightarrow> os \<Rightarrow> start_error + serve_plan" where
  "plan_serve pick os =
     (case start_clients pick os of
        Inl e \<Rightarrow> Inl e
      | Inr clients \<Rightarrow>
     (case Load pick (read_file os) (getenv os ''SEALBOX_SCHEMA'') of
        Inl e \<Rightarrow> Inl (Schema_refused e)
      | Inr sc \<Rightarrow>
     (let a = getenv os ''SEALBOX_ADDR''; addr = (if a = [] then '':8080'' else a);
          cert = getenv os ''SEALBOX_TLS_CERT''; key = getenv os ''SEALBOX_TLS_KEY'';
          ca = getenv os ''SEALBOX_TLS_CLIENT_CA''; useTLS = (cert \<noteq> []) in
      if (cert = []) \<noteq> (key = []) then Inl Half_a_certificate
      else if \<not> useTLS \<and> ca \<noteq> [] then Inl Client_CA_without_TLS
      else if \<not> useTLS \<and> \<not> isLoopback addr \<and> getenv os ''SEALBOX_INSECURE_HTTP'' \<noteq> ''1''
      then Inl (Plaintext_refused addr)
      else Inr \<lparr>p_clients = clients, p_schema = sc, p_addr = addr,
                p_tls = (if useTLS then Some (cert, key) else None), p_client_ca = ca,
                p_audit_stdout = (getenv os ''SEALBOX_AUDIT_STDOUT'' = ''1''),
                p_metrics_addr = getenv os ''SEALBOX_METRICS_ADDR''\<rparr>)))"

text \<open>
  \<open>main\<close> up to where it first opens the store; \<open>args\<close> are the arguments after the name of the
  program. \<open>log.Fatal\<close> ends the process with the error.
\<close>

definition main_plan ::
  "crypto \<Rightarrow> 'k engine \<Rightarrow> (string \<Rightarrow> string \<Rightarrow> 'k host wrapper result)
   \<Rightarrow> (string list \<Rightarrow> string list) \<Rightarrow> os \<Rightarrow> string list
   \<Rightarrow> start_error + 'k host envelope \<times> plan" where
  "main_plan C engine aws pick os args =
     (case loadWrappers C engine aws os of
        Inl e \<Rightarrow> Inl e
      | Inr wrappers \<Rightarrow>
     (let env = new_envelope (hd wrappers) (tl wrappers); url = getenv os ''SEALBOX_DATABASE_URL'' in
      if url = [] then Inl No_database_url else
     (case migrate_setting os of
        Inl e \<Rightarrow> Inl e
      | Inr migrate \<Rightarrow>
     (case (case args of
              [] \<Rightarrow> (case plan_serve pick os of Inl e \<Rightarrow> Inl e | Inr p \<Rightarrow> Inr (Serve p))
            | cmd # rest \<Rightarrow>
                if cmd = ''migrate'' then Inr (Migrate (getenv os ''SEALBOX_RUNTIME_ROLE''))
                else if cmd = ''rotate'' then Inr Rotate_all
                else if cmd = ''reindex'' then
                  (case Load pick (read_file os) (getenv os ''SEALBOX_SCHEMA'') of
                     Inl e \<Rightarrow> Inl (Schema_refused e)
                   | Inr sc \<Rightarrow> Inr (Reindex_in (case rest of [] \<Rightarrow> [] | c # _ \<Rightarrow> c) sc))
                else Inl (Unknown_command cmd)) of
        Inl e \<Rightarrow> Inl e
      | Inr t \<Rightarrow> Inr (env, \<lparr>p_database = url, p_migrate = migrate, p_task = t\<rparr>)))))"

section \<open>Listening\<close>

text \<open>
  The listener \<open>main\<close> starts once the store is open. \<open>certificates\<close> says whether a PEM bundle holds any
  certificate; with a bundle, clients must present a certificate it signed.
\<close>

datatype listener =
    Plain_http string
  | Tls13 string "string \<times> string" "bytes option"

definition loadCA :: "(bytes \<Rightarrow> bool) \<Rightarrow> os \<Rightarrow> string \<Rightarrow> start_error + bytes" where
  "loadCA certificates os path =
     (case read_file os path of
        Inl e \<Rightarrow> Inl (Unreadable e)
      | Inr pem \<Rightarrow> if \<not> certificates pem then Inl No_certificates else Inr pem)"

definition listen :: "(bytes \<Rightarrow> bool) \<Rightarrow> os \<Rightarrow> serve_plan \<Rightarrow> start_error + listener" where
  "listen certificates os s =
     (case p_tls s of
        None \<Rightarrow> Inr (Plain_http (p_addr s))
      | Some certificate \<Rightarrow>
          if p_client_ca s = [] then Inr (Tls13 (p_addr s) certificate None)
          else (case loadCA certificates os (p_client_ca s) of
                  Inl e \<Rightarrow> Inl e | Inr pool \<Rightarrow> Inr (Tls13 (p_addr s) certificate (Some pool))))"

end
