(* ===== verification/Privileges.thy ===== *)
theory Privileges
  imports Store
begin

text \<open>
  \<open>Grant\<close> and \<open>Ping\<close> (internal/store/store.go): what a runtime role may do in the database. The
  statements of \<open>Grant\<close> go to the pool one after the other, until one fails; each sets or clears
  entries of Postgres's access control list, a set of role, privilege and object.

  \<open>statement\<close> lists the kinds of statement a running server sends, and \<open>needs\<close> what Postgres asks
  of the role for each.
\<close>

section \<open>Granting\<close>

datatype privilege = USAGE | SELECT | INSERT | UPDATE | DELETE | TRUNCATE

type_synonym acl = "(string \<times> privilege \<times> string) set"

datatype grant_stmt = GRANT "privilege list" string | REVOKE "privilege list" string

fun apply_grant :: "string \<Rightarrow> grant_stmt \<Rightarrow> acl \<Rightarrow> acl" where
  "apply_grant role (GRANT ps obj) acl = acl \<union> (\<lambda>p. (role, p, obj)) ` set ps"
| "apply_grant role (REVOKE ps obj) acl = acl - (\<lambda>p. (role, p, obj)) ` set ps"

definition grant_stmts :: "grant_stmt list" where
  "grant_stmts =
     [GRANT [USAGE] ''schema public'',
      GRANT [SELECT] ''goose_db_version'',
      GRANT [SELECT, INSERT, UPDATE] ''objects'',
      GRANT [SELECT, INSERT, DELETE] ''blind_index'',
      GRANT [SELECT, INSERT, UPDATE] ''keys'',
      GRANT [SELECT, INSERT] ''audit_log'',
      REVOKE [UPDATE, DELETE, TRUNCATE] ''audit_log'',
      GRANT [USAGE, SELECT] ''audit_log_id_seq'']"

text \<open>\<open>weather n\<close> is what becomes of the n-th statement, and a refusal by Postgres is a loss too.\<close>

fun run_grants ::
  "(nat \<Rightarrow> weather) \<Rightarrow> string \<Rightarrow> nat \<Rightarrow> grant_stmt list \<Rightarrow> acl \<Rightarrow> unit result \<times> acl" where
  "run_grants sky role n [] acl = (Inr (), acl)"
| "run_grants sky role n (g # gs) acl =
     (case sky n of
        Fine \<Rightarrow> run_grants sky role (Suc n) gs (apply_grant role g acl)
      | Lost \<Rightarrow> (Inl (ErrWrap ''store: grant'' db_down), acl)
      | Unheard \<Rightarrow> (Inl (ErrWrap ''store: grant'' db_down), apply_grant role g acl))"

definition Grant :: "(nat \<Rightarrow> weather) \<Rightarrow> string \<Rightarrow> acl \<Rightarrow> unit result \<times> acl" where
  "Grant sky role acl = run_grants sky role 0 grant_stmts acl"

definition Ping :: "'k world \<Rightarrow> unit result \<times> 'k world" where
  "Ping w = pool_exec (\<lambda>d. Inr ((), d)) w"

section \<open>What a running server sends\<close>

datatype statement =
    Select_version
  | Insert_key | Select_key | Update_key
  | Insert_object | Select_object | Shred_object | Lock_object | Rewrap_object
  | Insert_index | Select_index | Delete_index
  | Insert_audit

text \<open>
  \<open>ON CONFLICT (name)\<close>, \<open>WHERE\<close> and \<open>RETURNING\<close> read columns, and \<open>FOR UPDATE\<close> wants \<open>UPDATE\<close>.
  The id of an audit row comes from its sequence.
\<close>

fun needs :: "statement \<Rightarrow> (privilege \<times> string) list" where
  "needs Select_version = [(SELECT, ''goose_db_version'')]"
| "needs Insert_key = [(INSERT, ''keys''), (SELECT, ''keys'')]"
| "needs Select_key = [(SELECT, ''keys'')]"
| "needs Update_key = [(UPDATE, ''keys''), (SELECT, ''keys'')]"
| "needs Insert_object = [(INSERT, ''objects'')]"
| "needs Select_object = [(SELECT, ''objects'')]"
| "needs Shred_object = [(UPDATE, ''objects''), (SELECT, ''objects'')]"
| "needs Lock_object = [(SELECT, ''objects''), (UPDATE, ''objects'')]"
| "needs Rewrap_object = [(UPDATE, ''objects''), (SELECT, ''objects'')]"
| "needs Insert_index = [(INSERT, ''blind_index'')]"
| "needs Select_index = [(SELECT, ''blind_index'')]"
| "needs Delete_index = [(DELETE, ''blind_index''), (SELECT, ''blind_index'')]"
| "needs Insert_audit = [(INSERT, ''audit_log''), (USAGE, ''audit_log_id_seq'')]"

definition permitted :: "acl \<Rightarrow> string \<Rightarrow> statement \<Rightarrow> bool" where
  "permitted acl role q \<longleftrightarrow>
     (role, USAGE, ''schema public'') \<in> acl \<and> list_all (\<lambda>(p, obj). (role, p, obj) \<in> acl) (needs q)"

section \<open>Enough, and no more on the audit log\<close>

lemma run_grants_Inr:
  "run_grants sky role n gs acl = (Inr u, acl') \<Longrightarrow> acl' = fold (apply_grant role) gs acl"
  by (induction gs arbitrary: n acl) (auto split: weather.splits)

lemma other_roles:
  "{e \<in> fold (apply_grant role) gs acl. fst e \<noteq> role} = {e \<in> acl. fst e \<noteq> role}"
proof (induction gs arbitrary: acl)
  case (Cons g gs)
  have "{e \<in> apply_grant role g acl. fst e \<noteq> role} = {e \<in> acl. fst e \<noteq> role}" by (cases g) auto
  with Cons show ?case by simp
qed simp

fun takes_from :: "grant_stmt \<Rightarrow> string set" where
  "takes_from (GRANT ps obj) = {}"
| "takes_from (REVOKE ps obj) = {obj}"

lemma keeps_other_objects:
  "e \<in> acl \<Longrightarrow> snd (snd e) \<notin> \<Union> (takes_from ` set gs) \<Longrightarrow> e \<in> fold (apply_grant role) gs acl"
proof (induction gs arbitrary: acl)
  case (Cons g gs)
  then have "e \<in> apply_grant role g acl" by (cases g) auto
  with Cons show ?case by simp
qed simp

text \<open>
  C36: The runtime role can do what a server does, and can only append to the audit log. Once
  Grant has succeeded, every statement a running server sends is permitted to the role; whatever
  it held on the audit log before, it can neither update nor delete nor truncate there; no other
  role's privileges changed, and the role lost nothing anywhere else.
\<close>

theorem Grant_append_only:
  assumes "Grant sky role acl = (Inr (), acl')"
  shows "permitted acl' role q
    \<and> (role, UPDATE, ''audit_log'') \<notin> acl' \<and> (role, DELETE, ''audit_log'') \<notin> acl'
    \<and> (role, TRUNCATE, ''audit_log'') \<notin> acl'
    \<and> {e \<in> acl'. fst e \<noteq> role} = {e \<in> acl. fst e \<noteq> role}
    \<and> {e \<in> acl. snd (snd e) \<noteq> ''audit_log''} \<subseteq> acl'"
proof -
  have acl': "acl' = fold (apply_grant role) grant_stmts acl"
    using assms unfolding Grant_def by (rule run_grants_Inr)
  have "permitted acl' role q"
    unfolding acl' permitted_def grant_stmts_def by (cases q) simp_all
  moreover have "(role, UPDATE, ''audit_log'') \<notin> acl' \<and> (role, DELETE, ''audit_log'') \<notin> acl'
      \<and> (role, TRUNCATE, ''audit_log'') \<notin> acl'"
    unfolding acl' grant_stmts_def by simp
  moreover have "e \<in> acl'" if "e \<in> acl" "snd (snd e) \<noteq> ''audit_log''" for e
    unfolding acl' using that by (intro keeps_other_objects) (simp_all add: grant_stmts_def)
  then have "{e \<in> acl. snd (snd e) \<noteq> ''audit_log''} \<subseteq> acl'" by blast
  ultimately show ?thesis using other_roles acl' by blast
qed

text \<open>An owner who let the role delete from the log before takes that back.\<close>

theorem Grant_append_only_witness:
  "\<exists>acl'. Grant (\<lambda>_. Fine) ''app'' {(''app'', DELETE, ''audit_log'')} = (Inr (), acl')
     \<and> permitted acl' ''app'' Insert_audit \<and> (''app'', DELETE, ''audit_log'') \<notin> acl'"
proof -
  obtain acl' where run: "Grant (\<lambda>_. Fine) ''app'' {(''app'', DELETE, ''audit_log'')} = (Inr (), acl')"
    by (simp add: Grant_def grant_stmts_def)
  from Grant_append_only [OF run, of Insert_audit] run show ?thesis by auto
qed

end
