(* ===== verification/Process.thy ===== *)
theory Process
  imports Metrics Gateway Command Privileges
begin

text \<open>
  The running process (cmd/sealbox/main.go): what a plan of the Command theory sets off. A task ends
  with exit status 0 (\<open>Done\<close>) or not (\<open>Failed\<close>); \<open>None\<close> is a task whose page loop is still running
  when its fuel is used up. The server is the mux of \<open>main\<close> with the API behind it, under the
  middleware that counts.
\<close>

section \<open>Tasks\<close>

datatype exit = Done | Failed

text \<open>
  \<open>migrateUp\<close>: the embedded files, the session lock, a provider for them, and what goose then does to
  the database, each with an error of its own.
\<close>

record 'k goose =
  g_files :: "unit result"
  g_locker :: "unit result"
  g_provider :: "'k world \<Rightarrow> unit result \<times> 'k world"
  g_up :: "'k world \<Rightarrow> unit result \<times> 'k world"

definition migrateUp :: "'k goose \<Rightarrow> 'k world \<Rightarrow> unit result \<times> 'k world" where
  "migrateUp g w =
     (case g_files g of
        Inl e \<Rightarrow> (Inl e, w)
      | Inr _ \<Rightarrow>
     (case g_locker g of
        Inl e \<Rightarrow> (Inl e, w)
      | Inr _ \<Rightarrow>
     (case g_provider g w of
        (Inl e, w1) \<Rightarrow> (Inl e, w1)
      | (Inr _, w1) \<Rightarrow> g_up g w1)))"

record 'k backend =
  b_crypto :: crypto
  b_goose :: "'k goose"
  b_query_version :: "'k world \<Rightarrow> nat result \<times> 'k world"
  b_migrations :: nat

definition open_store ::
  "'k backend \<Rightarrow> 'k host envelope \<Rightarrow> bool \<Rightarrow> 'k world \<Rightarrow> 'k store result \<times> 'k world" where
  "open_store B env migrate w =
     OpenStore (b_crypto B) (migrateUp (b_goose B)) (b_query_version B) (b_migrations B) env migrate w"

definition AuditTo :: "'k store \<Rightarrow> 'k store" where
  "AuditTo st = st\<lparr>st_audit_to := True\<rparr>"

definition run_rotate ::
  "nat \<Rightarrow> 'k backend \<Rightarrow> 'k host envelope \<Rightarrow> bool \<Rightarrow> 'k world \<Rightarrow> exit option \<times> 'k world" where
  "run_rotate fuel B env migrate w =
     (case open_store B env migrate w of
        (Inl e, w1) \<Rightarrow> (Some Failed, w1)
      | (Inr st, w1) \<Rightarrow>
     (case Rotate fuel st w1 of
        (None, w2) \<Rightarrow> (None, w2)
      | (Some ((rotated, skipped), e), w2) \<Rightarrow>
          (Some (if e \<noteq> None \<or> skipped > 0 then Failed else Done), w2)))"

text \<open>
  The index of an object as \<open>reindex\<close> computes it. JSON null is the nil map; a schema that passed
  its checks does not panic, so the first branch of the inner case is never taken.
\<close>

definition indexed_by ::
  "(string list \<Rightarrow> string list) \<Rightarrow> schema \<Rightarrow> string \<Rightarrow> bytes \<Rightarrow> string gomap result" where
  "indexed_by pick sc collection plaintext =
     (case unmarshal_map plaintext of
        None \<Rightarrow> Inl bad_json
      | Some obj \<Rightarrow>
          (case Indexed pick sc collection (case obj of None \<Rightarrow> [] | Some m \<Rightarrow> m) of
             Inl e \<Rightarrow> Inl bad_json | Inr values \<Rightarrow> Inr values))"

definition run_reindex ::
  "nat \<Rightarrow> 'k backend \<Rightarrow> 'k host envelope \<Rightarrow> bool \<Rightarrow> (string list \<Rightarrow> string list) \<Rightarrow> os \<Rightarrow> string \<Rightarrow> schema
   \<Rightarrow> 'k world \<Rightarrow> exit option \<times> 'k world" where
  "run_reindex fuel B env migrate pick os collection sc w =
     (case open_store B env migrate w of
        (Inl e, w1) \<Rightarrow> (Some Failed, w1)
      | (Inr st, w1) \<Rightarrow>
     (let st' = (if getenv os ''SEALBOX_AUDIT_STDOUT'' = ''1'' then AuditTo st else st) in
     (case Reindex fuel (b_crypto B) st' ''reindex'' collection (indexed_by pick sc) w1 of
        (None, w2) \<Rightarrow> (None, w2)
      | (Some ((done, skipped), e), w2) \<Rightarrow>
          (Some (if e \<noteq> None \<or> skipped > 0 then Failed else Done), w2))))"

definition migrateAndGrant ::
  "'k backend \<Rightarrow> 'k host envelope \<Rightarrow> (nat \<Rightarrow> weather) \<Rightarrow> string \<Rightarrow> acl \<Rightarrow> 'k world
   \<Rightarrow> exit \<times> acl \<times> 'k world" where
  "migrateAndGrant B env sky role acl w =
     (case open_store B env True w of
        (Inl e, w1) \<Rightarrow> (Failed, acl, w1)
      | (Inr st, w1) \<Rightarrow>
          if role = [] then (Done, acl, w1)
          else (case Grant sky role acl of
                  (Inl e, acl1) \<Rightarrow> (Failed, acl1, w1)
                | (Inr _, acl1) \<Rightarrow> (Done, acl1, w1)))"

section \<open>The server\<close>

datatype page = Healthz | Openapi_json | Api_prefix

text \<open>
  The mux of \<open>main\<close>. \<open>/v1/\<close> takes every path below it; \<open>/v1\<close> itself the mux redirects there, with a
  status of its choice, under the same pattern.
\<close>

definition page_of :: "request \<Rightarrow> page option" where
  "page_of r =
     (case r_path r of
        [] \<Rightarrow> None
      | [p] \<Rightarrow>
          if p = ''healthz'' \<and> method_matches ''GET'' (r_method r) then Some Healthz
          else if p = ''openapi.json'' \<and> method_matches ''GET'' (r_method r) then Some Openapi_json
          else None
      | p # _ \<Rightarrow> if p = ''v1'' then Some Api_prefix else None)"

fun page_pattern :: "page \<Rightarrow> string" where
  "page_pattern Healthz = ''GET /healthz''"
| "page_pattern Openapi_json = ''GET /openapi.json''"
| "page_pattern Api_prefix = ''/v1/''"

datatype reply = Api_answer answer | Text nat string | Document | Redirected nat

fun reply_status :: "reply \<Rightarrow> nat option" where
  "reply_status (Api_answer (answer.Answer n _)) = Some n"
| "reply_status (Api_answer answer.Dropped) = None"
| "reply_status (Text n _) = Some n"
| "reply_status Document = Some 200"
| "reply_status (Redirected n) = Some n"

text \<open>\<open>http.Error\<close> ends the line.\<close>

definition http_error :: "nat \<Rightarrow> string \<Rightarrow> reply" where
  "http_error status msg = Text status (msg @ newline)"

lemma http_error_status [simp]: "reply_status (http_error n msg) = Some n"
  by (simp add: http_error_def)

definition healthz :: "('k world, 'l) site \<Rightarrow> reply \<times> ('k world, 'l) site" where
  "healthz s =
     (case on_vault Ping s of
        (Inl e, s1) \<Rightarrow> (http_error 503 ''database unreachable'', s1)
      | (Inr _, s1) \<Rightarrow> (Text 200 (''ok'' @ newline), s1))"

text \<open>A page that does not call \<open>WriteHeader\<close> leaves the recorder at 200.\<close>

definition main_handler ::
  "(bytes \<Rightarrow> bytes) \<Rightarrow> client list \<Rightarrow> ('k world, 'l) server \<Rightarrow> nat \<Rightarrow> request
   \<Rightarrow> (reply, ('k world, 'l) site) handler" where
  "main_handler sha256 clients srv moved r a t =
     (case page_of r of
        Some Healthz \<Rightarrow>
          (case healthz (t_state t) of
             (x, s) \<Rightarrow> ((Some (if reply_status x = Some 503 then [503] else []), x),
                         set_pattern a (page_pattern Healthz) (t\<lparr>t_state := s\<rparr>)))
      | Some Openapi_json \<Rightarrow> ((Some [], Document), set_pattern a (page_pattern Openapi_json) t)
      | Some Api_prefix \<Rightarrow>
          (case api_handler sha256 clients srv r a (set_pattern a (page_pattern Api_prefix) t) of
             ((wr, ans), t1) \<Rightarrow> ((wr, Api_answer ans), t1))
      | None \<Rightarrow>
          if r_path r = [''v1''] then ((Some [moved], Redirected moved), set_pattern a (page_pattern Api_prefix) t)
          else if r_path r = [''healthz''] \<or> r_path r = [''openapi.json'']
          then ((Some [405], http_error 405 ''Method Not Allowed''), set_pattern a [] t)
          else ((Some [404], http_error 404 ''404 page not found''), set_pattern a [] t))"

text \<open>The server behind the mux: the store as \<open>main\<close> opens it for serving, and \<open>New\<close> on it.\<close>

definition serve_store ::
  "'k backend \<Rightarrow> 'k host envelope \<Rightarrow> plan \<Rightarrow> serve_plan \<Rightarrow> 'k world \<Rightarrow> 'k store result \<times> 'k world" where
  "serve_store B env p s w =
     (case open_store B env (p_migrate p) w of
        (Inl e, w1) \<Rightarrow> (Inl e, w1)
      | (Inr st, w1) \<Rightarrow> (Inr (if p_audit_stdout s then AuditTo st else st), w1))"

definition server_of ::
  "crypto \<Rightarrow> (string \<Rightarrow> limiter \<Rightarrow> nat \<Rightarrow> 'l \<Rightarrow> bool \<times> 'l) \<Rightarrow> (string list \<Rightarrow> string list)
   \<Rightarrow> 'k store \<Rightarrow> serve_plan \<Rightarrow> ('k world, 'l) server" where
  "server_of C allowN pick st s =
     \<lparr>s_vault = store_vault C st, s_schema = p_schema s, s_limiters = new_limiters (p_clients s),
      s_allowN = allowN, s_range = pick\<rparr>"

lemma server_of_New:
  "requireKey sha256 (p_clients s) (serve_mux (server_of C allowN pick st s))
   = New sha256 allowN pick (store_vault C st) (p_schema s) (p_clients s)"
  by (simp add: New_def server_of_def)

definition serve_request ::
  "(bytes \<Rightarrow> bytes) \<Rightarrow> client list \<Rightarrow> ('k world, 'l) server \<Rightarrow> nat \<Rightarrow> request \<Rightarrow> float64
   \<Rightarrow> ('k world, 'l) site traffic \<Rightarrow> registry \<Rightarrow> reply \<times> ('k world, 'l) site traffic \<times> registry" where
  "serve_request sha256 clients srv moved r secs t g =
     Middleware (main_handler sha256 clients srv moved r) secs t g"

text \<open>Requests one after the other, each with the time it takes.\<close>

fun serve_requests ::
  "(bytes \<Rightarrow> bytes) \<Rightarrow> client list \<Rightarrow> ('k world, 'l) server \<Rightarrow> nat \<Rightarrow> (request \<times> float64) list
   \<Rightarrow> ('k world, 'l) site traffic \<Rightarrow> registry \<Rightarrow> reply list \<times> ('k world, 'l) site traffic \<times> registry" where
  "serve_requests sha256 clients srv moved [] t g = ([], t, g)"
| "serve_requests sha256 clients srv moved ((r, secs) # rs) t g =
     (case serve_request sha256 clients srv moved r secs t g of (x, t1, g1) \<Rightarrow>
      (case serve_requests sha256 clients srv moved rs t1 g1 of (xs, t2, g2) \<Rightarrow> (x # xs, t2, g2)))"

section \<open>The metrics listener\<close>

text \<open>A mux of its own, on an address of its own, started only when one is set.\<close>

definition metrics_listener :: "serve_plan \<Rightarrow> string option" where
  "metrics_listener s = (if p_metrics_addr s = [] then None else Some (p_metrics_addr s))"

definition metrics_handler ::
  "(rune \<times> string \<Rightarrow> string) \<Rightarrow> (float64 \<Rightarrow> string) \<Rightarrow> registry \<Rightarrow> request \<Rightarrow> reply" where
  "metrics_handler wide show_g g r =
     (if r_path r = [''metrics'']
      then if method_matches ''GET'' (r_method r) then Text 200 (metrics_page wide show_g g)
           else http_error 405 ''Method Not Allowed''
      else http_error 404 ''404 page not found'')"

end
