(* ===== verification/CommandTheorems.thy ===== *)
theory CommandTheorems
  imports Command Samples
begin

text \<open>
  What the command's decisions guarantee: master keys are read back as they were written, the
  current one first; a process that starts to serve never speaks plaintext beyond the machine
  unless told to, and serves with clients and a schema that passed their checks.
\<close>

section \<open>Splitting into fields\<close>

lemma split_runs_word:
  assumes "list_all (\<lambda>c. \<not> P (byte c)) w"
  shows "split_runs P (map (\<lambda>c. (byte c, [c])) w @ segs) cur = split_runs P segs (cur @ w)"
  using assms by (induction w arbitrary: cur) simp_all

lemma split_runs_skip:
  assumes "list_all (\<lambda>c. P (byte c)) sep"
  shows "split_runs P (map (\<lambda>c. (byte c, [c])) sep @ segs) [] = split_runs P segs []"
  using assms by (induction sep) simp_all

lemma split_runs_separators:
  assumes "list_all (\<lambda>c. P (byte c)) sep" and "sep \<noteq> []" and "cur \<noteq> []"
  shows "split_runs P (map (\<lambda>c. (byte c, [c])) sep @ segs) cur = cur # split_runs P segs []"
proof -
  from assms obtain c ss where "sep = c # ss" by (cases sep) auto
  with assms split_runs_skip [of P ss] show ?thesis by simp
qed

text \<open>Words without separators, each but the last followed by separators of its own, are the fields.\<close>

lemma split_runs_spread:
  assumes "length seps = length ws" and "list_all (\<lambda>w. w \<noteq> [] \<and> list_all (\<lambda>c. \<not> P (byte c)) w) ws"
    and "list_all (list_all (\<lambda>c. P (byte c))) seps" and "[] \<notin> set (butlast seps)"
  shows "split_runs P (map (\<lambda>c. (byte c, [c])) (concat (map2 (@) ws seps))) [] = ws"
  using assms
proof (induction seps ws rule: list_induct2)
  case (Cons sep seps w ws)
  let ?segs = "map (\<lambda>c. (byte c, [c]))"
  have w: "w \<noteq> []" "list_all (\<lambda>c. \<not> P (byte c)) w" and s: "list_all (\<lambda>c. P (byte c)) sep" using Cons.prems by simp_all
  have "split_runs P (?segs sep @ ?segs (concat (map2 (@) ws seps))) w = w # ws"
  proof (cases "sep = []")
    case True
    with Cons.prems Cons.hyps have "ws = []" by (cases seps) (auto split: if_splits)
    with True w show ?thesis by simp
  next
    case False
    from Cons have "split_runs P (?segs (concat (map2 (@) ws seps))) [] = ws" by (auto split: if_splits)
    with split_runs_separators [where P = P, OF s False w(1)] show ?thesis by simp
  qed
  then show ?case using split_runs_word [OF w(2), of _ "[]"] by simp
qed simp

lemma fields_func_spread:
  assumes "length seps = length ws" and "list_all (\<lambda>w. w \<noteq> [] \<and> list_all (\<lambda>c. ascii c \<and> \<not> P (byte c)) w) ws"
    and "list_all (\<lambda>c. ascii c \<and> P (byte c)) (before @ concat seps)" and "[] \<notin> set (butlast seps)"
  shows "fields_func P (before @ concat (map2 (@) ws seps)) = ws"
proof -
  have b: "list_all ascii before" "list_all (\<lambda>c. P (byte c)) before" using assms(3) by (auto simp: list_all_iff)
  have s: "list_all (list_all (\<lambda>c. P (byte c))) seps" using assms(3) by (auto simp: list_all_iff)
  have w: "list_all (\<lambda>w. w \<noteq> [] \<and> list_all (\<lambda>c. \<not> P (byte c)) w) ws"
    using assms(2) by (auto simp: list_all_iff)
  have "list_all ascii (concat (map2 (@) ws seps))"
  proof -
    have "ascii c" if "(u, v) \<in> set (zip ws seps)" "c \<in> set (u @ v)" for u v c
    proof -
      have "u \<in> set ws" "v \<in> set seps" using that(1) by (auto dest: set_zip_leftD set_zip_rightD)
      with that(2) assms(2,3) show ?thesis by (auto simp: list_all_iff)
    qed
    then show ?thesis by (auto simp: list_all_iff)
  qed
  with b split_runs_spread [OF assms(1) w s assms(4)] split_runs_skip [OF b(2)] show ?thesis
    by (simp add: fields_func_def segments_ascii_append segments_ascii)
qed

section \<open>Master keys\<close>

lemma b64_char_plain: "n < 64 \<Longrightarrow> ascii (b64_char n) \<and> \<not> key_separator (byte (b64_char n))"
  by (auto simp: b64_char_def ascii_def key_separator_def byte_def)

lemma pad_plain: "ascii pad \<and> \<not> key_separator (byte pad)"
  by (simp add: pad_def ascii_def key_separator_def byte_def)

lemma b64_encode_plain: "list_all (\<lambda>c. ascii c \<and> \<not> key_separator (byte c)) (b64_encode s)"
  by (induction s rule: b64_encode.induct) (simp_all add: Let_def b64_char_plain pad_plain)

lemma b64_encode_Nil: "b64_encode s = [] \<longleftrightarrow> s = []"
  by (cases s rule: b64_encode.cases) (simp_all add: Let_def)

definition key_blanks :: "char list" where
  "key_blanks = [CHR 0x0A, CHR 0x0D, CHR '','', CHR '' '', CHR 0x09]"

lemma loadMasterKeys_spread:
  assumes "keys \<noteq> []" and "list_all (\<lambda>k. length k = 32) keys"
    and "length seps = length keys" and "[] \<notin> set (butlast seps)"
    and "set (before @ concat seps) \<subseteq> set key_blanks"
    and "key_sources os = Inr [before @ concat (map2 (@) (map b64_encode keys) seps)]"
  shows "loadMasterKeys os = Inr keys"
proof -
  have blank: "list_all (\<lambda>c. ascii c \<and> key_separator (byte c)) (before @ concat seps)"
    unfolding list_all_iff
  proof
    fix c assume "c \<in> set (before @ concat seps)"
    with assms(5) have "c \<in> set key_blanks" by blast
    then show "ascii c \<and> key_separator (byte c)"
      by (auto simp: key_blanks_def ascii_def key_separator_def byte_def)
  qed
  have words: "list_all (\<lambda>w. w \<noteq> [] \<and> list_all (\<lambda>c. ascii c \<and> \<not> key_separator (byte c)) w) (map b64_encode keys)"
    using assms(2) b64_encode_plain by (auto simp: list_all_iff b64_encode_Nil)
  have "length seps = length (map b64_encode keys)" using assms(3) by simp
  from fields_func_spread [OF this words blank assms(4)]
  have "fields_func key_separator (before @ concat (map2 (@) (map b64_encode keys) seps)) = map b64_encode keys" .
  moreover have "try_map decode_key (map b64_encode keys) = Inr keys"
    unfolding try_map_Inr using assms(2)
    by (auto simp: list_all2_conv_all_nth decode_key_def b64_roundtrip KeySize_def list_all_length)
  ultimately show ?thesis using assms(1,6) by (simp add: loadMasterKeys_def)
qed

text \<open>
  C35: Master keys are read back as they were written, and work. When the one source that is set
  holds the keys in base64, with commas and blanks in any mix, another one after every key if need
  be, before the first and after the last, the process loads exactly these keys in this order. With
  local key wrapping the first of them then wraps every new key; and as long as their ids differ,
  whatever was sealed under any one of them, by a process that had it as its current key and others
  beside it, opens again to the plaintext that was sealed.
\<close>

theorem master_keys_read_back:
  fixes engine :: "'k engine" and h :: "'k host"
  assumes "keys \<noteq> []" and "list_all (\<lambda>k. length k = 32) keys"
    and "length seps = length keys" and "[] \<notin> set (butlast seps)"
    and "set (before @ concat seps) \<subseteq> set [CHR 0x0A, CHR 0x0D, CHR '','', CHR '' '', CHR 0x09]"
    and "key_sources os = Inr [before @ concat (map2 (@) (map b64_encode keys) seps)]"
    and "getenv os ''SEALBOX_KMS'' = [] \<or> getenv os ''SEALBOX_KMS'' = ''local''"
  shows "loadMasterKeys os = Inr keys \<and> (\<exists>ws. loadWrappers C engine aws os = Inr ws
    \<and> env_current (new_envelope (hd ws) (tl ws)) = local_wrapper C (hd keys)
    \<and> (valid_keys C keys \<longrightarrow> k \<in> set keys \<longrightarrow> Seal C (local_env C k ks) p a h = (Inr s, h1) \<longrightarrow>
         Open C (new_envelope (hd ws) (tl ws)) s a h2 = (Inr p, h2)))"
proof -
  note keys = loadMasterKeys_spread [OF assms(1-4) assms(5) [folded key_blanks_def] assms(6)]
  let ?ws = "map (local_wrapper C) keys :: 'k host wrapper list"
  have "try_map (NewLocal C) keys = Inr ?ws"
    unfolding try_map_Inr using assms(2)
    by (auto simp: list_all2_conv_all_nth NewLocal_def KeySize_def list_all_length)
  then have ws: "loadWrappers C engine aws os = Inr ?ws"
    using assms(1,7) by (auto simp: loadWrappers_def keys)
  obtain k0 ks0 where k0: "keys = k0 # ks0" using assms(1) by (cases keys) auto
  then have env: "new_envelope (hd ?ws) (tl ?ws) = local_env C k0 ks0" by (simp add: local_env_def)
  have "Open C (local_env C k0 ks0) s a h2 = (Inr p, h2)"
    if v: "valid_keys C keys" and k: "k \<in> set keys" and sl: "Seal C (local_env C k ks) p a h = (Inr s, h1)"
  proof (rule local_Open_reads [OF v _ local_Seal_reads [OF v k sl]])
    have "s_key_id s = KeyID C k" using sl by (auto simp: Seal_def split: prod.splits sum.splits)
    with k show "s_key_id s \<in> KeyID C ` set (k0 # ks0)" by (auto simp: k0)
  qed (simp add: k0)
  with ws env k0 show ?thesis using keys by (intro conjI exI [of _ ?ws]) simp_all
qed

definition sample_os :: os where
  "sample_os =
     \<lparr>environ = [(''SEALBOX_MASTER_KEY_FILE'', ''/keys''), (''SEALBOX_KMS'', ''local''),
        (''SEALBOX_DATABASE_URL'', ''postgres://db''), (''SEALBOX_API_KEY'', ''0123456789abcdef''),
        (''SEALBOX_ADDR'', ''127.0.0.1:8080'')],
      read_file = (\<lambda>_. Inr (b64_encode (replicate 32 CHR ''b'') @ [CHR '','', CHR 0x0A]
        @ b64_encode (replicate 32 CHR ''a'') @ [CHR 0x0A])),
      run_program = (\<lambda>_ _. Inl (ErrMsg ''no command''))\<rparr>"

lemma sample_env:
  "getenv sample_os name =
     (case map_of [(''SEALBOX_MASTER_KEY_FILE'', ''/keys''), (''SEALBOX_KMS'', ''local''),
        (''SEALBOX_DATABASE_URL'', ''postgres://db''), (''SEALBOX_API_KEY'', ''0123456789abcdef''),
        (''SEALBOX_ADDR'', ''127.0.0.1:8080'')] name of None \<Rightarrow> [] | Some v \<Rightarrow> v)"
  by (simp add: getenv_def sample_os_def)

lemma sample_sources:
  "key_sources sample_os = Inr [[] @ concat (map2 (@) (map b64_encode [replicate 32 CHR ''b'', replicate 32 CHR ''a''])
     [[CHR '','', CHR 0x0A], [CHR 0x0A]])]"
  by (simp add: key_sources_def sample_os_def getenv_def trim_space_def trim_by_def)

lemma sample_master_keys: "loadMasterKeys sample_os = Inr [replicate 32 CHR ''b'', replicate 32 CHR ''a'']"
  by (rule loadMasterKeys_spread [OF _ _ _ _ _ sample_sources]) (simp_all add: key_blanks_def)

theorem master_keys_read_back_witness:
  "\<exists>s h1 ws. Seal sample_crypto (local_env sample_crypto (sample_key CHR ''a'') []) ''p'' ''row'' sample_host = (Inr s, h1)
     \<and> loadMasterKeys sample_os = Inr [sample_key CHR ''b'', sample_key CHR ''a'']
     \<and> loadWrappers sample_crypto (\<lambda>_ _ _ k. (No_answer ''no engine'', k)) NewAWSKMS_stub sample_os = Inr ws
     \<and> Open sample_crypto (new_envelope (hd ws) (tl ws)) s ''row'' sample_host = (Inr ''p'', sample_host)"
proof -
  obtain s and h1 :: "unit host" where s: "Seal sample_crypto (local_env sample_crypto (sample_key CHR ''a'') []) ''p'' ''row'' sample_host
      = (Inr s, h1)"
    using local_Seal_ok by blast
  have ks: "sample_keys = [replicate 32 CHR ''b'', replicate 32 CHR ''a'']"
    by (simp add: sample_keys_def sample_key_def)
  note v = sample_valid [unfolded ks]
  have kms: "getenv sample_os ''SEALBOX_KMS'' = [] \<or> getenv sample_os ''SEALBOX_KMS'' = ''local''" by (simp add: sample_env)
  from master_keys_read_back [OF _ _ _ _ _ sample_sources kms, where C = sample_crypto
      and engine = "\<lambda>_ _ _ k. (No_answer ''no engine'', k)" and aws = NewAWSKMS_stub and s = s and a = "''row''"
      and p = "''p''" and k = "sample_key CHR ''a''" and ks = "[]" and h = sample_host and ?h1.0 = h1 and ?h2.0 = sample_host]
    v s show ?thesis by (auto simp: sample_key_def)
qed

section \<open>Starting to serve\<close>

lemma Load_sound: "Load pick rf path = Inr sc \<Longrightarrow> maps_ok sc \<and> schema_ok sc"
  using Parse_schema_ok [of pick _ sc]
  by (auto simp: Load_def maps_ok_def schema_ok_def split: if_splits sum.splits)

lemma main_plan_serve:
  assumes "main_plan C engine aws pick os args = Inr (env, p)" and "p_task p = Serve s"
  shows "plan_serve pick os = Inr s \<and> p_database p \<noteq> []"
  using assms by (auto simp: main_plan_def Let_def split: sum.splits list.splits if_splits)

text \<open>
  C34: A process that starts to serve starts guarded. It has a database, at least one client, clients
  that passed validation and a schema that passed its checks. It speaks plaintext only on the
  loopback interface, or when the operator stated that something else terminates TLS, and never
  when client certificates are asked for: with a CA bundle configured it listens under TLS and
  requires certificates from that bundle, which holds some.
\<close>

theorem start_is_guarded:
  assumes "main_plan C engine aws pick os args = Inr (env, p)" and "p_task p = Serve s"
    and "listen certificates os s = Inr l"
  shows "(case l of
        Plain_http addr \<Rightarrow> (isLoopback addr \<or> getenv os ''SEALBOX_INSECURE_HTTP'' = ''1'')
          \<and> getenv os ''SEALBOX_TLS_CLIENT_CA'' = []
      | Tls13 addr cert ca \<Rightarrow> fst cert \<noteq> [] \<and> snd cert \<noteq> []
          \<and> (case ca of None \<Rightarrow> getenv os ''SEALBOX_TLS_CLIENT_CA'' = []
             | Some pool \<Rightarrow> certificates pool \<and> read_file os (getenv os ''SEALBOX_TLS_CLIENT_CA'') = Inr pool))
    \<and> p_database p \<noteq> [] \<and> p_clients s \<noteq> [] \<and> ValidateClients (p_clients s) = Inr ()
    \<and> maps_ok (p_schema s) \<and> schema_ok (p_schema s)"
proof -
  from main_plan_serve [OF assms(1,2)] have s: "plan_serve pick os = Inr s" and d: "p_database p \<noteq> []" by simp_all
  from s obtain clients sc where c: "start_clients pick os = Inr clients"
    and ld: "Load pick (read_file os) (getenv os ''SEALBOX_SCHEMA'') = Inr sc"
    and f: "p_clients s = clients" "p_schema s = sc"
    by (auto simp: plan_serve_def Let_def split: sum.splits if_splits)
  from c have "clients \<noteq> [] \<and> ValidateClients clients = Inr ()"
    by (auto simp: start_clients_def Let_def split: sum.splits if_splits)
  moreover have "p_client_ca s = getenv os ''SEALBOX_TLS_CLIENT_CA''"
    and "p_tls s = None \<Longrightarrow> (isLoopback (p_addr s) \<or> getenv os ''SEALBOX_INSECURE_HTTP'' = ''1'') \<and> p_client_ca s = []"
    and "\<And>cert. p_tls s = Some cert \<Longrightarrow> fst cert \<noteq> [] \<and> snd cert \<noteq> []"
    using s by (auto simp: plan_serve_def Let_def split: sum.splits if_splits)
  then have "(case l of
        Plain_http addr \<Rightarrow> (isLoopback addr \<or> getenv os ''SEALBOX_INSECURE_HTTP'' = ''1'')
          \<and> getenv os ''SEALBOX_TLS_CLIENT_CA'' = []
      | Tls13 addr cert ca \<Rightarrow> fst cert \<noteq> [] \<and> snd cert \<noteq> []
          \<and> (case ca of None \<Rightarrow> getenv os ''SEALBOX_TLS_CLIENT_CA'' = []
             | Some pool \<Rightarrow> certificates pool \<and> read_file os (getenv os ''SEALBOX_TLS_CLIENT_CA'') = Inr pool))"
    using assms(3) by (auto simp: listen_def loadCA_def split: option.splits sum.splits if_splits)
  ultimately show ?thesis using d f Load_sound [OF ld] by simp
qed

lemma sample_clients_start:
  "start_clients (\<lambda>ks. ks) sample_os
   = Inr [\<lparr>c_name = ''default'', c_key = ''0123456789abcdef'', c_roles = AllRoles, c_reveal_per_second = 0\<rparr>]"
  by code_simp

lemma sample_start:
  "\<exists>env p s. main_plan C engine aws (\<lambda>ks. ks) sample_os [] = Inr (env, p) \<and> p_task p = Serve s
     \<and> p_tls s = None"
proof -
  have "\<exists>ws. loadWrappers C engine aws sample_os = Inr ws"
    by (simp add: loadWrappers_def NewLocal_def KeySize_def sample_env sample_master_keys)
  moreover have "isLoopback ''127.0.0.1:8080''" by code_simp
  then have "\<exists>s. plan_serve (\<lambda>ks. ks) sample_os = Inr s \<and> p_tls s = None"
    by (simp add: plan_serve_def sample_clients_start Load_def sample_env)
  ultimately show ?thesis
    by (auto simp: main_plan_def migrate_setting_def sample_env)
qed

definition no_engine :: "unit engine" where
  "no_engine = (\<lambda>_ _ _ k. (No_answer ''no engine'', k))"

theorem start_is_guarded_witness:
  "\<exists>env p s l. main_plan sample_crypto no_engine NewAWSKMS_stub (\<lambda>ks. ks) sample_os [] = Inr (env, p) \<and> p_task p = Serve s
     \<and> listen (\<lambda>_. True) sample_os s = Inr l \<and> ValidateClients (p_clients s) = Inr ()"
proof -
  obtain env p s where plan: "main_plan sample_crypto no_engine NewAWSKMS_stub (\<lambda>ks. ks) sample_os [] = Inr (env, p)"
    and s: "p_task p = Serve s" and "p_tls s = None"
    using sample_start [of sample_crypto no_engine NewAWSKMS_stub] by blast
  then have l: "listen (\<lambda>_. True) sample_os s = Inr (Plain_http (p_addr s))" by (simp add: listen_def)
  from start_is_guarded [OF plan s l] plan s l show ?thesis by blast
qed

section \<open>The key command's environment\<close>

text \<open>
  The command runs without sealbox's variables, except when this process has no others: then the
  filtered list is nil, and the command inherits everything.
\<close>

lemma command_env_hides:
  "\<exists>kv \<in> set env. \<not> own_variable (fst kv) \<Longrightarrow> list_all (\<lambda>kv. \<not> own_variable (fst kv)) (command_env env)"
  by (auto simp: command_env_def Let_def list_all_iff filter_empty_conv)

lemma command_env_inherits:
  "list_all (\<lambda>kv. own_variable (fst kv)) env \<Longrightarrow> command_env env = env"
  by (auto simp: command_env_def Let_def list_all_iff filter_empty_conv)

lemma command_env_leak:
  "command_env [(''SEALBOX_MASTER_KEY_COMMAND'', ''/bin/key''), (''SEALBOX_TRANSIT_TOKEN'', ''s.secret'')]
     = [(''SEALBOX_MASTER_KEY_COMMAND'', ''/bin/key''), (''SEALBOX_TRANSIT_TOKEN'', ''s.secret'')]"
  by code_simp

end
