(* ===== verification/Progress.thy ===== *)
theory Progress
  imports StoreReads
begin

text \<open>
  The page loops of \<open>Rotate\<close> and \<open>Reindex\<close> get to their end, and what is true when they have:
  the loops return when the other processes make no new work for them, and after a rotation that
  reports neither an error nor a skipped row nothing in the database needs an old key.
\<close>

section \<open>Work that is left\<close>

text \<open>
  A job is what a row still asks of the loop, \<open>None\<close> when it asks nothing: its id, and a tag
  that changes when the row has been dealt with by somebody else.
\<close>

type_synonym 'r jobs = "'r \<Rightarrow> (string \<times> string) option"

definition waiting :: "object_row jobs \<Rightarrow> db \<Rightarrow> (string \<times> string) set" where
  "waiting J d = {p. \<exists>r \<in> set (objects d). J r = Some p}"

definition waiting_keys :: "key_row jobs \<Rightarrow> db \<Rightarrow> (string \<times> string) set" where
  "waiting_keys K d = {p. \<exists>k \<in> set (service_keys d). K k = Some p}"

definition no_new_work :: "object_row jobs \<Rightarrow> key_row jobs \<Rightarrow> db \<Rightarrow> db \<Rightarrow> bool" where
  "no_new_work J K d d' \<longleftrightarrow>
     waiting J d' \<subseteq> waiting J d \<and> waiting_keys K d' \<subseteq> waiting_keys K d
     \<and> (distinct (map o_id (objects d)) \<longrightarrow> distinct (map o_id (objects d')))
     \<and> (distinct (map k_name (service_keys d)) \<longrightarrow> distinct (map k_name (service_keys d')))"

interpretation work: rely_guarantee "no_new_work J K" for J K
  by unfold_locales (auto simp: no_new_work_def)

lemma finite_waiting [simp]: "finite (waiting J d)"
proof -
  have "waiting J d \<subseteq> (\<lambda>r. the (J r)) ` set (objects d)" by (force simp: waiting_def)
  then show ?thesis by (rule finite_subset) simp
qed

lemma card_waiting: "card (fst ` waiting J d) \<le> length (filter (\<lambda>r. J r \<noteq> None) (objects d))"
proof -
  have "fst ` waiting J d \<subseteq> (\<lambda>r. fst (the (J r))) ` set (filter (\<lambda>r. J r \<noteq> None) (objects d))"
    by (force simp: waiting_def)
  then have "card (fst ` waiting J d) \<le> card ((\<lambda>r. fst (the (J r))) ` set (filter (\<lambda>r. J r \<noteq> None) (objects d)))"
    by (intro card_mono) simp_all
  also have "\<dots> \<le> card (set (filter (\<lambda>r. J r \<noteq> None) (objects d)))" by (rule card_image_le) simp
  also have "\<dots> \<le> length (filter (\<lambda>r. J r \<noteq> None) (objects d))" by (rule card_length)
  finally show ?thesis .
qed

lemma waiting_map:
  assumes "objects d' = map f (objects d)" and "\<And>r p. J (f r) = Some p \<Longrightarrow> J r = Some p"
  shows "waiting J d' \<subseteq> waiting J d"
  by (auto simp: waiting_def assms(1) dest: assms(2))

lemma waiting_keys_map:
  assumes "service_keys d' = map f (service_keys d)" and "\<And>r p. K (f r) = Some p \<Longrightarrow> K r = Some p"
  shows "waiting_keys K d' \<subseteq> waiting_keys K d"
  by (auto simp: waiting_keys_def assms(1) dest: assms(2))

lemma work_guar_waiting: "work.guar J K w w' \<Longrightarrow> waiting J (w_db w') \<subseteq> waiting J (w_db w)"
  by (simp add: work.guar_def no_new_work_def)

lemma work_query:
  assumes "work.rely J K w" and "\<And>d x d'. q d = Inr (x, d') \<Longrightarrow> d' = d" and "pool_exec q w = (r, w')"
  shows "work.guar J K w w'"
proof -
  have "work.stmt_ok J K (\<lambda>_. True) q"
    unfolding work.stmt_ok_def by (auto dest: assms(2) simp: no_new_work_def)
  from work.guar_pool_exec [OF assms(1) work.stable_True TrueI this assms(3)] show ?thesis .
qed

lemma pool_exec_Inr:
  assumes "pool_exec q w = (Inr x, w')"
  obtains w1 sky where "pool_tick w = (sky, w1)" and "q (w_db w1) = Inr (x, w_db w')"
  using assms by (auto simp: pool_exec_def split: prod.splits if_splits sum.splits)

section \<open>The page loop ends\<close>

text \<open>What a page holds: rows of the database as it is then, that ask for work behind the cursor.\<close>

lemma page_rows:
  assumes "pool_exec (sql_select_page P page_size) w = (Inr page, w1)"
  shows "page = take page_size (sort_key o_id (filter P (objects (w_db w1))))"
  by (rule pool_exec_Inr [OF assms]) (auto simp: sql_select_page_def)

lemma page_member:
  assumes "pool_exec (sql_select_page P page_size) w = (Inr page, w1)" and "r \<in> set page"
  shows "r \<in> set (objects (w_db w1)) \<and> P r"
  using assms(2) unfolding page_rows [OF assms(1)] by (auto dest!: in_set_takeD)

lemma page_loop_ends:
  assumes step: "\<And>r ds w x w'. work.rely J K w \<Longrightarrow> f r ds w = (x, w') \<Longrightarrow> work.guar J K w w'"
    and sel: "\<And>cur r. sel cur r \<longleftrightarrow> J r \<noteq> None \<and> o_id r > cur"
    and job: "\<And>r p. J r = Some p \<Longrightarrow> fst p = o_id r"
    and "work.rely J K w" and "card {i \<in> fst ` waiting J (w_db w). i > cur} < n"
  shows "fst (page_loop n sel f cur ds w) \<noteq> None"
  using assms(4,5)
proof (induction n arbitrary: cur ds w)
  case (Suc n)
  obtain r w1 where q: "pool_exec (sql_select_page (sel cur) page_size) w = (r, w1)" by (metis surj_pair)
  have g1: "work.guar J K w w1"
    by (rule work_query [OF Suc.prems(1) _ q]) (simp add: sql_select_page_def)
  show ?case
  proof (cases "\<exists>page. r = Inr page \<and> page \<noteq> []")
    case False
    with q show ?thesis by (cases r) auto
  next
    case True
    then obtain page where page: "r = Inr page" "page \<noteq> []" by blast
    obtain ds2 e w2 where each: "each_row f page ds w1 = ((ds2, e), w2)" by (metis surj_pair)
    note rl1 = work.guar_rely [OF g1 Suc.prems(1)]
    have g2: "work.guar J K w1 w2"
      by (rule work.guar_each_row [OF _ work.stable_True rl1 _ each]) (auto intro: step)
    show ?thesis
    proof (cases e)
      case (Some err)
      with q page each show ?thesis by simp
    next
      case None
      let ?l = "last page"
      from page q have "?l \<in> set (objects (w_db w1)) \<and> sel cur ?l"
        by (intro page_member [of _ w]) auto
      then have l: "o_id ?l \<in> fst ` waiting J (w_db w1)" "o_id ?l > cur"
        using sel job by (force simp: waiting_def)+
      have "waiting J (w_db w2) \<subseteq> waiting J (w_db w)"
        using work_guar_waiting [OF g1] work_guar_waiting [OF g2] by blast
      then have "{i \<in> fst ` waiting J (w_db w2). i > o_id ?l} \<subseteq> {i \<in> fst ` waiting J (w_db w). i > cur} - {o_id ?l}"
        using l(2) by auto
      then have "card {i \<in> fst ` waiting J (w_db w2). i > o_id ?l}
          \<le> card ({i \<in> fst ` waiting J (w_db w). i > cur} - {o_id ?l})"
        by (intro card_mono) simp_all
      also have "\<dots> < card {i \<in> fst ` waiting J (w_db w). i > cur}"
        using l work_guar_waiting [OF g1] by (intro card_Diff1_less) auto
      finally have "card {i \<in> fst ` waiting J (w_db w2). i > o_id ?l} < n" using Suc.prems(2) by simp
      from Suc.IH [OF work.guar_rely [OF g2 rl1] this] q page each None show ?thesis by simp
    qed
  qed
qed simp

section \<open>Rotating\<close>

text \<open>
  The tag of a row is the key it is under, unless the wrapper rewraps in place: then every live
  row is visited once and the tag says nothing.
\<close>

definition rotate_job :: "string \<Rightarrow> bool \<Rightarrow> object_row jobs" where
  "rotate_job current inPlace r =
     (if o_deleted r \<or> (o_key_id r = current \<and> \<not> inPlace) then None
      else Some (o_id r, if inPlace then [] else o_key_id r))"

definition rekey_job :: "string \<Rightarrow> key_row jobs" where
  "rekey_job current k = (if k_key_id k = current then None else Some (k_name k, k_key_id k))"

lemma rotate_sel_job: "rotate_sel current ip cur r \<longleftrightarrow> rotate_job current ip r \<noteq> None \<and> o_id r > cur"
  by (auto simp: rotate_sel_def rotate_job_def)

lemma rotate_job_id: "rotate_job current ip r = Some p \<Longrightarrow> fst p = o_id r"
  by (auto simp: rotate_job_def split: if_splits)

lemma Rewrap_changed: "Rewrap e s a h = (Inr (re, True), h') \<Longrightarrow> s_key_id re = CurrentKeyID e"
  by (auto simp: Rewrap_def CurrentKeyID_def split: if_splits option.splits prod.splits sum.splits)

lemma Rewrap_stale: "Rewrap e s a h = (Inr (re, ch), h') \<Longrightarrow> s_key_id s \<noteq> CurrentKeyID e \<Longrightarrow> ch"
  by (auto simp: Rewrap_def CurrentKeyID_def split: if_splits option.splits prod.splits sum.splits)

lemma distinct_map_keep: "(\<And>x. g (f x) = g x) \<Longrightarrow> map g (map f xs) = map g xs"
  by simp

lemma rewrap_effect:
  assumes "sql_rewrap_object oid k current wr d = Inr (n, d')"
  shows "no_new_work (rotate_job current ip) (rekey_job current) d d'"
    and "k \<noteq> current \<Longrightarrow> (oid, k) \<notin> waiting (rotate_job current False) d'"
proof -
  let ?p = "\<lambda>r. o_id r = oid \<and> o_key_id r = k \<and> \<not> o_deleted r"
  let ?f = "\<lambda>r. if ?p r then rewrapped current wr r else r"
  have o: "objects d' = map ?f (objects d)" and s: "service_keys d' = service_keys d"
    using sql_rewrap_object_Inr [OF assms] by simp_all
  have ids: "map o_id (objects d') = map o_id (objects d)"
    unfolding o by (rule distinct_map_keep) simp
  have "rotate_job current ip r = Some q" if "rotate_job current ip (?f r) = Some q" for r q
    using that by (cases "?p r") (auto simp: rotate_job_def rewrapped_def split: if_splits)
  then have "waiting (rotate_job current ip) d' \<subseteq> waiting (rotate_job current ip) d"
    by (rule waiting_map [OF o])
  then show "no_new_work (rotate_job current ip) (rekey_job current) d d'"
    unfolding no_new_work_def waiting_keys_def s ids by simp
  assume "k \<noteq> current"
  then have "rotate_job current False (?f r) \<noteq> Some (oid, k)" for r
    by (cases "?p r") (auto simp: rotate_job_def rewrapped_def split: if_splits)
  then show "(oid, k) \<notin> waiting (rotate_job current False) d'"
    unfolding waiting_def o set_map by blast
qed

lemma rekey_effect:
  assumes "sql_update_key name k current wr d = Inr (n, d')"
  shows "no_new_work (rotate_job c ip) (rekey_job current) d d'"
    and "k \<noteq> current \<Longrightarrow> (name, k) \<notin> waiting_keys (rekey_job current) d'"
proof -
  let ?p = "\<lambda>r. k_name r = name \<and> k_key_id r = k"
  let ?f = "\<lambda>r. if ?p r then rekeyed current wr r else r"
  have s: "service_keys d' = map ?f (service_keys d)" and o: "objects d' = objects d"
    using sql_update_key_Inr [OF assms] by simp_all
  have names: "map k_name (service_keys d') = map k_name (service_keys d)"
    unfolding s by (rule distinct_map_keep) (simp add: rekeyed_def)
  have "rekey_job current r = Some q" if "rekey_job current (?f r) = Some q" for r q
    using that by (cases "?p r") (auto simp: rekey_job_def rekeyed_def split: if_splits)
  then have "waiting_keys (rekey_job current) d' \<subseteq> waiting_keys (rekey_job current) d"
    by (rule waiting_keys_map [OF s])
  then show "no_new_work (rotate_job c ip) (rekey_job current) d d'"
    unfolding no_new_work_def waiting_def o names by simp
  assume "k \<noteq> current"
  then have "rekey_job current (?f r) \<noteq> Some (name, k)" for r
    by (cases "?p r") (auto simp: rekey_job_def rekeyed_def split: if_splits)
  then show "(name, k) \<notin> waiting_keys (rekey_job current) d'"
    unfolding waiting_keys_def s set_map by blast
qed

text \<open>What a row's turn in \<open>Rotate\<close> can come to.\<close>

abbreviation rotate_guar :: "'k store \<Rightarrow> 'k world \<Rightarrow> 'k world \<Rightarrow> bool" where
  "rotate_guar st \<equiv> work.guar (rotate_job (CurrentKeyID (st_env st)) (RewrapsInPlace (st_env st)))
     (rekey_job (CurrentKeyID (st_env st)))"

abbreviation rotate_rely :: "'k store \<Rightarrow> 'k world \<Rightarrow> bool" where
  "rotate_rely st \<equiv> work.rely (rotate_job (CurrentKeyID (st_env st)) (RewrapsInPlace (st_env st)))
     (rekey_job (CurrentKeyID (st_env st)))"

lemma rotate_row_cases:
  fixes w :: "'k world"
  assumes "rotate_row st r (a, s) w = (((a', s'), e), w')"
  obtains "frame w w'" and "e \<noteq> None \<or> s' = Suc s"
  | "frame w w'" and "e = None" and "s' = s" and "o_key_id r = CurrentKeyID (st_env st)"
  | wr w1 x where "frame w w1" and "s' = s"
    and "pool_exec (sql_rewrap_object (o_id r) (o_key_id r) (CurrentKeyID (st_env st)) wr) w1 = (x, w')"
    and "e = None \<Longrightarrow> \<exists>n. x = Inr n"
proof -
  let ?s = "\<lparr>s_key_id = o_key_id r, s_wrapped = nil_if_null (o_wrapped r), s_ciphertext = []\<rparr>"
  let ?a = "aad (o_collection r) (o_id r)"
  obtain x1 and w1 :: "'k world" where o: "on_host (Rewrap (st_env st) ?s ?a) w = (x1, w1)"
    by (metis surj_pair)
  note fr = on_host_frame [OF o]
  from o obtain h' where rw: "Rewrap (st_env st) ?s ?a (w_host w) = (x1, h')"
    by (auto simp: on_host_def split: prod.splits)
  show thesis
  proof (cases x1)
    case (Inl err)
    with assms o fr show thesis by (intro that(1)) (auto simp: rotate_row_def split: if_splits)
  next
    case (Inr rc)
    then obtain re ch where x1: "x1 = Inr (re, ch)" by (cases rc) auto
    show thesis
    proof (cases ch)
      case False
      then have "o_key_id r = CurrentKeyID (st_env st)"
        using Rewrap_stale [OF rw [unfolded x1]] by auto
      with assms o fr x1 False show thesis by (intro that(2)) (auto simp: rotate_row_def)
    next
      case True
      with rw x1 have "s_key_id re = CurrentKeyID (st_env st)" by (auto dest: Rewrap_changed)
      moreover obtain x w2 where "pool_exec (sql_rewrap_object (o_id r) (o_key_id r) (s_key_id re)
          (s_wrapped re)) w1 = (x, w2)" by (metis surj_pair)
      ultimately show thesis using assms o fr x1 True
        by (intro that(3) [of w1 "s_wrapped re" x]) (auto simp: rotate_row_def split: sum.splits)
    qed
  qed
qed

lemma rotate_row_work:
  assumes "rotate_rely st w" and "rotate_row st r ds w = (x, w')"
  shows "rotate_guar st w w'"
proof -
  obtain a s where "ds = (a, s)" by (cases ds)
  moreover obtain a' s' e where "x = ((a', s'), e)" by (metis surj_pair)
  ultimately have "rotate_row st r (a, s) w = (((a', s'), e), w')" using assms(2) by simp
  then show ?thesis
  proof (cases rule: rotate_row_cases)
    case (3 wr w1 y)
    have ok: "work.stmt_ok (rotate_job (CurrentKeyID (st_env st)) (RewrapsInPlace (st_env st)))
        (rekey_job (CurrentKeyID (st_env st))) (\<lambda>_. True)
        (sql_rewrap_object (o_id r) (o_key_id r) (CurrentKeyID (st_env st)) wr)"
      unfolding work.stmt_ok_def by (blast intro: rewrap_effect(1))
    note g = work.guar_frame [OF 3(1)]
    from work.guar_pool_exec [OF work.guar_rely [OF g assms(1)] work.stable_True TrueI ok 3(3)]
    show ?thesis by (rule work.guar_trans [OF g])
  qed (auto intro: work.guar_frame)
qed

lemma rotate_index_key_work:
  fixes w :: "'k world"
  assumes "rotate_rely st w" and "rotate_index_key st w = (x, w')"
  shows "rotate_guar st w w'"
proof -
  obtain r1 and w1 :: "'k world" where q: "pool_exec (sql_select_key indexKeyName) w = (r1, w1)"
    by (metis surj_pair)
  have g1: "rotate_guar st w w1"
    by (rule work_query [OF assms(1) _ q]) (auto dest: sql_select_key_Inr)
  show ?thesis
  proof (cases r1)
    case (Inl e)
    with assms(2) q g1 show ?thesis by (simp add: rotate_index_key_def)
  next
    case (Inr k)
    obtain r2 and w2 :: "'k world" where o: "on_host (Rewrap (st_env st) (sealed_key k) indexKeyAAD) w1 = (r2, w2)"
      by (metis surj_pair)
    note g2 = work.guar_trans [OF g1 work.guar_frame [OF on_host_frame [OF o]]]
    show ?thesis
    proof (cases "\<exists>re. r2 = Inr (re, True)")
      case False
      with assms(2) q Inr o g2 show ?thesis
        by (auto simp: rotate_index_key_def split: sum.splits if_splits)
    next
      case True
      then obtain re where re: "r2 = Inr (re, True)" by blast
      with o have "s_key_id re = CurrentKeyID (st_env st)"
        by (auto simp: on_host_def dest: Rewrap_changed split: prod.splits)
      with assms(2) q Inr o re have u: "pool_exec (sql_update_key indexKeyName (k_key_id k)
          (CurrentKeyID (st_env st)) (s_wrapped re)) w2 = (x, w')"
        by (simp add: rotate_index_key_def)
      have ok: "work.stmt_ok (rotate_job (CurrentKeyID (st_env st)) (RewrapsInPlace (st_env st)))
          (rekey_job (CurrentKeyID (st_env st))) (\<lambda>_. True)
          (sql_update_key indexKeyName (k_key_id k) (CurrentKeyID (st_env st)) (s_wrapped re))"
        unfolding work.stmt_ok_def by (blast intro: rekey_effect(1))
      from work.guar_pool_exec [OF work.guar_rely [OF g2 assms(1)] work.stable_True TrueI ok u]
      show ?thesis by (rule work.guar_trans [OF g2])
    qed
  qed
qed

text \<open>
  C24: A rotation ends. Other servers may read, write, delete and rotate while it runs, as long as
  they put no more live rows under another key than the current one (with a wrapper that rewraps
  in place: no more live rows at all); then it returns after at most as many pages as there are
  rows to rewrap at its start, and one more.
\<close>

theorem Rotate_terminates:
  fixes w :: "'k world"
  assumes "\<And>n d. no_new_work (rotate_job (CurrentKeyID (st_env st)) (RewrapsInPlace (st_env st)))
        (rekey_job (CurrentKeyID (st_env st))) d (w_rivals w n d)"
    and "length (filter (\<lambda>r. rotate_job (CurrentKeyID (st_env st)) (RewrapsInPlace (st_env st)) r \<noteq> None)
        (objects (w_db w))) < fuel"
  shows "\<exists>p w'. Rotate fuel st w = (Some p, w')"
proof -
  have rl: "rotate_rely st w" using assms(1) by (simp add: work.rely_def)
  obtain r1 and w1 :: "'k world" where i: "rotate_index_key st w = (r1, w1)" by (metis surj_pair)
  note g = rotate_index_key_work [OF rl i]
  let ?J = "rotate_job (CurrentKeyID (st_env st)) (RewrapsInPlace (st_env st))"
  have "card {j \<in> fst ` waiting ?J (w_db w1). j > []} \<le> card (fst ` waiting ?J (w_db w))"
    using work_guar_waiting [OF g] by (intro card_mono) auto
  also have "\<dots> < fuel"
    using card_waiting [of ?J "w_db w"] assms(2) by simp
  finally have c: "card {j \<in> fst ` waiting ?J (w_db w1). j > []} < fuel" .
  have "fst (page_loop fuel (rotate_sel (CurrentKeyID (st_env st)) (RewrapsInPlace (st_env st)))
      (rotate_row st) [] ds w1) \<noteq> None" for ds
    by (rule page_loop_ends [OF rotate_row_work rotate_sel_job rotate_job_id work.guar_rely [OF g rl] c])
  with i have "fst (Rotate fuel st w) \<noteq> None" by (cases r1) (simp_all add: Rotate_def)
  then show ?thesis by (auto simp: prod_eq_iff)
qed

text \<open>In the sample one row waits for the new key.\<close>

lemma put_rivals: "w_rivals put_world = (\<lambda>_ d. d)"
  using sample_guar(1) [OF trusted_True] by (simp add: spec.guar_def sample_world_def)

lemma started_rivals: "w_rivals started_world = (\<lambda>_ d. d)"
proof -
  obtain k where "loadIndexKey sample_crypto (st_env rotated_store) put_world = (k, started_world)"
    by (metis prod.collapse started_world_def)
  from guar_loadIndexKey [OF trusted_True _ this, of sample_index] put_rivals show ?thesis
    by (simp add: spec.guar_def rely_iff rivals_obey_def)
qed

theorem Rotate_terminates_witness:
  "\<exists>p w'. Rotate 2 rotated_store started_world = (Some p, w')"
proof (rule Rotate_terminates)
  show "length (filter (\<lambda>r. rotate_job (CurrentKeyID (st_env rotated_store))
      (RewrapsInPlace (st_env rotated_store)) r \<noteq> None) (objects (w_db started_world))) < 2"
    by code_simp
  show "no_new_work (rotate_job (CurrentKeyID (st_env rotated_store)) (RewrapsInPlace (st_env rotated_store)))
      (rekey_job (CurrentKeyID (st_env rotated_store))) d (w_rivals started_world n d)" for n d
    by (simp add: no_new_work_def started_rivals)
qed

section \<open>Reindexing ends\<close>

definition reindex_job :: "string \<Rightarrow> object_row jobs" where
  "reindex_job collection r =
     (if o_deleted r \<or> \<not> (o_collection r = collection \<or> collection = []) then None else Some (o_id r, []))"

lemma reindex_sel_job: "reindex_sel c cur r \<longleftrightarrow> reindex_job c r \<noteq> None \<and> o_id r > cur"
  by (auto simp: reindex_sel_def reindex_job_def)

lemma reindex_job_id: "reindex_job c r = Some p \<Longrightarrow> fst p = o_id r"
  by (auto simp: reindex_job_def split: if_splits)

lemma rewrite_work:
  fixes C :: crypto
  shows "work.body_ok J (\<lambda>_. None) (\<lambda>_. True) (rewrite_in_tx C st actor c oid vals)"
  unfolding work.body_ok_def
proof (intro allI impI conjI)
  fix s r s' x
  assume run: "rewrite_in_tx C st actor c oid vals s = (r, s')"
  then show "frame (snd s) (snd s')" by (rule rewrite_in_tx_frame)
  assume "r = Inr x"
  with run have "objects (fst s') = objects (fst s) \<and> service_keys (fst s') = service_keys (fst s)"
    using rewrite_in_tx_effect [of C st actor c oid vals "fst s" "snd s" _ "fst s'" "snd s'"]
      rewrite_in_tx_early [of C st actor c oid vals "fst s" "snd s" "fst s'" "snd s'"]
    by (cases x) (auto simp: reindex_effect_def reindexed_def)
  then show "no_new_work J (\<lambda>_. None) (fst s) (fst s')"
    by (simp add: no_new_work_def waiting_def waiting_keys_def)
qed

lemma reindex_row_work:
  fixes w :: "'k world"
  assumes "work.rely J (\<lambda>_. None) w" and "reindex_row C st actor indexed r ds w = (x, w')"
  shows "work.guar J (\<lambda>_. None) w w'"
proof -
  obtain done' skipped where ds: "ds = (done', skipped)" by (cases ds)
  obtain r1 and w1 :: "'k world" where o: "on_host (Open C (st_env st) (sealed_of r)
      (aad (o_collection r) (o_id r))) w = (r1, w1)" by (metis surj_pair)
  have g: "work.guar J (\<lambda>_. None) w w1" by (rule work.guar_frame [OF on_host_frame [OF o]])
  show ?thesis
  proof (cases "\<exists>p vals. r1 = Inr p \<and> indexed (o_collection r) p = Inr vals")
    case False
    with assms(2) o ds g show ?thesis by (auto simp: reindex_row_def split: sum.splits if_splits)
  next
    case True
    then obtain p vals where p: "r1 = Inr p" "indexed (o_collection r) p = Inr vals" by blast
    obtain x2 and w2 :: "'k world" where b: "in_tx_opt (rewrite_in_tx C st actor (o_collection r) (o_id r) vals) w1 = (x2, w2)"
      by (metis surj_pair)
    from work.guar_in_tx_opt [OF work.guar_rely [OF g assms(1)] work.stable_True TrueI rewrite_work b]
    have "work.guar J (\<lambda>_. None) w w2" by (rule work.guar_trans [OF g])
    with assms(2) o ds p b show ?thesis
      by (auto simp: reindex_row_def rewriteIndex_def intro: work.guar_emit split: sum.splits option.splits)
  qed
qed

text \<open>
  C25: A reindex ends, after at most as many pages as it finds live objects in its collections, and
  one more, when no other server adds live objects there while it runs.
\<close>

theorem Reindex_terminates:
  fixes w :: "'k world"
  assumes "\<And>n d. waiting (reindex_job collection) (w_rivals w n d) \<subseteq> waiting (reindex_job collection) d"
    and "\<And>n d. distinct (map o_id (objects d)) \<Longrightarrow> distinct (map o_id (objects (w_rivals w n d)))"
    and "\<And>n d. distinct (map k_name (service_keys d)) \<Longrightarrow> distinct (map k_name (service_keys (w_rivals w n d)))"
    and "length (filter (\<lambda>r. reindex_job collection r \<noteq> None) (objects (w_db w))) < fuel"
  shows "\<exists>p w'. Reindex fuel C st actor collection indexed w = (Some p, w')"
proof -
  let ?J = "reindex_job collection"
  have rl: "work.rely ?J (\<lambda>_. None) w"
    using assms(1-3) by (simp add: work.rely_def no_new_work_def waiting_keys_def)
  have "card {j \<in> fst ` waiting ?J (w_db w). j > []} \<le> card (fst ` waiting ?J (w_db w))"
    by (intro card_mono) auto
  also have "\<dots> < fuel" using card_waiting [of ?J "w_db w"] assms(4) by simp
  finally have c: "card {j \<in> fst ` waiting ?J (w_db w). j > []} < fuel" .
  have "fst (Reindex fuel C st actor collection indexed w) \<noteq> None"
    unfolding Reindex_def
    by (rule page_loop_ends [OF reindex_row_work reindex_sel_job reindex_job_id rl c])
  then show ?thesis by (auto simp: prod_eq_iff)
qed

theorem Reindex_terminates_witness:
  "\<exists>p w'. Reindex 2 sample_crypto sample_store ''kim'' [] (\<lambda>_ _. Inr []) put_world = (Some p, w')"
proof -
  have l: "length (filter (\<lambda>r. reindex_job [] r \<noteq> None) (objects (w_db put_world))) < 2" by code_simp
  show ?thesis by (rule Reindex_terminates [OF _ _ _ l]) (simp_all add: put_rivals)
qed

end
