(* ===== verification/Retire.thy ===== *)
theory Retire
  imports Progress
begin

text \<open>
  Retiring a master key. A rotation that reports no error and no skipped row leaves no live row
  and no service key under another key than the current one, although other servers worked on
  the database meanwhile; so everything in the database opens with the current key alone. And
  servers that start at the same time agree on the blind-index key.
\<close>

section \<open>A clean run leaves nothing waiting\<close>

lemma rotate_row_skips: "rotate_row st r (a, s) w = (((a', s'), e), w') \<Longrightarrow> s \<le> s'"
  by (auto simp: rotate_row_def split: prod.splits sum.splits if_splits)

lemma each_row_skips:
  "each_row (rotate_row st) rows (a, s) w = (((a', s'), e), w') \<Longrightarrow> s \<le> s'"
proof (induction rows arbitrary: a s w)
  case (Cons r rows)
  obtain a1 s1 e1 w1 where 1: "rotate_row st r (a, s) w = (((a1, s1), e1), w1)" by (metis surj_pair)
  with Cons.prems Cons.IH [of a1 s1 w1] rotate_row_skips [OF 1] show ?case
    by (cases e1) auto
qed simp

lemma page_loop_skips:
  "page_loop n sel (rotate_row st) cur (a, s) w = (Some ((a', s'), e), w') \<Longrightarrow> s \<le> s'"
proof (induction n arbitrary: cur a s w)
  case (Suc n)
  obtain r w1 where q: "pool_exec (sql_select_page (sel cur) page_size) w = (r, w1)" by (metis surj_pair)
  show ?case
  proof (cases "\<exists>page. r = Inr page \<and> page \<noteq> []")
    case False
    with q Suc.prems show ?thesis by (cases r) auto
  next
    case True
    then obtain page where page: "r = Inr page" "page \<noteq> []" by blast
    obtain a2 s2 e2 w2 where each: "each_row (rotate_row st) page (a, s) w1 = (((a2, s2), e2), w2)"
      by (metis surj_pair)
    from q page each Suc.prems Suc.IH [of "o_id (last page)" a2 s2 w2] each_row_skips [OF each]
    show ?thesis by (cases e2) auto
  qed
qed simp

text \<open>A row that was neither skipped nor an error no longer waits under the key it was read with.\<close>

lemma rotate_row_clean:
  fixes w :: "'k world"
  assumes "\<not> RewrapsInPlace (st_env st)" and "o_key_id r \<noteq> CurrentKeyID (st_env st)"
    and "rotate_row st r (a, s) w = (((a', s), None), w')"
  shows "(o_id r, o_key_id r) \<notin> waiting (rotate_job (CurrentKeyID (st_env st)) (RewrapsInPlace (st_env st))) (w_db w')"
  using assms(3)
proof (cases rule: rotate_row_cases)
  case (3 wr w1 x)
  then obtain n where x: "x = Inr n" by blast
  from 3(3) [unfolded x] obtain w2 :: "'k world" where
    "sql_rewrap_object (o_id r) (o_key_id r) (CurrentKeyID (st_env st)) wr (w_db w2) = Inr (n, w_db w')"
    by (rule pool_exec_Inr) blast
  from rewrap_effect(2) [OF this assms(2)] assms(1) show ?thesis by simp
qed (use assms in auto)

lemma each_row_clean:
  fixes w :: "'k world"
  assumes "\<not> RewrapsInPlace (st_env st)" and "rotate_rely st w"
    and "\<forall>r \<in> set rows. o_key_id r \<noteq> CurrentKeyID (st_env st)"
    and "each_row (rotate_row st) rows (a, s) w = (((a', s), None), w')"
  shows "rotate_guar st w w' \<and> (\<forall>r \<in> set rows. (o_id r, o_key_id r)
    \<notin> waiting (rotate_job (CurrentKeyID (st_env st)) (RewrapsInPlace (st_env st))) (w_db w'))"
  using assms(2-)
proof (induction rows arbitrary: a w)
  case (Cons r rows)
  let ?J = "rotate_job (CurrentKeyID (st_env st)) (RewrapsInPlace (st_env st))"
  obtain a1 s1 e1 and w1 :: "'k world" where 1: "rotate_row st r (a, s) w = (((a1, s1), e1), w1)"
    by (metis surj_pair)
  with Cons.prems(3) have e1: "e1 = None" and rest: "each_row (rotate_row st) rows (a1, s1) w1 = (((a', s), None), w')"
    by (cases e1; simp)+
  from rotate_row_skips [OF 1] each_row_skips [OF rest] have s1: "s1 = s" by simp
  note g1 = rotate_row_work [OF Cons.prems(1) 1]
  from Cons.IH [OF work.guar_rely [OF g1 Cons.prems(1)] _ rest [unfolded s1]] Cons.prems(2)
  have g2: "rotate_guar st w1 w'" and c2: "\<forall>r \<in> set rows. (o_id r, o_key_id r) \<notin> waiting ?J (w_db w')"
    by auto
  from rotate_row_clean [OF assms(1) _ 1 [unfolded s1 e1]] Cons.prems(2)
  have "(o_id r, o_key_id r) \<notin> waiting ?J (w_db w1)" by simp
  with work_guar_waiting [OF g2] c2 work.guar_trans [OF g1 g2] show ?case by auto
qed simp

text \<open>The rows a page leaves out lie behind its last one.\<close>

lemma page_rest:
  assumes "distinct (map o_id xs)" and "r \<in> set xs" and "P r"
    and "page = take n (sort_key o_id (filter P xs))" and "page \<noteq> []"
  shows "r \<in> set page \<or> o_id r > o_id (last page)"
proof (cases "r \<in> set page")
  case False
  let ?s = "sort_key o_id (filter P xs)"
  have "r \<in> set ?s" using assms(2,3) by simp
  then have "r \<in> set (take n ?s) \<union> set (drop n ?s)" by (metis append_take_drop_id set_append)
  with False assms(4) have d: "r \<in> set (drop n ?s)" by simp
  have "sorted (map o_id (take n ?s) @ map o_id (drop n ?s))"
    by (simp flip: map_append)
  with d assms(4,5) have "o_id (last page) \<le> o_id r" by (force simp: sorted_append)
  moreover have "o_id (last page) \<noteq> o_id r"
  proof
    assume eq: "o_id (last page) = o_id r"
    have "set page \<subseteq> set xs" unfolding assms(4) by (auto dest!: in_set_takeD)
    with assms(5) have "last page \<in> set xs" by auto
    with eq assms(1,2) have "last page = r" by (metis distinct_map_eq)
    with False assms(5) show False by auto
  qed
  ultimately show ?thesis using le_neq_trans by blast
qed simp

lemma page_loop_clean:
  fixes w :: "'k world"
  assumes ip: "\<not> RewrapsInPlace (st_env st)" and "rotate_rely st w"
    and "distinct (map o_id (objects (w_db w)))"
    and "\<forall>p \<in> waiting (rotate_job (CurrentKeyID (st_env st)) (RewrapsInPlace (st_env st))) (w_db w). fst p > cur"
    and "page_loop n (rotate_sel (CurrentKeyID (st_env st)) (RewrapsInPlace (st_env st))) (rotate_row st)
      cur (a, s) w = (Some ((a', s), None), w')"
  shows "rotate_guar st w w'
    \<and> waiting (rotate_job (CurrentKeyID (st_env st)) (RewrapsInPlace (st_env st))) (w_db w') = {}"
  using assms(2-)
proof (induction n arbitrary: cur a w)
  case (Suc n)
  let ?J = "rotate_job (CurrentKeyID (st_env st)) (RewrapsInPlace (st_env st))"
  let ?sel = "rotate_sel (CurrentKeyID (st_env st)) (RewrapsInPlace (st_env st))"
  obtain r and w1 :: "'k world" where q: "pool_exec (sql_select_page (?sel cur) page_size) w = (r, w1)"
    by (metis surj_pair)
  with Suc.prems(4) obtain page where page: "r = Inr page" by (cases r) auto
  note q = q [unfolded page] and rows = page_rows [OF q [unfolded page]]
  have g1: "rotate_guar st w w1"
    by (rule work_query [OF Suc.prems(1) _ q]) (simp add: sql_select_page_def)
  then have d1: "distinct (map o_id (objects (w_db w1)))"
    using Suc.prems(2) by (simp add: work.guar_def no_new_work_def)
  have sel: "?sel cur r" if "r \<in> set (objects (w_db w1))" "?J r = Some p" for r p
  proof -
    have "p \<in> waiting ?J (w_db w)" using that work_guar_waiting [OF g1] by (auto simp: waiting_def)
    with Suc.prems(3) rotate_job_id [OF that(2)] that(2) show ?thesis by (auto simp: rotate_sel_job)
  qed
  show ?case
  proof (cases "page = []")
    case True
    with rows have "\<forall>r \<in> set (objects (w_db w1)). \<not> ?sel cur r"
      by (simp add: page_size_def filter_empty_conv flip: set_empty)
    with sel have "waiting ?J (w_db w1) = {}" by (fastforce simp: waiting_def)
    with Suc.prems(4) q True g1 show ?thesis by simp
  next
    case False
    obtain a2 s2 e2 and w2 :: "'k world" where each: "each_row (rotate_row st) page (a, s) w1 = (((a2, s2), e2), w2)"
      by (metis surj_pair)
    from Suc.prems(4) q False each have e2: "e2 = None"
      and next_page: "page_loop n ?sel (rotate_row st) (o_id (last page)) (a2, s2) w2 = (Some ((a', s), None), w')"
      by (cases e2; simp)+
    from each_row_skips [OF each] page_loop_skips [OF next_page] have s2: "s2 = s" by simp
    have keys: "\<forall>r \<in> set page. o_key_id r \<noteq> CurrentKeyID (st_env st)"
      using page_member [OF q] ip by (auto simp: rotate_sel_def)
    note rl1 = work.guar_rely [OF g1 Suc.prems(1)]
    from each_row_clean [OF ip rl1 keys each [unfolded s2 e2]]
    have g2: "rotate_guar st w1 w2"
      and gone: "\<And>r. r \<in> set page \<Longrightarrow> (o_id r, o_key_id r) \<notin> waiting ?J (w_db w2)" by auto
    have "fst p > o_id (last page)" if p: "p \<in> waiting ?J (w_db w2)" for p
    proof -
      from p work_guar_waiting [OF g2] obtain r where r: "r \<in> set (objects (w_db w1))" "?J r = Some p"
        by (auto simp: waiting_def)
      then have "p = (o_id r, o_key_id r)" using ip by (auto simp: rotate_job_def split: if_splits)
      with gone p page_rest [OF d1 r(1) sel [OF r] rows False] show ?thesis by auto
    qed
    moreover have "distinct (map o_id (objects (w_db w2)))"
      using d1 g2 by (simp add: work.guar_def no_new_work_def)
    ultimately have "rotate_guar st w2 w' \<and> waiting ?J (w_db w') = {}"
      using Suc.IH [OF work.guar_rely [OF g2 rl1] _ _ next_page [unfolded s2]] by blast
    with g1 g2 show ?thesis by (blast intro: work.guar_trans)
  qed
qed simp

section \<open>The blind-index key\<close>

lemma rotate_index_key_clean:
  fixes w :: "'k world"
  assumes ip: "\<not> RewrapsInPlace (st_env st)" and rl: "rotate_rely st w"
    and names: "distinct (map k_name (service_keys (w_db w)))"
      "fst ` waiting_keys (rekey_job (CurrentKeyID (st_env st))) (w_db w) \<subseteq> {indexKeyName}"
    and run: "rotate_index_key st w = (Inr n, w')"
  shows "waiting_keys (rekey_job (CurrentKeyID (st_env st))) (w_db w') = {}"
proof -
  let ?K = "rekey_job (CurrentKeyID (st_env st))"
  obtain r1 and w1 :: "'k world" where q: "pool_exec (sql_select_key indexKeyName) w = (r1, w1)"
    by (metis surj_pair)
  with run obtain k where r1: "r1 = Inr k" by (cases r1) (auto simp: rotate_index_key_def)
  note q = q [unfolded r1]
  have g1: "rotate_guar st w w1"
    by (rule work_query [OF rl _ q]) (auto dest: sql_select_key_Inr)
  have k: "k \<in> set (service_keys (w_db w1))" "k_name k = indexKeyName"
    by (rule pool_exec_Inr [OF q]; auto dest: sql_select_key_Inr)+
  have d1: "distinct (map k_name (service_keys (w_db w1)))"
    using g1 names(1) by (simp add: work.guar_def no_new_work_def)
  have only: "p = (indexKeyName, k_key_id k) \<and> k_key_id k \<noteq> CurrentKeyID (st_env st)"
    if p: "p \<in> waiting_keys ?K (w_db w1)" for p
  proof -
    from p obtain k' where k': "k' \<in> set (service_keys (w_db w1))" "?K k' = Some p"
      by (auto simp: waiting_keys_def)
    have "p \<in> waiting_keys ?K (w_db w)" using p g1 by (auto simp: work.guar_def no_new_work_def)
    with names(2) have "fst p = indexKeyName" by blast
    with k' have "k_name k' = indexKeyName" by (auto simp: rekey_job_def split: if_splits)
    with k k' d1 have "k' = k" by (metis distinct_map_eq)
    with k' show ?thesis using k(2) by (auto simp: rekey_job_def split: if_splits)
  qed
  obtain r2 and w2 :: "'k world" where o: "on_host (Rewrap (st_env st) (sealed_key k) indexKeyAAD) w1 = (r2, w2)"
    by (metis surj_pair)
  from o obtain h' where rw: "Rewrap (st_env st) (sealed_key k) indexKeyAAD (w_host w1) = (r2, h')"
    by (auto simp: on_host_def split: prod.splits)
  have db2: "w_db w2 = w_db w1" using on_host_frame [OF o] by (simp add: frame_def)
  from run q o obtain re ch where r2: "r2 = Inr (re, ch)"
    by (cases r2) (auto simp: rotate_index_key_def)
  show ?thesis
  proof (cases ch)
    case False
    with Rewrap_stale [OF rw [unfolded r2]] have "s_key_id (sealed_key k) = CurrentKeyID (st_env st)"
      by blast
    then have "k_key_id k = CurrentKeyID (st_env st)" by (simp add: sealed_key_def)
    moreover from run q o r2 False have "w' = w2" by (simp add: rotate_index_key_def)
    ultimately show ?thesis using only db2 by auto
  next
    case True
    with rw r2 have "s_key_id re = CurrentKeyID (st_env st)" by (auto dest: Rewrap_changed)
    with run q o r2 True have u: "pool_exec (sql_update_key indexKeyName (k_key_id k)
        (CurrentKeyID (st_env st)) (s_wrapped re)) w2 = (Inr n, w')"
      by (simp add: rotate_index_key_def)
    obtain w3 sky where t: "pool_tick w2 = (sky, w3)" and e: "sql_update_key indexKeyName (k_key_id k)
        (CurrentKeyID (st_env st)) (s_wrapped re) (w_db w3) = Inr (n, w_db w')"
      by (rule pool_exec_Inr [OF u]) blast
    note g2 = work.guar_trans [OF g1 work.guar_frame [OF on_host_frame [OF o]]]
    from work.guar_pool_tick [OF work.guar_rely [OF g2 rl] t] db2
    have "waiting_keys ?K (w_db w3) \<subseteq> waiting_keys ?K (w_db w1)"
      by (simp add: work.guar_def no_new_work_def)
    moreover have "waiting_keys ?K (w_db w') \<subseteq> waiting_keys ?K (w_db w3)"
      using rekey_effect(1) [OF e] by (simp add: no_new_work_def)
    ultimately show ?thesis using only rekey_effect(2) [OF e] by auto
  qed
qed

section \<open>Old keys can go\<close>

lemma nil_less: "s \<noteq> [] \<Longrightarrow> s > ([] :: string)"
  by (cases s) simp_all

lemma Rotate_clean:
  fixes w :: "'k world"
  assumes ip: "\<not> RewrapsInPlace (st_env st)" and rl: "rotate_rely st w"
    and ids: "distinct (map o_id (objects (w_db w)))"
      "[] \<notin> fst ` waiting (rotate_job (CurrentKeyID (st_env st)) (RewrapsInPlace (st_env st))) (w_db w)"
    and names: "distinct (map k_name (service_keys (w_db w)))"
      "fst ` waiting_keys (rekey_job (CurrentKeyID (st_env st))) (w_db w) \<subseteq> {indexKeyName}"
    and run: "Rotate fuel st w = (Some ((n, 0), None), w')"
  shows "waiting (rotate_job (CurrentKeyID (st_env st)) (RewrapsInPlace (st_env st))) (w_db w') = {}"
    and "waiting_keys (rekey_job (CurrentKeyID (st_env st))) (w_db w') = {}"
proof -
  let ?J = "rotate_job (CurrentKeyID (st_env st)) (RewrapsInPlace (st_env st))"
  obtain r1 and w1 :: "'k world" where i: "rotate_index_key st w = (r1, w1)" by (metis surj_pair)
  with run obtain m where r1: "r1 = Inr m" by (cases r1) (auto simp: Rotate_def)
  note g1 = rotate_index_key_work [OF rl i]
  have "waiting ?J (w_db w1) \<subseteq> waiting ?J (w_db w)" by (rule work_guar_waiting [OF g1])
  moreover have "fst p \<noteq> []" if p: "p \<in> waiting ?J (w_db w)" for p
    using ids(2) imageI [OF p, of fst] by metis
  ultimately have "\<forall>p \<in> waiting ?J (w_db w1). fst p > []" using nil_less by blast
  moreover have "distinct (map o_id (objects (w_db w1)))"
    using g1 ids(1) by (simp add: work.guar_def no_new_work_def)
  moreover have "page_loop fuel (rotate_sel (CurrentKeyID (st_env st)) (RewrapsInPlace (st_env st)))
      (rotate_row st) [] (m, 0) w1 = (Some ((n, 0), None), w')"
    using run i r1 by (simp add: Rotate_def)
  ultimately have "rotate_guar st w1 w' \<and> waiting ?J (w_db w') = {}"
    using page_loop_clean [OF ip work.guar_rely [OF g1 rl]] by blast
  moreover from rotate_index_key_clean [OF ip rl names i [unfolded r1]]
  have "waiting_keys (rekey_job (CurrentKeyID (st_env st))) (w_db w1) = {}" .
  ultimately show "waiting ?J (w_db w') = {}"
    and "waiting_keys (rekey_job (CurrentKeyID (st_env st))) (w_db w') = {}"
    by (auto simp: work.guar_def no_new_work_def)
qed

text \<open>What is readable by a keyring and under one of its keys is readable with that key alone.\<close>

lemma reads_alone:
  assumes "valid_keys C keys" and "k \<in> set keys" and "reads C keys s a p" and "s_key_id s = KeyID C k"
  shows "reads C [k] s a p"
proof -
  from assms(3) obtain key dek where key: "key \<in> set keys" "KeyID C key = s_key_id s"
    and o: "open_blob C key (s_wrapped s) a = Inr dek" "openWithDEK C dek (s_ciphertext s) a = Inr p"
    by (auto simp: reads_def)
  from valid_keys_inj [OF assms(1) key(1) assms(2)] key(2) assms(4) have "key = k" by simp
  with key o show ?thesis by (auto simp: reads_def)
qed

lemma clean_rotation:
  fixes w :: "'k world"
  assumes "valid_keys C (k # ks)" and "st_env st = local_env C k ks"
    and "rivals_obey C (st_index st) (reads C (k # ks)) w"
    and "\<And>n d. no_new_work (rotate_job (KeyID C k) False) (rekey_job (KeyID C k)) d (w_rivals w n d)"
    and "db_ok (reads C (k # ks)) (w_db w)"
    and "[] \<notin> fst ` waiting (rotate_job (KeyID C k) False) (w_db w)"
    and "fst ` waiting_keys (rekey_job (KeyID C k)) (w_db w) \<subseteq> {indexKeyName}"
    and "Rotate fuel st w = (Some ((n, 0), None), w')"
  shows "db_ok (reads C [k]) (w_db w')"
proof -
  let ?G = "reads C (k # ks)"
  have cur: "CurrentKeyID (st_env st) = KeyID C k" and ip: "\<not> RewrapsInPlace (st_env st)"
    by (simp_all add: assms(2))
  have rl: "rotate_rely st w" using assms(4) by (simp add: work.rely_def cur ip)
  have "trusted C ?G (st_env st)" unfolding assms(2) by (rule trusted_local [OF assms(1)]) simp
  from guar_Rotate [OF this definite_reads [OF assms(1)] _ assms(5,8), of "st_index st"] assms(3)
  have "spec.guar C (st_index st) ?G w w'" by (simp add: rely_iff)
  from spec.stable_guar [OF stable_db_ok this assms(5)] have ok: "db_ok ?G (w_db w')" .
  from assms(5) have d: "distinct (map o_id (objects (w_db w)))" "distinct (map k_name (service_keys (w_db w)))"
    by (simp_all add: db_ok_def)
  have ids: "[] \<notin> fst ` waiting (rotate_job (CurrentKeyID (st_env st)) (RewrapsInPlace (st_env st))) (w_db w)"
    and names: "fst ` waiting_keys (rekey_job (CurrentKeyID (st_env st))) (w_db w) \<subseteq> {indexKeyName}"
    using assms(6,7) by (simp_all add: cur ip)
  from Rotate_clean [OF ip rl d(1) ids d(2) names assms(8)]
  have rows: "\<And>r. r \<in> set (objects (w_db w')) \<Longrightarrow> o_deleted r \<or> o_key_id r = KeyID C k"
    and keys: "\<And>s. s \<in> set (service_keys (w_db w')) \<Longrightarrow> k_key_id s = KeyID C k"
    by (fastforce simp: waiting_def waiting_keys_def rotate_job_def rekey_job_def cur ip split: if_splits)+
  have "row_ok (reads C [k]) r" if r: "r \<in> set (objects (w_db w'))" for r
  proof -
    from ok r have "row_ok ?G r" by (simp add: db_ok_def)
    moreover have "reads C [k] (sealed_of r) a p" if "?G (sealed_of r) a p" "\<not> o_deleted r" for a p
      using rows [OF r] that by (intro reads_alone [OF assms(1) _ that(1)]) (simp_all add: sealed_of_def)
    ultimately show ?thesis unfolding row_ok_def by blast
  qed
  moreover have "\<exists>p. reads C [k] (sealed_key s) indexKeyAAD p" if s: "s \<in> set (service_keys (w_db w'))" for s
  proof -
    from ok s obtain p where "?G (sealed_key s) indexKeyAAD p" by (auto simp: db_ok_def)
    with keys [OF s] reads_alone [OF assms(1), of k "sealed_key s"] show ?thesis
      by (auto simp: sealed_key_def)
  qed
  ultimately show ?thesis using ok by (simp add: db_ok_def)
qed

definition only_index_key :: "db \<Rightarrow> bool" where
  "only_index_key d \<longleftrightarrow> list_all (\<lambda>k. k_name k = indexKeyName) (service_keys d)"

lemma only_index_key_waiting: "only_index_key d \<Longrightarrow> fst ` waiting_keys (rekey_job k) d \<subseteq> {indexKeyName}"
  by (auto simp: waiting_keys_def only_index_key_def list_all_iff rekey_job_def split: if_splits)

lemma no_empty_id_waiting: "[] \<notin> o_id ` set (objects d) \<Longrightarrow> [] \<notin> fst ` waiting (rotate_job k ip) d"
proof
  assume no: "[] \<notin> o_id ` set (objects d)" and "[] \<in> fst ` waiting (rotate_job k ip) d"
  then obtain p r where "r \<in> set (objects d)" "rotate_job k ip r = Some p" "fst p = []"
    by (auto simp: waiting_def)
  then have "[] \<in> o_id ` set (objects d)" by (metis rotate_job_id image_eqI)
  with no show False by blast
qed

text \<open>
  C23: After a clean rotation the old master keys can be destroyed. When a rotation to a new master
  key, run while other servers serve, ends without an error and without a skipped row, every live
  object and the blind-index key open with the new master key alone. The other servers commit
  transactions of the specification, and put nothing under another key than the new one that was
  not there before.
\<close>

theorem old_keys_can_go:
  fixes w :: "'k world"
  assumes "valid_keys C (k # ks)" and "st_env st = local_env C k ks"
    and "rivals_obey C (st_index st) (reads C (k # ks)) w"
    and "\<And>n d. no_new_work (rotate_job (KeyID C k) False) (rekey_job (KeyID C k)) d (w_rivals w n d)"
    and "db_ok (reads C (k # ks)) (w_db w)"
    and "[] \<notin> o_id ` set (objects (w_db w))" and "only_index_key (w_db w)"
    and "Rotate fuel st w = (Some ((n, 0), None), w')"
  shows "db_ok (reads C [k]) (w_db w')"
  by (rule clean_rotation [OF assms(1-5) no_empty_id_waiting [OF assms(6)] only_index_key_waiting [OF assms(7)] assms(8)])

text \<open>The blind-index key of the sample is under the old master key too.\<close>

definition keyed_world :: "unit world" where
  "keyed_world = snd (loadIndexKey sample_crypto (st_env sample_store) put_world)"

lemma keyed_guar:
  assumes "trusted sample_crypto G (st_env sample_store)"
  shows "spec.guar sample_crypto sample_index G put_world keyed_world"
proof -
  obtain k where "loadIndexKey sample_crypto (st_env sample_store) put_world = (k, keyed_world)"
    by (metis prod.collapse keyed_world_def)
  from guar_loadIndexKey [OF assms _ this] sample_ok(1) [OF assms] show ?thesis by (simp add: rely_iff)
qed

theorem old_keys_can_go_witness:
  "db_ok (reads sample_crypto [sample_key CHR ''b'']) (w_db (snd (Rotate 3 rotated_store keyed_world)))"
proof -
  have "fst (Rotate 3 rotated_store keyed_world) = Some ((2, 0), None)" by code_simp
  then obtain w' where run: "Rotate 3 rotated_store keyed_world = (Some ((2, 0), None), w')"
    by (metis prod.collapse)
  have keys: "sample_keys = sample_key CHR ''b'' # [sample_key CHR ''a'']" by (simp add: sample_keys_def)
  note g = keyed_guar [OF sample_trusted(1)] and ok = sample_ok [OF sample_trusted(1)]
  have env: "st_env rotated_store = local_env sample_crypto (sample_key CHR ''b'') [sample_key CHR ''a'']"
    by (simp add: rotated_store_def)
  have r: "w_rivals keyed_world = (\<lambda>_ d. d)" using g put_rivals by (simp add: spec.guar_def)
  have "rivals_obey sample_crypto (st_index rotated_store) (reads sample_crypto sample_keys) keyed_world"
    by (simp add: rivals_obey_def r)
  note rl = this [unfolded keys]
  note ok1 = spec.stable_guar [OF stable_db_ok g ok(3), unfolded keys]
  have ids: "[] \<notin> o_id ` set (objects (w_db keyed_world))" and names: "only_index_key (w_db keyed_world)"
  proof -
    have "let d = w_db keyed_world in [] \<notin> o_id ` set (objects d) \<and> only_index_key d" by code_simp
    then show "[] \<notin> o_id ` set (objects (w_db keyed_world))" "only_index_key (w_db keyed_world)" by (simp_all add: Let_def)
  qed
  have "no_new_work J K d (w_rivals keyed_world n d)" for J K n d by (simp add: r no_new_work_def)
  from old_keys_can_go [OF sample_valid [unfolded keys] env rl this ok1 ids names run] run
  show ?thesis by simp
qed

section \<open>One blind-index key\<close>

lemma local_Open_only:
  fixes h :: "'k host"
  assumes "set (k # ks) \<subseteq> set keys" and "Open C (local_env C k ks) s a h = (Inr p, h')"
  shows "reads C keys s a p"
proof -
  obtain key where f: "find (\<lambda>x. KeyID C x = s_key_id s) (k # ks) = Some key"
    using assms(2) by (cases "find (\<lambda>x. KeyID C x = s_key_id s) (k # ks)")
      (auto simp: Open_def unwrap_dek_def local_env_lookup split: if_splits)
  from find_SomeD [OF f] assms(1) have key: "key \<in> set keys" "KeyID C key = s_key_id s" by auto
  from f have m: "map_of (env_all (local_env C k ks :: 'k host envelope)) (s_key_id s) = Some (local_wrapper C key)"
    by (simp add: local_env_lookup)
  from assms(2) obtain dek where "open_blob C key (s_wrapped s) a = Inr dek"
    and "openWithDEK C dek (s_ciphertext s) a = Inr p"
    by (auto simp: Open_def local_unwrap_dek [OF m] split: sum.splits if_splits)
  with key show ?thesis by (auto simp: reads_def)
qed

lemma reads_unique:
  "valid_keys C keys \<Longrightarrow> reads C keys s a p \<Longrightarrow> reads C keys s a q \<Longrightarrow> p = q"
  unfolding reads_def by (metis valid_keys_inj sum.inject(2))

text \<open>A server that has started holds the key that is in the database.\<close>

definition holds_index_key :: "readable \<Rightarrow> blind_key \<Rightarrow> db \<Rightarrow> bool" where
  "holds_index_key G ix d \<longleftrightarrow>
     (\<exists>s \<in> set (service_keys d). k_name s = indexKeyName \<and> G (sealed_key s) indexKeyAAD (ix_key ix))"

lemma loadIndexKey_holds:
  fixes w :: "'k world"
  assumes "set (k # ks) \<subseteq> set keys" and "loadIndexKey C (local_env C k ks) w = (Inr ix, w')"
  shows "holds_index_key (reads C keys) ix (w_db w')"
proof -
  obtain p and w0 :: "'k world" where o: "on_host (rand_read KeySize) w = (p, w0)" by (metis surj_pair)
  obtain r1 and w1 :: "'k world" where s: "on_host (Seal C (local_env C k ks) p indexKeyAAD) w0 = (r1, w1)"
    by (metis surj_pair)
  with assms(2) o obtain sl where r1: "r1 = Inr sl" by (cases r1) (auto simp: loadIndexKey_def)
  let ?row = "\<lparr>k_name = indexKeyName, k_key_id = s_key_id sl, k_wrapped = s_wrapped sl,
    k_ciphertext = s_ciphertext sl\<rparr>"
  obtain r2 and w2 :: "'k world" where i: "pool_exec (sql_insert_key ?row) w1 = (r2, w2)" by (metis surj_pair)
  with assms(2) o s r1 obtain u where r2: "r2 = Inr u" by (cases r2) (auto simp: loadIndexKey_def)
  obtain r3 and w3 :: "'k world" where q: "pool_exec (sql_select_key indexKeyName) w2 = (r3, w3)"
    by (metis surj_pair)
  with assms(2) o s r1 i r2 obtain row where r3: "r3 = Inr row" by (cases r3) (auto simp: loadIndexKey_def)
  have row: "row \<in> set (service_keys (w_db w3))" "k_name row = indexKeyName"
    by (rule pool_exec_Inr [OF q [unfolded r3]]; auto dest: sql_select_key_Inr)+
  obtain r4 and w4 :: "'k world" where e: "on_host (Open C (local_env C k ks) (sealed_key row) indexKeyAAD) w3 = (r4, w4)"
    by (metis surj_pair)
  with assms(2) o s r1 i r2 q r3 obtain key where r4: "r4 = Inr key"
    and ix: "NewIndex key = Inr ix" and w': "w' = w4"
    by (cases r4) (auto simp: loadIndexKey_def)
  from e r4 have "reads C keys (sealed_key row) indexKeyAAD key"
    by (auto simp: on_host_def intro: local_Open_only [OF assms(1)] split: prod.splits)
  moreover have "ix_key ix = key" using ix by (auto simp: NewIndex_def split: if_splits)
  moreover have "w_db w' = w_db w3" using on_host_frame [OF e] by (simp add: w' frame_def)
  ultimately show ?thesis using row by (auto simp: holds_index_key_def)
qed

text \<open>
  C26: All servers compute the blind index with one key. Two servers that start, at the same time or
  years apart, with different current master keys or with the same, before or after rotations,
  end up with the same blind-index key: whoever inserts its fresh key first has it read by all.
  The hypothesis orders the ends of the two starts by what happened to the database between them.
\<close>

theorem one_blind_key:
  fixes w :: "'k world" and v :: "'l world"
  assumes "valid_keys C keys" and "set (k1 # ks1) \<subseteq> set keys" and "set (k2 # ks2) \<subseteq> set keys"
    and "loadIndexKey C (local_env C k1 ks1) w = (Inr ix1, w')"
    and "loadIndexKey C (local_env C k2 ks2) v = (Inr ix2, v')"
    and "db_ok (reads C keys) (w_db w')"
    and "(commit C ix (reads C keys))\<^sup>*\<^sup>* (w_db w') (w_db v')"
  shows "ix1 = ix2"
proof -
  let ?G = "reads C keys"
  obtain s where s: "s \<in> set (service_keys (w_db w'))" "k_name s = indexKeyName"
    "?G (sealed_key s) indexKeyAAD (ix_key ix1)"
    using loadIndexKey_holds [OF assms(2,4)] by (auto simp: holds_index_key_def)
  obtain t where t: "t \<in> set (service_keys (w_db v'))" "k_name t = indexKeyName"
    "?G (sealed_key t) indexKeyAAD (ix_key ix2)"
    using loadIndexKey_holds [OF assms(3,5)] by (auto simp: holds_index_key_def)
  from commits_lawful(1) [OF assms(7)] have "grows (key_step ?G) (service_keys (w_db w')) (service_keys (w_db v'))"
    by (simp add: evolves_def)
  from grows_member [OF this s(1)] obtain s' where s': "s' \<in> set (service_keys (w_db v'))" "key_step ?G s s'"
    by blast
  from commits_lawful(2) [OF assms(7,6)] have "distinct (map k_name (service_keys (w_db v')))"
    by (simp add: db_ok_def)
  moreover have "k_name s' = k_name t" using s'(2) s(2) t(2) by (simp add: key_step_def)
  ultimately have "s' = t" using s'(1) t(1) by (metis distinct_map_eq)
  with s' s(3) have "?G (sealed_key t) indexKeyAAD (ix_key ix1)" by (auto simp: key_step_def)
  from reads_unique [OF assms(1) this t(3)] have "ix_key ix1 = ix_key ix2" .
  then show ?thesis by simp
qed

definition drawn_index :: blind_key where
  "drawn_index = \<lparr>ix_key = sample_key CHR ''r''\<rparr>"

lemma first_start: "fst (loadIndexKey sample_crypto (st_env sample_store) put_world) = Inr drawn_index"
  by code_simp

lemma second_start:
  "\<not> isl (fst (loadIndexKey sample_crypto (st_env rotated_store) keyed_world))"
  by code_simp

theorem one_blind_key_witness:
  "fst (loadIndexKey sample_crypto (st_env rotated_store) keyed_world) = Inr drawn_index"
proof -
  obtain ix2 where "fst (loadIndexKey sample_crypto (st_env rotated_store) keyed_world) = Inr ix2"
    using second_start by (metis sum.collapse(2))
  then obtain v where 1: "loadIndexKey sample_crypto (st_env sample_store) put_world = (Inr drawn_index, keyed_world)"
    and 2: "loadIndexKey sample_crypto (st_env rotated_store) keyed_world = (Inr ix2, v)"
    using first_start by (metis keyed_world_def prod.collapse)
  note e1 = 1 [unfolded sample_store_def store.select_convs]
    and e2 = 2 [unfolded rotated_store_def store.select_convs]
  note ok = spec.stable_guar [OF stable_db_ok keyed_guar [OF sample_trusted(1)] sample_ok(3) [OF sample_trusted(1)]]
  have "spec.rely sample_crypto sample_index (reads sample_crypto sample_keys) put_world"
    using sample_ok(1) [OF sample_trusted(1)] by (simp add: rely_iff)
  from guar_loadIndexKey [OF sample_trusted(2) spec.guar_rely [OF keyed_guar [OF sample_trusted(1)] this] 2]
  have c: "(commit sample_crypto sample_index (reads sample_crypto sample_keys))\<^sup>*\<^sup>* (w_db keyed_world) (w_db v)"
    by (simp add: spec.guar_def)
  have "drawn_index = ix2"
    by (rule one_blind_key [OF sample_valid _ _ e1 e2 ok c]) (simp_all add: sample_keys_def)
  with 2 show ?thesis by simp
qed

end
