(* ===== verification/ProcessTheorems.thy ===== *)
theory ProcessTheorems
  imports Process ApiTheorems CommandTheorems Retire
begin

text \<open>
  The process as a whole: from its environment to the answers of its server and the exit status of
  its tasks.
\<close>

section \<open>What is counted\<close>

text \<open>
  The route a request is counted under: fixed texts, and for the whole API the one pattern of the
  outer mux, since the inner mux writes its patterns into the copy \<open>requireKey\<close> made.
\<close>

definition counted_route :: "request \<Rightarrow> string" where
  "counted_route r =
     (case page_of r of
        Some p \<Rightarrow> page_pattern p
      | None \<Rightarrow> if r_path r = [''v1''] then ''/v1/'' else ''other'')"

lemma counted_route_fixed:
  "counted_route r \<in> {''GET /healthz'', ''GET /openapi.json'', ''/v1/'', ''other''}"
proof (cases "page_of r")
  case (Some p)
  then show ?thesis by (cases p) (simp_all add: counted_route_def)
qed (simp add: counted_route_def)

text \<open>The whole API shares one route: the metrics do not tell its endpoints apart.\<close>

lemma api_endpoints_share_a_route:
  "r_path r = ''v1'' # p # ps \<Longrightarrow> counted_route r = ''/v1/''"
  by (simp add: counted_route_def page_of_def)

lemma api_handler_pattern:
  assumes "api_handler sha256 clients srv r a t = ((wr, ans), t')" and "a < length (t_patterns t)"
  shows "t_patterns t' ! a = t_patterns t ! a \<and> wr = written ans"
  using assms
  by (auto simp: api_handler_def with_context_def set_pattern_def nth_append nth_list_update writeError_def
      split: prod.splits if_splits)

lemma healthz_status: "healthz s = (x, s') \<Longrightarrow> reply_status x = Some 503 \<or> reply_status x = Some 200"
  by (auto simp: healthz_def split: prod.splits sum.splits)

lemma main_handler_counts:
  assumes h: "main_handler sha256 clients srv moved r a t = ((wr, y), t2)"
    and a: "a < length (t_patterns t)"
  shows "(case wr of None \<Rightarrow> reply_status y = None
      | Some ws \<Rightarrow> reply_status y = Some (recorded ws)
          \<and> counted_route r = (if t_patterns t2 ! a = [] then ''other'' else t_patterns t2 ! a))"
proof (cases "page_of r")
  case None
  with h a show ?thesis
    by (auto simp: main_handler_def counted_route_def set_pattern_def recorded_def split: if_splits)
next
  case (Some p)
  show ?thesis
  proof (cases p)
    case Healthz
    obtain z s where z: "healthz (t_state t) = (z, s)" by (metis surj_pair)
    with h a Some Healthz healthz_status [OF z] show ?thesis
      by (auto simp: main_handler_def counted_route_def set_pattern_def recorded_def split: if_splits)
  next
    case Openapi_json
    with h a Some show ?thesis
      by (auto simp: main_handler_def counted_route_def set_pattern_def recorded_def)
  next
    case Api_prefix
    let ?t1 = "set_pattern a (page_pattern Api_prefix) t"
    obtain wr1 ans t3 where api: "api_handler sha256 clients srv r a ?t1 = ((wr1, ans), t3)" by (metis surj_pair)
    have "a < length (t_patterns ?t1)" "t_patterns ?t1 ! a = ''/v1/''" using a by (simp_all add: set_pattern_def)
    with api_handler_pattern [OF api] have "t_patterns t3 ! a = ''/v1/''" "wr1 = written ans" by simp_all
    moreover have "wr = wr1 \<and> y = Api_answer ans \<and> t2 = t3"
      using h Some Api_prefix api by (auto simp: main_handler_def)
    ultimately show ?thesis using Some Api_prefix
      by (cases ans) (auto simp: counted_route_def recorded_def)
  qed
qed

text \<open>An answered request is observed once, a panic not at all.\<close>

lemma serve_request_counts:
  assumes "serve_request sha256 clients srv moved r secs t g = (x, t', g')"
  shows "g' = (case reply_status x of None \<Rightarrow> g | Some n \<Rightarrow> observe (counted_route r) n secs g)"
proof -
  let ?a = "length (t_patterns t)"
  let ?t = "t\<lparr>t_patterns := t_patterns t @ [[]]\<rparr>"
  obtain wr y t2 where h: "main_handler sha256 clients srv moved r ?a ?t = ((wr, y), t2)" by (metis surj_pair)
  have "x = y \<and> g' = (case wr of None \<Rightarrow> g
      | Some ws \<Rightarrow> observe (if t_patterns t2 ! ?a = [] then ''other'' else t_patterns t2 ! ?a) (recorded ws) secs g)"
    using assms h by (auto simp: serve_request_def Middleware_def new_request_def Let_def split: option.splits)
  with main_handler_counts [OF h] show ?thesis by (auto split: option.splits)
qed

section \<open>A started server answers\<close>

lemma serve_request_state:
  assumes "serve_request sha256 clients srv moved r secs t g = (x, t', g')"
  shows "(\<exists>y. healthz (t_state t) = (y, t_state t') \<and> x = y) \<or> (t_state t' = t_state t \<and> reply_status x \<noteq> None)
    \<or> (\<exists>ans. requireKey sha256 clients (serve_mux srv) r (t_state t) = (ans, t_state t') \<and> x = Api_answer ans)"
proof -
  let ?a = "length (t_patterns t)"
  let ?t = "t\<lparr>t_patterns := t_patterns t @ [[]]\<rparr>"
  obtain wr y t2 where h: "main_handler sha256 clients srv moved r ?a ?t = ((wr, y), t2)" by (metis surj_pair)
  have xt: "x = y" "t' = t2"
    using assms h by (auto simp: serve_request_def Middleware_def new_request_def Let_def split: option.splits)
  show ?thesis
  proof (cases "page_of r")
    case None
    with h xt show ?thesis by (auto simp: main_handler_def set_pattern_def split: if_splits)
  next
    case (Some p)
    show ?thesis
    proof (cases p)
      case Healthz
      with h xt Some show ?thesis by (auto simp: main_handler_def set_pattern_def split: prod.splits)
    next
      case Openapi_json
      with h xt Some show ?thesis by (auto simp: main_handler_def set_pattern_def)
    next
      case Api_prefix
      obtain wr1 ans t3 where api: "api_handler sha256 clients srv r ?a (set_pattern ?a (page_pattern Api_prefix) ?t)
          = ((wr1, ans), t3)" by (metis surj_pair)
      with h xt Some Api_prefix have "y = Api_answer ans \<and> t2 = t3" by (auto simp: main_handler_def)
      with xt api_handler_New [OF api] show ?thesis by (simp add: set_pattern_def)
    qed
  qed
qed

lemma healthz_kept:
  assumes "vault_inv C st (at_vault s)" and "healthz s = (x, s')"
  shows "vault_inv C st (at_vault s')"
proof -
  obtain r s1 where o: "on_vault Ping s = (r, s1)" by (metis surj_pair)
  with assms(2) have s': "s' = s1" by (auto simp: healthz_def split: sum.splits)
  from sv.on_vaultD [OF o] have "pool_exec (\<lambda>d. Inr ((), d)) (at_vault s) = (r, at_vault s1)"
    by (simp add: Ping_def)
  then have "spec.guar C (st_index st) (\<lambda>_ _ _. True) (at_vault s) (at_vault s1)"
    using assms(1) by (intro guar_query [of C _ _ _ "\<lambda>d. Inr ((), d)"]) (auto simp: vault_inv_def rely_iff)
  with assms(1) spec.guar_rely show ?thesis by (auto simp: s' vault_inv_def rely_iff)
qed

lemma serve_request_answers:
  assumes "vault_inv C st (at_vault (t_state t))" and "maps_ok (p_schema s) \<and> schema_ok (p_schema s)"
    and "serve_request sha256 (p_clients s) (server_of C allowN pick st s) moved r secs t g = (x, t', g')"
  shows "reply_status x \<noteq> None \<and> vault_inv C st (at_vault (t_state t'))"
  using serve_request_state [OF assms(3)]
proof (elim disjE exE conjE)
  fix y assume "healthz (t_state t) = (y, t_state t')" "x = y"
  with healthz_kept [OF assms(1)] healthz_status show ?thesis by fastforce
next
  fix ans
  assume run: "requireKey sha256 (p_clients s) (serve_mux (server_of C allowN pick st s)) r (t_state t)
      = (ans, t_state t')" and x: "x = Api_answer ans"
  note run = run [unfolded server_of_New]
  from sv.New_answers [OF assms(1,2)] run have "ans \<noteq> answer.Dropped"
    unfolding answers_def by (metis fst_conv)
  then have "reply_status x \<noteq> None" unfolding x by (cases ans) simp_all
  moreover obtain c ok where "authenticate sha256 (p_clients s) (r_authorization r) = (c, ok)" by (metis surj_pair)
  from sv.honest_New [OF assms(1) this, of allowN pick "p_schema s"] run
  have "sv.kept C st (t_state t) (t_state t')" by (simp add: sv.honest_def)
  with sv.kept_inv [OF assms(1)] have "vault_inv C st (at_vault (t_state t'))" .
  ultimately show ?thesis ..
qed (use assms(1) in simp)

definition observations :: "(request \<times> float64) list \<Rightarrow> reply list \<Rightarrow> (string \<times> nat \<times> float64) list" where
  "observations reqs xs =
     map (\<lambda>((r, secs), x). (counted_route r, the (reply_status x), secs)) (zip reqs xs)"

lemma serve_requests_answer:
  assumes "vault_inv C st (at_vault (t_state t))" and "maps_ok (p_schema s) \<and> schema_ok (p_schema s)"
    and "serve_requests sha256 (p_clients s) (server_of C allowN pick st s) moved reqs t g = (xs, t', g')"
  shows "length xs = length reqs \<and> list_all (\<lambda>x. reply_status x \<noteq> None) xs
    \<and> g' = observe_all (observations reqs xs) g"
  using assms(1,3)
proof (induction reqs arbitrary: t g xs)
  case (Cons q reqs)
  obtain r secs where q: "q = (r, secs)" by (cases q)
  let ?srv = "server_of C allowN pick st s"
  obtain x t1 g1 where 1: "serve_request sha256 (p_clients s) ?srv moved r secs t g = (x, t1, g1)"
    by (metis surj_pair)
  obtain ys t2 g2 where 2: "serve_requests sha256 (p_clients s) ?srv moved reqs t1 g1 = (ys, t2, g2)"
    by (metis surj_pair)
  from Cons.prems(2) q 1 2 have xs: "xs = x # ys" and "t' = t2" "g' = g2" by simp_all
  note a = serve_request_answers [OF Cons.prems(1) assms(2) 1]
  with Cons.IH [of t1 g1 ys] 2 \<open>t' = t2\<close> \<open>g' = g2\<close>
  have "length ys = length reqs" "list_all (\<lambda>x. reply_status x \<noteq> None) ys"
    "g' = observe_all (observations reqs ys) g1" by simp_all
  with a serve_request_counts [OF 1] show ?case
    by (auto simp: xs q observations_def observe_all_def)
qed (simp add: observations_def observe_all_def)

text \<open>
  The patterns a request matches: that of the mux of \<open>main\<close>, and within the API that of the mux of
  \<open>New\<close>; \<open>other\<close> when it matches none. All of them are texts of the program.
\<close>

definition matched :: "request \<Rightarrow> string set" where
  "matched r = insert (counted_route r)
     (case lookup_route routes (r_method r) (r_path r) of None \<Rightarrow> {} | Some (e, _) \<Rightarrow> {pattern_of e})"

lemma observed_counters:
  assumes "length xs = length reqs" and "list_all (\<lambda>x. reply_status x \<noteq> None) xs"
    and "g = observe_all (observations reqs xs) zero_registry"
  shows "counter (m_requests g) (route, n)
      = of_nat (length (filter (\<lambda>(l, x). l = route \<and> reply_status x = Some n) (zip (map (counted_route \<circ> fst) reqs) xs)))
    \<and> counter (m_count g) route = of_nat (length (filter (\<lambda>l. l = route) (map (counted_route \<circ> fst) reqs)))"
proof -
  have "length (filter (\<lambda>(r, s, _). (r, s) = (route, n)) (observations reqs xs))
      = length (filter (\<lambda>(l, x). l = route \<and> reply_status x = Some n) (zip (map (counted_route \<circ> fst) reqs) xs))
    \<and> length (filter (\<lambda>(r, _). r = route) (observations reqs xs))
      = length (filter (\<lambda>l. l = route) (map (counted_route \<circ> fst) reqs))"
    using assms(1,2)
    by (induction rule: list_induct2) (auto simp: observations_def split: prod.splits)
  then show ?thesis
    using observe_all_counters [of "observations reqs xs" zero_registry "(route, n)" route]
    by (simp add: assms(3) zero_registry_def counter_def)
qed

text \<open>
  C32: A server that has started answers every request, and counts every answer once. Whatever the
  requests are, in whatever order, and whatever the database and the other servers do meanwhile:
  each request gets an answer with a status, none makes a handler panic, and afterwards every
  counter is the number of answers it stands for: by route and status those with that status to a
  request labelled with that route, by route all of them (as 64-bit integers). The label of a request
  is a mux pattern it matched, or other, never its path.
\<close>

theorem started_server_answers:
  assumes "main_plan (b_crypto B) engine aws pick os args = Inr (env, p)" and "p_task p = Serve s"
    and "serve_store B env p s w = (Inr st, at_vault (t_state t))"
    and "rivals_obey (b_crypto B) (st_index st) (\<lambda>_ _ _. True) (at_vault (t_state t))"
    and "serve_requests sha256 (p_clients s) (server_of (b_crypto B) allowN pick st s) moved reqs t zero_registry
      = (xs, t', g)"
  shows "length xs = length reqs \<and> list_all (\<lambda>x. reply_status x \<noteq> None) xs
    \<and> (\<exists>ls. list_all2 (\<lambda>(r, _) l. l \<in> matched r) reqs ls
        \<and> (\<forall>route n. counter (m_requests g) (route, n)
             = of_nat (length (filter (\<lambda>(l, x). l = route \<and> reply_status x = Some n) (zip ls xs))))
        \<and> (\<forall>route. counter (m_count g) route = of_nat (length (filter (\<lambda>l. l = route) ls))))"
proof -
  have "plan_serve pick os = Inr s" using main_plan_serve [OF assms(1,2)] by simp
  then obtain sc where "Load pick (read_file os) (getenv os ''SEALBOX_SCHEMA'') = Inr sc" "p_schema s = sc"
    by (auto simp: plan_serve_def Let_def split: sum.splits if_splits)
  then have "maps_ok (p_schema s) \<and> schema_ok (p_schema s)" using Load_sound by blast
  then have a: "length xs = length reqs" "list_all (\<lambda>x. reply_status x \<noteq> None) xs"
      and g: "g = observe_all (observations reqs xs) zero_registry"
    using serve_requests_answer [OF _ _ assms(5)] assms(4) by (simp_all add: vault_inv_def)
  have "list_all2 (\<lambda>(r, _) l. l \<in> matched r) reqs (map (counted_route \<circ> fst) reqs)"
    by (auto simp: list_all2_map2 list_all2_same matched_def)
  with a observed_counters [OF a g] show ?thesis by blast
qed

text \<open>The sample installation serves a health check, and a request with a wrong key.\<close>

definition sample_goose :: "unit goose" where
  "sample_goose = \<lparr>g_files = Inr (), g_locker = Inr (), g_provider = (\<lambda>w. (Inr (), w)), g_up = (\<lambda>w. (Inr (), w))\<rparr>"

definition sample_backend :: "unit backend" where
  "sample_backend =
     \<lparr>b_crypto = sample_crypto, b_goose = sample_goose, b_query_version = (\<lambda>w. (Inr 2, w)),
      b_migrations = 2\<rparr>"

definition get_health :: request where
  "get_health = ask ''nobody'' ''GET'' [''healthz''] [] []"

lemma sample_plan:
  assumes "main_plan sample_crypto engine aws (\<lambda>ks. ks) sample_os args = Inr (env, p)"
  shows "env = st_env rotated_store"
proof -
  have "loadMasterKeys sample_os = Inr [sample_key CHR ''b'', sample_key CHR ''a'']"
    using sample_master_keys by (simp add: sample_key_def)
  then have "loadWrappers sample_crypto engine aws sample_os
      = Inr [local_wrapper sample_crypto (sample_key CHR ''b''), local_wrapper sample_crypto (sample_key CHR ''a'')]"
    by (simp add: loadWrappers_def NewLocal_def KeySize_def sample_env sample_key_def)
  with assms show ?thesis
    by (auto simp: main_plan_def Let_def rotated_store_def local_env_def split: sum.splits list.splits if_splits)
qed

lemma sample_opened:
  "\<exists>st. open_store sample_backend (st_env rotated_store) migrate put_world = (Inr st, started_world)
     \<and> st_env st = st_env rotated_store"
proof -
  have "\<not> isl (fst (loadIndexKey sample_crypto (st_env rotated_store) put_world))" by code_simp
  then obtain ix where "loadIndexKey sample_crypto (st_env rotated_store) put_world = (Inr ix, started_world)"
    by (metis prod.collapse started_world_def sum.collapse(2))
  then show ?thesis by (simp add: open_store_def OpenStore_def sample_backend_def sample_goose_def migrateUp_def schemaCurrent_def)
qed

lemma sample_opens: "\<exists>st. serve_store sample_backend (st_env rotated_store) p s put_world = (Inr st, started_world)"
  using sample_opened [of "p_migrate p"] by (auto simp: serve_store_def)

theorem started_server_answers_witness:
  "\<exists>env p s st t' g xs. main_plan sample_crypto no_engine NewAWSKMS_stub (\<lambda>ks. ks) sample_os [] = Inr (env, p)
     \<and> p_task p = Serve s \<and> serve_store sample_backend env p s put_world = (Inr st, started_world)
     \<and> serve_requests (\<lambda>k. k) (p_clients s) (server_of sample_crypto sample_allow (\<lambda>ks. ks) st s) 301
         [(get_health, 1), (get_full, 1)] \<lparr>t_patterns = [], t_state = site_of started_world\<rparr> zero_registry = (xs, t', g)
     \<and> length xs = 2 \<and> list_all (\<lambda>x. reply_status x \<noteq> None) xs
     \<and> counter (m_count g) ''GET /healthz'' = 1"
proof -
  obtain env p s where plan: "main_plan sample_crypto no_engine NewAWSKMS_stub (\<lambda>ks. ks) sample_os [] = Inr (env, p)"
    and s: "p_task p = Serve s" using sample_start [of sample_crypto no_engine NewAWSKMS_stub] by blast
  obtain st where st: "serve_store sample_backend env p s put_world = (Inr st, started_world)"
    using sample_opens [of p s] by (auto simp: sample_plan [OF plan])
  let ?t = "\<lparr>t_patterns = [], t_state = site_of started_world\<rparr>"
  let ?srv = "server_of sample_crypto sample_allow (\<lambda>ks. ks) st s"
  let ?reqs = "[(get_health, 1), (get_full, 1)] :: (request \<times> float64) list"
  obtain xs t' g where run: "serve_requests (\<lambda>k. k) (p_clients s) ?srv 301 ?reqs ?t zero_registry = (xs, t', g)"
    by (metis surj_pair)
  have c: "b_crypto sample_backend = sample_crypto" by (simp add: sample_backend_def)
  have w: "at_vault (t_state ?t) = started_world" by (simp add: site_of_def)
  have rv: "rivals_obey sample_crypto (st_index st) (\<lambda>_ _ _. True) (at_vault (t_state ?t))"
    unfolding w by (simp add: rivals_obey_def started_rivals)
  have st': "serve_store sample_backend env p s put_world = (Inr st, at_vault (t_state ?t))"
    unfolding w by (rule st)
  note ans = started_server_answers [where B = sample_backend, unfolded c, OF plan s st' rv run]
  then have all: "length xs = 2" "list_all (\<lambda>x. reply_status x \<noteq> None) xs" by simp_all
  from ans obtain ls where ls: "list_all2 (\<lambda>(r, _) l. l \<in> matched r) ?reqs ls"
    and n: "counter (m_count g) ''GET /healthz'' = of_nat (length (filter (\<lambda>l. l = ''GET /healthz'') ls))"
    by blast
  have health: "matched get_health = {''GET /healthz''}" and full: "''GET /healthz'' \<notin> matched get_full"
    by (simp_all add: matched_def) code_simp+
  from ls obtain l1 l2 where "ls = [l1, l2]" "l1 = ''GET /healthz''" "l2 \<noteq> ''GET /healthz''"
    using health full by (auto simp: list_all2_Cons1)
  with n have "counter (m_count g) ''GET /healthz'' = 1" by simp
  with all plan s st run show ?thesis by auto
qed

section \<open>The exit status of a rotation\<close>

lemma loadIndexKey_work:
  fixes w :: "'k world"
  assumes "work.rely (rotate_job (CurrentKeyID env) ip) (rekey_job (CurrentKeyID env)) w"
    and "loadIndexKey C env w = (x, w')"
  shows "work.guar (rotate_job (CurrentKeyID env) ip) (rekey_job (CurrentKeyID env)) w w'"
proof -
  let ?J = "rotate_job (CurrentKeyID env) ip" and ?K = "rekey_job (CurrentKeyID env)"
  obtain p and w0 :: "'k world" where o: "on_host (rand_read KeySize) w = (p, w0)" by (metis surj_pair)
  obtain r1 and w1 :: "'k world" where s: "on_host (Seal C env p indexKeyAAD) w0 = (r1, w1)" by (metis surj_pair)
  have g1: "work.guar ?J ?K w w1"
    using work.guar_frame [OF on_host_frame [OF o]] work.guar_frame [OF on_host_frame [OF s]]
    by (rule work.guar_trans)
  show ?thesis
  proof (cases r1)
    case (Inl e)
    with assms(2) o s g1 show ?thesis by (simp add: loadIndexKey_def)
  next
    case (Inr sl)
    let ?row = "\<lparr>k_name = indexKeyName, k_key_id = s_key_id sl, k_wrapped = s_wrapped sl,
      k_ciphertext = s_ciphertext sl\<rparr>"
    have "s_key_id sl = CurrentKeyID env"
      using s Inr by (auto simp: on_host_def Seal_def CurrentKeyID_def split: prod.splits sum.splits)
    then have "work.stmt_ok ?J ?K (\<lambda>_. True) (sql_insert_key ?row)"
      by (auto simp: work.stmt_ok_def sql_insert_key_def no_new_work_def waiting_def waiting_keys_def
          rekey_job_def)
    moreover obtain r2 and w2 :: "'k world" where i: "pool_exec (sql_insert_key ?row) w1 = (r2, w2)"
      by (metis surj_pair)
    ultimately have "work.guar ?J ?K w1 w2"
      by (intro work.guar_pool_exec [OF work.guar_rely [OF g1 assms(1)] work.stable_True TrueI])
    note g2 = work.guar_trans [OF g1 this]
    obtain r3 and w3 :: "'k world" where q: "pool_exec (sql_select_key indexKeyName) w2 = (r3, w3)"
      by (metis surj_pair)
    have "work.guar ?J ?K w2 w3"
      by (rule work_query [OF work.guar_rely [OF g2 assms(1)] _ q]) (auto dest: sql_select_key_Inr)
    note g3 = work.guar_trans [OF g2 this]
    have g4: "work.guar ?J ?K w w4" if "on_host (Open C env (sealed_key k) indexKeyAAD) w3 = (r4, w4)" for k r4 w4
      by (rule work.guar_trans [OF g3 work.guar_frame [OF on_host_frame [OF that]]])
    show ?thesis
      using assms(2) o s Inr i q g2 g3
      by (auto simp: loadIndexKey_def split: sum.splits prod.splits dest: g4)
  qed
qed

text \<open>The migrations are in place: opening the store neither changes the database nor waits for others.\<close>

definition migrated :: "'k backend \<Rightarrow> bool" where
  "migrated B \<longleftrightarrow> (\<forall>w. frame w (snd (migrateUp (b_goose B) w)) \<and> frame w (snd (b_query_version B w)))"

lemma open_store_opens:
  fixes w :: "'k world"
  assumes "migrated B" and "open_store B env migrate w = (Inr st, w')"
  shows "\<exists>w1 :: 'k world. frame w w1 \<and> loadIndexKey (b_crypto B) env w1 = (Inr (st_index st), w') \<and> st_env st = env"
proof -
  obtain x and w1 :: "'k world" where m: "(if migrate then migrateUp (b_goose B) w
      else (case b_query_version B w of (q, w1) \<Rightarrow> (schemaCurrent (b_migrations B) q, w1))) = (x, w1)"
    by (metis surj_pair)
  then have "frame w w1"
    using assms(1) by (auto simp: migrated_def split: if_splits prod.splits dest!: spec [of _ w])
  with m assms(2) show ?thesis
    by (auto simp: open_store_def OpenStore_def split: sum.splits prod.splits)
qed

lemma list_all2_map_eq: "list_all2 (\<lambda>x y. y = f x) xs ys \<Longrightarrow> ys = map f xs"
  by (induction rule: list_all2_induct) simp_all

lemma master_keys_env:
  fixes engine :: "'k engine" and env :: "'k host envelope"
  assumes "main_plan C engine aws pick os args = Inr (env, p)"
    and "loadMasterKeys os = Inr (k # ks)" and "getenv os ''SEALBOX_KMS'' = ''local''"
  shows "env = local_env C k ks"
proof -
  obtain ws :: "'k host wrapper list" where ws: "loadWrappers C engine aws os = Inr ws"
    and env: "env = new_envelope (hd ws) (tl ws)"
    using assms(1) by (auto simp: main_plan_def Let_def split: sum.splits if_splits)
  from ws assms(2,3) have "try_map (NewLocal C) (k # ks) = Inr ws"
    by (auto simp: loadWrappers_def split: sum.splits if_splits)
  moreover from this have "list_all2 (\<lambda>x y. y = local_wrapper C x) (k # ks) ws"
    unfolding try_map_Inr by (rule list_all2_mono) (auto simp: NewLocal_def split: if_splits)
  then have "ws = map (local_wrapper C) (k # ks)" by (rule list_all2_map_eq)
  ultimately show ?thesis by (simp add: env local_env_def)
qed

text \<open>
  C33: Exit status 0 of sealbox rotate means that the old master keys are no longer needed. When the
  command ends with status 0, the database it leaves, with every live object and the blind-index
  key in it, is readable with the first of its master keys alone, although servers worked on it
  meanwhile. The servers keep to the specification and add nothing under another key; a key row the
  start itself inserts is already under the new one.
\<close>

theorem rotate_exit_zero:
  fixes engine :: "'k engine" and w :: "'k world"
  assumes "main_plan (b_crypto B) engine aws pick os [''rotate''] = Inr (env, p)"
    and "loadMasterKeys os = Inr (k # ks)" and "getenv os ''SEALBOX_KMS'' = ''local''"
    and "valid_keys (b_crypto B) (k # ks)" and "migrated B"
    and "\<And>ix. rivals_obey (b_crypto B) ix (reads (b_crypto B) (k # ks)) w"
    and "\<And>n d. no_new_work (rotate_job (KeyID (b_crypto B) k) False) (rekey_job (KeyID (b_crypto B) k)) d (w_rivals w n d)"
    and "db_ok (reads (b_crypto B) (k # ks)) (w_db w)"
    and "[] \<notin> o_id ` set (objects (w_db w))" and "only_index_key (w_db w)"
    and "run_rotate fuel B env (p_migrate p) w = (Some Done, w')"
  shows "db_ok (reads (b_crypto B) [k]) (w_db w')"
proof -
  let ?C = "b_crypto B" and ?G = "reads (b_crypto B) (k # ks)"
  let ?J = "rotate_job (KeyID (b_crypto B) k) False" and ?K = "rekey_job (KeyID (b_crypto B) k)"
  note env = master_keys_env [OF assms(1-3)]
  obtain r and w2 :: "'k world" where os: "open_store B env (p_migrate p) w = (r, w2)" by (metis surj_pair)
  with assms(11) obtain st where r: "r = Inr st" by (cases r) (auto simp: run_rotate_def)
  from assms(11) os r obtain n where run: "Rotate fuel st w2 = (Some ((n, 0), None), w')"
    by (auto simp: run_rotate_def split: prod.splits option.splits if_splits)
  from open_store_opens [OF assms(5) os [unfolded r]] obtain w1 :: "'k world" where f: "frame w w1"
    and ik: "loadIndexKey ?C env w1 = (Inr (st_index st), w2)" and e: "st_env st = env" by blast
  have rl: "work.rely ?J ?K w1" using assms(7) f by (simp add: work.rely_def frame_def)
  have cur: "CurrentKeyID env = KeyID ?C k" by (simp add: env)
  from loadIndexKey_work [OF _ ik, of False] rl cur have gw: "work.guar ?J ?K w1 w2" by simp
  have "trusted ?C ?G env" unfolding env by (rule trusted_local [OF assms(4)]) simp
  moreover have "spec.rely ?C (st_index st) ?G w1" using assms(6) f by (simp add: rely_iff rivals_obey_def frame_def)
  ultimately have gs: "spec.guar ?C (st_index st) ?G w1 w2" using ik by (rule guar_loadIndexKey)
  have db: "w_db w1 = w_db w" and rv: "w_rivals w2 = w_rivals w"
    using f gs by (simp_all add: frame_def spec.guar_def)
  show ?thesis
  proof (rule clean_rotation [OF assms(4) _ _ _ _ _ _ run])
    show "st_env st = local_env ?C k ks" by (simp add: e env)
    show "rivals_obey ?C (st_index st) ?G w2" using assms(6) by (simp add: rivals_obey_def rv)
    show "no_new_work ?J ?K d (w_rivals w2 n d)" for n d using assms(7) by (simp add: rv)
    show "db_ok ?G (w_db w2)" by (rule spec.stable_guar [OF stable_db_ok gs]) (simp add: db assms(8))
    show "[] \<notin> fst ` waiting ?J (w_db w2)"
      using no_empty_id_waiting [OF assms(9)] gw db by (auto simp: work.guar_def no_new_work_def)
    show "fst ` waiting_keys ?K (w_db w2) \<subseteq> {indexKeyName}"
      using only_index_key_waiting [OF assms(10)] gw db by (fastforce simp: work.guar_def no_new_work_def)
  qed
qed

text \<open>A rotation uses nothing of the store but its envelope.\<close>

lemma Rotate_env:
  assumes "st_env st = st_env st'"
  shows "Rotate fuel st = Rotate fuel st'"
proof -
  have 1: "rotate_row st = rotate_row st'"
    by (intro ext, unfold rotate_row_def assms, rule refl)
  have 2: "rotate_index_key st = rotate_index_key st'"
    by (intro ext, unfold rotate_index_key_def assms, rule refl)
  show ?thesis by (intro ext, unfold Rotate_def assms 1 2, rule refl)
qed

text \<open>The sample rotates what the old key has sealed.\<close>

theorem rotate_exit_zero_witness:
  "\<exists>env p w'. main_plan sample_crypto no_engine NewAWSKMS_stub (\<lambda>ks. ks) sample_os [''rotate''] = Inr (env, p)
     \<and> run_rotate 3 sample_backend env (p_migrate p) put_world = (Some Done, w')
     \<and> db_ok (reads sample_crypto [sample_key CHR ''b'']) (w_db w')"
proof -
  have keys: "loadMasterKeys sample_os = Inr (sample_key CHR ''b'' # [sample_key CHR ''a''])"
    using sample_master_keys by (simp add: sample_key_def)
  have ks: "sample_keys = sample_key CHR ''b'' # [sample_key CHR ''a'']" by (simp add: sample_keys_def)
  obtain ws where "loadWrappers sample_crypto no_engine NewAWSKMS_stub sample_os = Inr ws"
    using keys by (auto simp: loadWrappers_def NewLocal_def KeySize_def sample_env sample_key_def)
  then obtain env p where plan: "main_plan sample_crypto no_engine NewAWSKMS_stub (\<lambda>ks. ks) sample_os [''rotate''] = Inr (env, p)"
    by (auto simp: main_plan_def migrate_setting_def sample_env)
  obtain st where st: "open_store sample_backend env (p_migrate p) put_world = (Inr st, started_world)"
    and e: "st_env st = st_env rotated_store"
    using sample_opened [of "p_migrate p"] by (auto simp: sample_plan [OF plan])
  obtain w' where "Rotate 3 rotated_store started_world = (Some ((1, 0), None), w')"
    using rotated_one by (metis prod.collapse)
  with st Rotate_env [OF e] have run: "run_rotate 3 sample_backend env (p_migrate p) put_world = (Some Done, w')"
    by (simp add: run_rotate_def)
  have c: "b_crypto sample_backend = sample_crypto" by (simp add: sample_backend_def)
  have m: "migrated sample_backend" by (simp add: migrated_def sample_backend_def sample_goose_def migrateUp_def frame_def)
  note ok = sample_ok(3) [OF sample_trusted(1), unfolded ks]
  have r: "rivals_obey sample_crypto ix G put_world" "no_new_work J K d (w_rivals put_world n d)" for ix G J K d n
    by (simp_all add: rivals_obey_def no_new_work_def put_rivals)
  have ids: "[] \<notin> o_id ` set (objects (w_db put_world))" and names: "only_index_key (w_db put_world)"
    by code_simp+
  have kms: "getenv sample_os ''SEALBOX_KMS'' = ''local''" by (simp add: sample_env)
  from rotate_exit_zero [where B = sample_backend, unfolded c, OF plan keys kms sample_valid [unfolded ks] m r ok
      ids names run] plan run
  show ?thesis by blast
qed

end
