(* ===== verification/ClientLib.thy ===== *)
theory ClientLib
  imports JsonCodec
begin

text \<open>
  The Go client (client/client.go): how a call becomes an HTTP request, and an HTTP answer a
  result. The network is a function from the request to an error or to a status and a body, on a
  state of its own. What the caller stores comes marshalled, and what it reads is handed to the
  caller's own decoding.

  A call that fails returns its error alone: what Go leaves in the other results is not a value
  the caller may use.
\<close>

section \<open>Escaping\<close>

text \<open>\<open>url.PathEscape\<close> and \<open>url.QueryEscape\<close>, and their inverses.\<close>

definition upper_hex :: "nat \<Rightarrow> char" where
  "upper_hex n = (if n < 10 then char_of (0x30 + n) else char_of (0x41 + n - 10))"

definition percent :: "char \<Rightarrow> string" where
  "percent c = [CHR ''%'', upper_hex (byte c div 16), upper_hex (byte c mod 16)]"

definition unreserved :: "char \<Rightarrow> bool" where
  "unreserved c \<longleftrightarrow> is_digit c \<or> (0x41 \<le> byte c \<and> byte c \<le> 0x5A) \<or> (0x61 \<le> byte c \<and> byte c \<le> 0x7A)
     \<or> c \<in> set ''-_.~''"

definition PathEscape :: "string \<Rightarrow> string" where
  "PathEscape s = concat (map (\<lambda>c. if unreserved c \<or> c \<in> set ''$&+:=@'' then [c] else percent c) s)"

definition QueryEscape :: "string \<Rightarrow> string" where
  "QueryEscape s =
     concat (map (\<lambda>c. if c = CHR '' '' then ''+'' else if unreserved c then [c] else percent c) s)"

fun unescape_url :: "bool \<Rightarrow> string \<Rightarrow> string option" where
  "unescape_url query [] = Some []"
| "unescape_url query (c # s) =
     (if c = CHR ''%'' then
        (case s of
           a # b # t \<Rightarrow>
             (case (hex_val a, hex_val b) of
                (Some h, Some l) \<Rightarrow> map_option ((#) (char_of (16 * h + l))) (unescape_url query t)
              | _ \<Rightarrow> None)
         | _ \<Rightarrow> None)
      else map_option ((#) (if query \<and> c = CHR ''+'' then CHR '' '' else c)) (unescape_url query s))"

section \<open>Requests\<close>

record api_client =
  ac_base :: string
  ac_key :: string

record outgoing =
  q_method :: string
  q_url :: string
  q_authorization :: string
  q_body :: "bytes option"

type_synonym 'w network = "outgoing \<Rightarrow> 'w \<Rightarrow> (nat \<times> bytes) result \<times> 'w"

datatype call_error =
    Not_marshalled goerr
  | Not_sent goerr
  | Object_not_found
  | Refused_with nat string
  | Not_decoded

definition NewClient :: "string \<Rightarrow> string \<Rightarrow> api_client" where
  "NewClient base key = \<lparr>ac_base = trim_right base ''/'', ac_key = key\<rparr>"

definition collectionPath :: "string \<Rightarrow> string" where
  "collectionPath collection = ''/v1/collections/'' @ PathEscape collection"

section \<open>Reading answers\<close>

text \<open>
  \<open>json.Decoder\<close>: the first value of the body, and \<open>None\<close> when there is none. A struct is filled
  member by member.
\<close>

definition first_value :: "bytes \<Rightarrow> bytes option" where
  "first_value s =
     (case pval (parse_fuel s) s of
        None \<Rightarrow> None
      | Some (v, r) \<Rightarrow> if shallow v then Some (raw_text s r) else None)"

fun take_members ::
  "(string \<Rightarrow> bytes \<Rightarrow> jval \<Rightarrow> 's \<Rightarrow> 's option) \<Rightarrow> 's \<Rightarrow> (string \<times> bytes \<times> jval) list \<Rightarrow> 's option" where
  "take_members f s [] = Some s"
| "take_members f s ((k, raw, v) # ms) =
     (case unquote k of
        None \<Rightarrow> None
      | Some key \<Rightarrow> (case f key raw v s of None \<Rightarrow> None | Some s' \<Rightarrow> take_members f s' ms))"

definition decode_struct ::
  "(string \<Rightarrow> bytes \<Rightarrow> jval \<Rightarrow> 's \<Rightarrow> 's option) \<Rightarrow> 's \<Rightarrow> bytes \<Rightarrow> 's option" where
  "decode_struct f init body =
     (case first_value body of
        None \<Rightarrow> None
      | Some raw \<Rightarrow>
          (case json_parse raw of
             Some (JObj _) \<Rightarrow> take_members f init (object_members raw)
           | Some (JLit l) \<Rightarrow> if l = ''null'' then Some init else None
           | _ \<Rightarrow> None))"

text \<open>The message of a refusal. A member of another type is passed over, and no error is reported.\<close>

definition error_member :: "string \<Rightarrow> bytes \<Rightarrow> jval \<Rightarrow> string \<Rightarrow> string option" where
  "error_member key raw v old =
     Some (if names_field key ''error'' then (case string_of_val old v of None \<Rightarrow> old | Some m \<Rightarrow> m) else old)"

definition error_message :: "bytes \<Rightarrow> string" where
  "error_message body = (case decode_struct error_member [] body of None \<Rightarrow> [] | Some m \<Rightarrow> m)"

definition id_member :: "string \<Rightarrow> bytes \<Rightarrow> jval \<Rightarrow> string \<Rightarrow> string option" where
  "id_member key raw v old = (if names_field key ''id'' then string_of_val old v else Some old)"

definition ids_member :: "string \<Rightarrow> bytes \<Rightarrow> jval \<Rightarrow> string_slice \<Rightarrow> string_slice option" where
  "ids_member key raw v old = (if names_field key ''ids'' then slice_of_val old v else Some old)"

definition found_member ::
  "string \<Rightarrow> bytes \<Rightarrow> jval \<Rightarrow> bytes gomap \<times> string_slice \<Rightarrow> (bytes gomap \<times> string_slice) option" where
  "found_member key raw v st =
     (case st of (objs, missing) \<Rightarrow>
        if names_field key ''objects'' then
          (case v of
             JObj _ \<Rightarrow> map_option (\<lambda>m. (m, missing)) (put_members objs (object_members raw))
           | JLit l \<Rightarrow> if l = ''null'' then Some ([], missing) else None
           | _ \<Rightarrow> None)
        else if names_field key ''missing'' then map_option (\<lambda>sl. (objs, sl)) (slice_of_val missing v)
        else Some st)"

definition page_member ::
  "string \<Rightarrow> bytes \<Rightarrow> jval \<Rightarrow> string_slice \<times> string \<Rightarrow> (string_slice \<times> string) option" where
  "page_member key raw v st =
     (case st of (ids, next) \<Rightarrow>
        if names_field key ''ids'' then map_option (\<lambda>sl. (sl, next)) (slice_of_val ids v)
        else if names_field key ''next'' then map_option (\<lambda>n. (ids, n)) (string_of_val next v)
        else Some st)"

record named_ref =
  nr_collection :: string
  nr_id :: string

definition ref_member :: "string \<Rightarrow> bytes \<Rightarrow> jval \<Rightarrow> named_ref \<Rightarrow> named_ref option" where
  "ref_member key raw v old =
     (if names_field key ''collection''
      then map_option (\<lambda>c. old\<lparr>nr_collection := c\<rparr>) (string_of_val (nr_collection old) v)
      else if names_field key ''id'' then map_option (\<lambda>i. old\<lparr>nr_id := i\<rparr>) (string_of_val (nr_id old) v)
      else Some old)"

definition ref_of_val :: "named_ref \<Rightarrow> jval \<Rightarrow> named_ref option" where
  "ref_of_val old v =
     (case v of
        JObj ms \<Rightarrow> take_members ref_member old (map (\<lambda>(k, x). (k, [], x)) ms)
      | JLit l \<Rightarrow> if l = ''null'' then Some old else None
      | _ \<Rightarrow> None)"

text \<open>As for strings, a slice that is decoded twice keeps its backing array.\<close>

fun fill_refs :: "named_ref list \<Rightarrow> jval list \<Rightarrow> named_ref list option" where
  "fill_refs old [] = Some []"
| "fill_refs old (v # vs) =
     (case ref_of_val (case old of [] \<Rightarrow> \<lparr>nr_collection = [], nr_id = []\<rparr> | x # _ \<Rightarrow> x) v of
        None \<Rightarrow> None
      | Some x \<Rightarrow> map_option (\<lambda>xs. x # xs) (fill_refs (tl old) vs))"

definition refs_member ::
  "string \<Rightarrow> string \<Rightarrow> bytes \<Rightarrow> jval \<Rightarrow> named_ref list \<times> nat \<Rightarrow> (named_ref list \<times> nat) option" where
  "refs_member name key raw v st =
     (if names_field key name then
        (case v of
           JArr [] \<Rightarrow> Some ([], 0)
         | JArr vs \<Rightarrow> map_option (\<lambda>xs. (xs @ drop (length xs) (fst st), length xs)) (fill_refs (fst st) vs)
         | JLit l \<Rightarrow> if l = ''null'' then Some ([], 0) else None
         | _ \<Rightarrow> None)
      else Some st)"

section \<open>The call\<close>

text \<open>
  \<open>do\<close>: \<open>inp\<close> is what \<open>json.Marshal\<close> made of the input, if there is one. Building the request and
  sending it both come from the network; either's error is returned as it is.
\<close>

definition do_call ::
  "'w network \<Rightarrow> api_client \<Rightarrow> string \<Rightarrow> string \<Rightarrow> bytes result option \<Rightarrow> (bytes \<Rightarrow> 'a option) \<Rightarrow> 'w
   \<Rightarrow> (call_error + 'a) \<times> 'w" where
  "do_call send c method path inp out w =
     (case (case inp of None \<Rightarrow> Inr None | Some (Inl e) \<Rightarrow> Inl e | Some (Inr b) \<Rightarrow> Inr (Some b)) of
        Inl e \<Rightarrow> (Inl (Not_marshalled e), w)
      | Inr body \<Rightarrow>
     (case send \<lparr>q_method = method, q_url = ac_base c @ path, q_authorization = ''Bearer '' @ ac_key c,
                 q_body = body\<rparr> w of
        (Inl e, w1) \<Rightarrow> (Inl (Not_sent e), w1)
      | (Inr (status, answer), w1) \<Rightarrow>
          if status < 200 \<or> status > 299 then
            (let m = error_message answer in
             (Inl (if status = 404 \<and> m = ''object not found'' then Object_not_found
                   else Refused_with status m), w1))
          else (case out answer of None \<Rightarrow> (Inl Not_decoded, w1) | Some x \<Rightarrow> (Inr x, w1))))"

text \<open>The inputs the client marshals itself; \<open>None\<close> is a nil slice.\<close>

definition json_array :: "bytes list option \<Rightarrow> bytes" where
  "json_array vs = (case vs of None \<Rightarrow> ''null'' | Some xs \<Rightarrow> CHR ''['' # join '','' xs @ [CHR '']''])"

definition json_object :: "(string \<times> bytes) list \<Rightarrow> bytes" where
  "json_object ms = CHR ''{'' # join '','' (map (\<lambda>(k, v). quote_string k @ CHR '':'' # v) ms) @ [CHR ''}'']"

text \<open>\<open>obj\<close> is \<open>None\<close> for Go's nil, which sends no body; \<open>out\<close> decodes into the caller's variable.\<close>

definition CreateObject ::
  "'w network \<Rightarrow> api_client \<Rightarrow> string \<Rightarrow> bytes result option \<Rightarrow> 'w \<Rightarrow> (call_error + string) \<times> 'w" where
  "CreateObject send c collection obj =
     do_call send c ''POST'' (collectionPath collection @ ''/objects'') obj (decode_struct id_member [])"

definition CreateBatch ::
  "'w network \<Rightarrow> api_client \<Rightarrow> string \<Rightarrow> bytes result list option \<Rightarrow> 'w \<Rightarrow> (call_error + string list) \<times> 'w" where
  "CreateBatch send c collection objs =
     do_call send c ''POST'' (collectionPath collection @ ''/objects/batch'')
       (Some (case (case objs of None \<Rightarrow> Inr None | Some xs \<Rightarrow>
                      (case try_map (\<lambda>x. x) xs of Inl e \<Rightarrow> Inl e | Inr bs \<Rightarrow> Inr (Some bs))) of
                Inl e \<Rightarrow> Inl e | Inr bs \<Rightarrow> Inr (json_object [(''objects'', json_array bs)])))
       (\<lambda>b. map_option slice_strings (decode_struct ids_member ([], 0) b))"

definition GetObject ::
  "'w network \<Rightarrow> api_client \<Rightarrow> string \<Rightarrow> string \<Rightarrow> bool \<Rightarrow> (bytes \<Rightarrow> 'a option) \<Rightarrow> 'w
   \<Rightarrow> (call_error + 'a) \<times> 'w" where
  "GetObject send c collection oid full out =
     do_call send c ''GET'' (collectionPath collection @ ''/objects/'' @ PathEscape oid
         @ (if full then ''?reveal=full'' else []))
       None (\<lambda>b. Option.bind (first_value b) out)"

definition Reveal ::
  "'w network \<Rightarrow> api_client \<Rightarrow> string \<Rightarrow> string list option \<Rightarrow> bool \<Rightarrow> 'w
   \<Rightarrow> (call_error + bytes gomap \<times> string list) \<times> 'w" where
  "Reveal send c collection ids full =
     do_call send c ''POST'' (collectionPath collection @ ''/objects/reveal'')
       (Some (Inr (json_object [(''ids'', json_array (map_option (map quote_string) ids)),
                                (''reveal'', quote_string (if full then ''full'' else ''masked''))])))
       (\<lambda>b. map_option (\<lambda>(objs, missing). (objs, slice_strings missing))
          (decode_struct found_member ([], ([], 0)) b))"

definition DeleteObject ::
  "'w network \<Rightarrow> api_client \<Rightarrow> string \<Rightarrow> string \<Rightarrow> 'w \<Rightarrow> (call_error + unit) \<times> 'w" where
  "DeleteObject send c collection oid =
     do_call send c ''DELETE'' (collectionPath collection @ ''/objects/'' @ PathEscape oid) None (\<lambda>_. Some ())"

definition SearchAfter ::
  "'w network \<Rightarrow> api_client \<Rightarrow> string \<Rightarrow> string \<Rightarrow> string \<Rightarrow> string \<Rightarrow> 'w
   \<Rightarrow> (call_error + string list \<times> string) \<times> 'w" where
  "SearchAfter send c collection f x after =
     do_call send c ''POST'' (collectionPath collection @ ''/search''
         @ (if after \<noteq> [] then ''?after='' @ QueryEscape after else []))
       (Some (Inr (json_object [(f, quote_string x)])))
       (\<lambda>b. map_option (\<lambda>(ids, next). (slice_strings ids, next)) (decode_struct page_member (([], 0), []) b))"

definition SearchFirst ::
  "'w network \<Rightarrow> api_client \<Rightarrow> string \<Rightarrow> string \<Rightarrow> string \<Rightarrow> 'w \<Rightarrow> (call_error + string list) \<times> 'w" where
  "SearchFirst send c collection f x w =
     (case SearchAfter send c collection f x [] w of
        (Inl e, w1) \<Rightarrow> (Inl e, w1) | (Inr (ids, _), w1) \<Rightarrow> (Inr ids, w1))"

definition SubjectRefs ::
  "'w network \<Rightarrow> api_client \<Rightarrow> string \<Rightarrow> 'w \<Rightarrow> (call_error + named_ref list) \<times> 'w" where
  "SubjectRefs send c who =
     do_call send c ''GET'' (''/v1/subjects/'' @ PathEscape who) None
       (\<lambda>b. map_option (\<lambda>(refs, n). take n refs) (decode_struct (refs_member ''objects'') ([], 0) b))"

definition Erase ::
  "'w network \<Rightarrow> api_client \<Rightarrow> string \<Rightarrow> 'w \<Rightarrow> (call_error + named_ref list) \<times> 'w" where
  "Erase send c who =
     do_call send c ''DELETE'' (''/v1/subjects/'' @ PathEscape who) None
       (\<lambda>b. map_option (\<lambda>(refs, n). take n refs) (decode_struct (refs_member ''erased'') ([], 0) b))"

end
