(* ===== verification/JsonScan.thy ===== *)
theory JsonScan
  imports JsonCodec
begin

text \<open>
  What the JSON scanner accepts, as predicates on texts: the bodies of strings and the scalars. A text
  it accepts it accepts wherever it stands, and escaping for HTML leaves the body of a string one.
\<close>

section \<open>String bodies\<close>

inductive str_body :: "string \<Rightarrow> bool" where
  body_Nil: "str_body []"
| body_plain: "\<lbrakk>c \<noteq> quote; c \<noteq> backslash; \<not> byte c < 0x20; str_body b\<rbrakk> \<Longrightarrow> str_body (c # b)"
| body_escape: "\<lbrakk>e \<in> set [quote, backslash, CHR ''/'', CHR ''b'', CHR ''f'', CHR ''n'', CHR ''r'', CHR ''t'']; str_body b\<rbrakk>
    \<Longrightarrow> str_body (backslash # e # b)"
| body_u: "\<lbrakk>hex4 [h1, h2, h3, h4] \<noteq> None; str_body b\<rbrakk> \<Longrightarrow> str_body (backslash # CHR ''u'' # h1 # h2 # h3 # h4 # b)"

inductive_cases body_ConsE: "str_body (c # b)"

lemma backslash_neq_quote [simp]: "backslash \<noteq> quote" "quote \<noteq> backslash"
  by (simp_all add: quote_def backslash_def)

lemma u_no_escape: "CHR ''u'' \<notin> set [quote, backslash, CHR ''/'', CHR ''b'', CHR ''f'', CHR ''n'', CHR ''r'', CHR ''t'']"
  by (simp add: quote_def backslash_def)

lemma scan_body_body: "scan_body s = Some (b, r) \<Longrightarrow> str_body b \<and> s = b @ quote # r"
proof (induction s arbitrary: b rule: length_induct)
  case (1 s)
  then have IH: "scan_body w = Some (b', r) \<Longrightarrow> length w < length s \<Longrightarrow> str_body b' \<and> w = b' @ quote # r" for w b' by blast
  obtain c t where s: "s = c # t" using 1(2) by (cases s) simp_all
  consider "c = quote" | "c = backslash" | "c \<noteq> quote" "c \<noteq> backslash" by blast
  then show ?case
  proof cases
    case 1
    with \<open>scan_body s = Some (b, r)\<close> s show ?thesis by (simp add: body_Nil)
  next
    case c: 2
    obtain e u where t: "t = e # u" using 1(2) by (cases t) (simp_all add: s c)
    show ?thesis
    proof (cases "e = CHR ''u''")
      case e: True
      obtain h1 h2 h3 h4 w where u: "u = h1 # h2 # h3 # h4 # w" and h: "hex4 [h1, h2, h3, h4] \<noteq> None"
        using 1(2) u_no_escape unfolding s c t e by (simp split: list.splits if_splits del: hex4.simps)
      then obtain b' where w: "scan_body w = Some (b', r)" "b = backslash # CHR ''u'' # h1 # h2 # h3 # h4 # b'"
        using 1(2) u_no_escape unfolding s c t e by (auto simp del: hex4.simps)
      then have "str_body b' \<and> w = b' @ quote # r" by (intro IH) (simp_all add: s t u)
      with h show ?thesis by (simp add: body_u w s c t e u del: hex4.simps)
    next
      case False
      then obtain b' where w: "e \<in> set [quote, backslash, CHR ''/'', CHR ''b'', CHR ''f'', CHR ''n'', CHR ''r'', CHR ''t'']"
        "scan_body u = Some (b', r)" "b = backslash # e # b'"
        using 1(2) unfolding s c t by (auto split: if_splits)
      then have "str_body b' \<and> u = b' @ quote # r" by (intro IH) (simp_all add: s t)
      with w(1) show ?thesis by (simp only: body_escape w(3) s c t append.simps simp_thms)
    qed
  next
    case 3
    then obtain b' where w: "\<not> byte c < 0x20" "scan_body t = Some (b', r)" "b = c # b'"
      using 1(2) unfolding s by (auto split: if_splits)
    then have "str_body b' \<and> t = b' @ quote # r" by (intro IH) (simp_all add: s)
    with 3 w show ?thesis by (simp add: s body_plain)
  qed
qed

lemma body_scan: "str_body b \<Longrightarrow> scan_body (b @ quote # r) = Some (b, r)"
proof (induction rule: str_body.induct)
  case (body_u h1 h2 h3 h4 b)
  then show ?case using u_no_escape by (simp del: hex4.simps)
qed auto

lemma body_append: "str_body a \<Longrightarrow> str_body b \<Longrightarrow> str_body (a @ b)"
proof (induction rule: str_body.induct)
  case (body_u h1 h2 h3 h4 b)
  then show ?case by (simp add: str_body.body_u del: hex4.simps)
qed (auto intro: str_body.intros)

text \<open>Escaping leaves a body a body.\<close>

lemma html_escape_Cons:
  "line_sep (c # s) = None \<Longrightarrow> html_escape (c # s) = (if is_html c then u_escape (byte c) else [c]) @ html_escape s"
  by (simp add: html_escape.simps [of "c # s"])

lemma ascii_no_sep: "ascii c \<Longrightarrow> line_sep (c # s) = None"
  by (auto simp: line_sep_def ascii_def split: list.splits)

lemma html_escape_copy: "ascii c \<Longrightarrow> \<not> is_html c \<Longrightarrow> html_escape (c # s) = c # html_escape s"
  by (simp add: html_escape_Cons ascii_no_sep)

lemma hex_val_ascii: "hex_val c \<noteq> None \<Longrightarrow> ascii c \<and> \<not> is_html c"
  by (auto simp: hex_val_def is_digit_def ascii_def is_html_def byte_def split: if_splits)

lemma hex4_chars: "hex4 [a, b, c, d] \<noteq> None \<Longrightarrow> hex_val a \<noteq> None \<and> hex_val b \<noteq> None \<and> hex_val c \<noteq> None \<and> hex_val d \<noteq> None"
  by (auto split: option.splits)

lemma hex_val_digit: "n < 16 \<Longrightarrow> hex_val (hex_digit n) = Some n"
  by (auto simp: hex_digit_def hex_val_def is_digit_def)

lemma nibbles: "byte c div 16 < 16" "byte c mod 16 < 16"
  by (simp_all add: div_less_iff_less_mult)

lemma hex4_byte:
  assumes "byte c < 128"
  shows "hex4 (CHR ''0'' # CHR ''0'' # hex_digit (byte c div 16) # hex_digit (byte c mod 16) # s) = Some (byte c)"
proof -
  have "hex_val (CHR ''0'') = Some 0" by code_simp
  then show ?thesis by (simp add: hex_val_digit nibbles)
qed

lemma body_u_escape: "ascii c \<Longrightarrow> str_body b \<Longrightarrow> str_body (u_escape (byte c) @ b)"
  using hex4_byte [of c "[]"] by (simp add: ascii_def u_escape_def body_u del: hex4.simps)

lemma html_ascii: "is_html c \<Longrightarrow> ascii c"
  by (auto simp: is_html_def ascii_def byte_def)

lemma body_sep_escape: "d \<in> set ''89'' \<Longrightarrow> str_body b \<Longrightarrow> str_body (sep_escape d @ b)"
proof -
  assume "d \<in> set ''89''" "str_body b"
  moreover have "list_all (\<lambda>d. hex4 [CHR ''2'', CHR ''0'', CHR ''2'', d] \<noteq> None) ''89''" by code_simp
  ultimately show ?thesis by (auto simp: sep_escape_def simp del: hex4.simps intro!: body_u)
qed

lemma is_html_byte: "is_html c \<longleftrightarrow> byte c = 0x26 \<or> byte c = 0x3C \<or> byte c = 0x3E"
proof -
  have "byte (CHR ''&'') = 0x26" "byte (CHR ''<'') = 0x3C" "byte (CHR ''>'') = 0x3E" by (simp_all add: byte_def)
  then show ?thesis
    unfolding is_html_def using byte_inject [of c "CHR ''&''"] byte_inject [of c "CHR ''<''"] byte_inject [of c "CHR ''>''"]
    by auto
qed

lemma hex_digit_plain: "n < 16 \<Longrightarrow> ascii (hex_digit n) \<and> \<not> is_html (hex_digit n)"
  by (simp add: hex_digit_def is_html_byte ascii_def)

lemma escape_plain:
  "list_all (\<lambda>c. ascii c \<and> \<not> is_html c) [backslash, CHR ''u'', CHR ''0'', CHR ''2'', CHR ''8'', CHR ''9'']"
  by (simp add: is_html_byte ascii_def byte_def backslash_def)

lemma u_escape_plain: "ascii c \<Longrightarrow> list_all (\<lambda>c. ascii c \<and> \<not> is_html c) (u_escape (byte c))"
  using escape_plain hex_digit_plain [of "byte c div 16"] hex_digit_plain [of "byte c mod 16"]
  by (simp add: u_escape_def ascii_def)

lemma sep_escape_plain: "line_sep s = Some (d, r) \<Longrightarrow> list_all (\<lambda>c. ascii c \<and> \<not> is_html c) (sep_escape d)"
  using escape_plain by (auto simp: line_sep_def sep_escape_def split: list.splits if_splits)
lemma body_html: "str_body b \<Longrightarrow> str_body (html_escape b)"
proof (induction b rule: length_induct)
  case (1 b)
  from 1(2) show ?case
  proof (cases rule: str_body.cases)
    case body_Nil
    then show ?thesis by (simp add: html_escape.simps line_sep_def str_body.body_Nil)
  next
    case (body_plain c b')
    show ?thesis
    proof (cases "line_sep b")
      case None
      have "str_body (html_escape b')" using 1 body_plain by simp
      with None body_plain show ?thesis
        by (auto simp: html_escape_Cons simp: html_ascii intro: str_body.body_plain body_u_escape)
    next
      case (Some dr)
      then obtain x y d r where b: "b = c # x # y # r" and dr: "dr = (d, r)" "d \<in> set ''89''"
        and n: "byte x = 0x80" "byte y \<in> {0xA8, 0xA9}"
        using body_plain by (auto simp: line_sep_def split: list.splits if_splits)
      have "x \<noteq> backslash" "y \<noteq> backslash" using n by (auto simp: backslash_def byte_def)
      with body_plain b have "str_body r" by (auto elim!: body_ConsE)
      then have "str_body (html_escape r)" using 1 b by simp
      with Some dr show ?thesis by (simp add: html_escape.simps [of b] body_sep_escape)
    qed
  next
    case (body_escape e b')
    have "ascii backslash" "\<not> is_html backslash" "list_all (\<lambda>e. ascii e \<and> \<not> is_html e)
      [quote, backslash, CHR ''/'', CHR ''b'', CHR ''f'', CHR ''n'', CHR ''r'', CHR ''t'']" by code_simp+
    then have "html_escape b = backslash # e # html_escape b'"
      using body_escape by (simp only: list_all_iff) (metis html_escape_copy)
    moreover have "str_body (html_escape b')" using 1 body_escape by simp
    ultimately show ?thesis using body_escape by (auto intro: str_body.body_escape)
  next
    case (body_u h1 h2 h3 h4 b')
    have "ascii backslash \<and> \<not> is_html backslash \<and> ascii (CHR ''u'') \<and> \<not> is_html (CHR ''u'')" by code_simp
    then have "html_escape b = backslash # CHR ''u'' # h1 # h2 # h3 # h4 # html_escape b'"
      using body_u(1) hex4_chars [OF body_u(2)] hex_val_ascii by (simp add: html_escape_copy)
    moreover have "str_body (html_escape b')" using 1 body_u by simp
    ultimately show ?thesis using str_body.body_u [OF body_u(2)] by simp
  qed
qed

section \<open>Scalars\<close>

text \<open>What may follow a value: nothing, white space, or the punctuation of an array or object.\<close>

definition ends :: "string \<Rightarrow> bool" where
  "ends r \<longleftrightarrow> (case r of [] \<Rightarrow> True | c # _ \<Rightarrow> c \<in> set '',]}'' \<or> is_ws c)"

definition digits_only :: "string \<Rightarrow> bool" where
  "digits_only ds \<longleftrightarrow> ds \<noteq> [] \<and> list_all is_digit ds"

definition int_text :: "string \<Rightarrow> bool" where
  "int_text i \<longleftrightarrow> i = ''0'' \<or> digits_only i \<and> hd i \<noteq> CHR ''0''"

definition frac_text :: "string \<Rightarrow> bool" where
  "frac_text f \<longleftrightarrow> f = [] \<or> (\<exists>ds. f = CHR ''.'' # ds \<and> digits_only ds)"

definition exp_text :: "string \<Rightarrow> bool" where
  "exp_text e \<longleftrightarrow> e = [] \<or> (\<exists>c sg ds. e = c # sg @ ds \<and> c \<in> set ''eE'' \<and> sg \<in> set [[], ''+'', ''-''] \<and> digits_only ds)"

definition starts_other :: "(char \<Rightarrow> bool) \<Rightarrow> string \<Rightarrow> bool" where
  "starts_other P r \<longleftrightarrow> (case r of [] \<Rightarrow> True | c # _ \<Rightarrow> \<not> P c)"

lemma span_digits:
  assumes "list_all is_digit ds" and "starts_other is_digit r"
  shows "span_while is_digit (ds @ r) = (ds, r)"
  using assms by (induction ds) (auto simp: span_while_def starts_other_def split: list.splits)

lemma span_whileD: "span_while P s = (ds, r) \<Longrightarrow> s = ds @ r \<and> list_all P ds"
  by (auto simp: span_while_def list_all_iff dest: set_takeWhileD)

lemma ends_other:
  assumes "ends r"
  shows "starts_other is_digit r" "starts_other (\<lambda>c. c \<in> set ''.eE'') r"
proof -
  have p: "list_all (\<lambda>c. \<not> is_digit c \<and> c \<notin> set ''.eE'') '',]}''" by code_simp
  have "\<not> is_digit c \<and> c \<notin> set ''.eE''" if "is_ws c" for c
    using that by (auto simp: is_ws_def is_digit_def byte_def)
  with p assms show "starts_other is_digit r" "starts_other (\<lambda>c. c \<in> set ''.eE'') r"
    by (auto simp: ends_def starts_other_def list_all_iff split: list.splits)
qed

lemma scan_intD: "scan_int s = Some (i, r) \<Longrightarrow> int_text i \<and> s = i @ r"
  by (auto simp: scan_int_def int_text_def digits_only_def span_while_def list_all_iff dest: set_takeWhileD
      split: list.splits if_splits)

lemma scan_int_text: "int_text i \<Longrightarrow> starts_other is_digit r \<Longrightarrow> scan_int (i @ r) = Some (i, r)"
  using span_digits [of i r] by (cases i) (auto simp: scan_int_def int_text_def digits_only_def)

lemma scan_fracD: "scan_frac s = Some (f, r) \<Longrightarrow> frac_text f \<and> s = f @ r"
proof (cases "\<exists>t. s = CHR ''.'' # t")
  case True
  assume f: "scan_frac s = Some (f, r)"
  with True obtain d u where s: "s = CHR ''.'' # d # u" by (auto simp: scan_frac_def split: list.splits)
  obtain ds r' where span: "span_while is_digit (d # u) = (ds, r')" by (metis surj_pair)
  from f have "f = CHR ''.'' # ds" "r' = r" "is_digit d" by (simp_all add: s scan_frac_def span split: if_splits)
  moreover have "ds \<noteq> []" using span \<open>is_digit d\<close> by (auto simp: span_while_def)
  ultimately show ?thesis using span_whileD [OF span] by (simp add: s frac_text_def digits_only_def)
next
  case False
  assume "scan_frac s = Some (f, r)"
  with False show ?thesis by (auto simp: scan_frac_def frac_text_def split: list.splits)
qed

lemma scan_frac_text:
  assumes "frac_text f" and "starts_other is_digit r" and "starts_other (\<lambda>c. c = CHR ''.'') r"
  shows "scan_frac (f @ r) = Some (f, r)"
  using assms(1) unfolding frac_text_def
proof
  assume "f = []"
  with assms(3) show ?thesis by (auto simp: scan_frac_def starts_other_def split: list.splits)
next
  assume "\<exists>ds. f = CHR ''.'' # ds \<and> digits_only ds"
  then obtain d ds where "f = CHR ''.'' # d # ds" "list_all is_digit (d # ds)"
    by (auto simp: digits_only_def neq_Nil_conv)
  with span_digits [OF this(2) assms(2)] show ?thesis by (simp add: scan_frac_def)
qed

definition scan_sign :: "string \<Rightarrow> string \<times> string" where
  "scan_sign t = (case t of g # u \<Rightarrow> if g = CHR ''+'' \<or> g = CHR ''-'' then ([g], u) else ([], t) | [] \<Rightarrow> ([], t))"

lemma scan_signD: "scan_sign t = (sg, u) \<Longrightarrow> t = sg @ u \<and> sg \<in> set [[], ''+'', ''-'']"
  by (cases t) (auto simp: scan_sign_def split: if_splits)

lemma scan_exp_other: "starts_other (\<lambda>c. c \<in> set ''eE'') s \<Longrightarrow> scan_exp s = Some ([], s)"
  by (cases s) (simp_all add: scan_exp_def starts_other_def)

lemma scan_exp_Cons:
  assumes "c \<in> set ''eE''" and "scan_sign t = (sg, u)" and "span_while is_digit u = (ds, r)"
  shows "scan_exp (c # t) = (if ds = [] then None else Some (c # sg @ ds, r))"
proof -
  have "c = CHR ''e'' \<or> c = CHR ''E''" using assms(1) by simp
  then show ?thesis
    using assms(3) unfolding scan_exp_def list.case assms(2) [unfolded scan_sign_def] if_True by (simp only: if_True prod.case)
qed

lemma scan_expD:
  assumes "scan_exp s = Some (e, r)"
  shows "exp_text e \<and> s = e @ r"
proof (cases "starts_other (\<lambda>c. c \<in> set ''eE'') s")
  case True
  with assms show ?thesis by (simp add: scan_exp_other exp_text_def)
next
  case False
  then obtain c t where s: "s = c # t" "c \<in> set ''eE''" by (cases s) (simp_all add: starts_other_def)
  obtain sg u where sg: "scan_sign t = (sg, u)" by (metis surj_pair)
  obtain ds r' where span: "span_while is_digit u = (ds, r')" by (metis surj_pair)
  from assms scan_exp_Cons [OF s(2) sg span] have e: "e = c # sg @ ds" "r' = r" "ds \<noteq> []"
    by (simp_all add: s(1) split: if_splits)
  with span_whileD [OF span] scan_signD [OF sg] s(1) have "s = e @ r" "digits_only ds" by (simp_all add: digits_only_def)
  moreover have "exp_text e"
    unfolding exp_text_def e(1) using s(2) scan_signD [OF sg] \<open>digits_only ds\<close> by blast
  ultimately show ?thesis by simp
qed

lemma scan_exp_text:
  assumes "exp_text e" and "ends r"
  shows "scan_exp (e @ r) = Some (e, r)"
  using assms(1) unfolding exp_text_def
proof
  assume "e = []"
  have "starts_other (\<lambda>c. c \<in> set ''eE'') r" using ends_other(2) [OF assms(2)] by (simp add: starts_other_def split: list.splits)
  with \<open>e = []\<close> show ?thesis by (simp add: scan_exp_other)
next
  assume "\<exists>c sg ds. e = c # sg @ ds \<and> c \<in> set ''eE'' \<and> sg \<in> set [[], ''+'', ''-''] \<and> digits_only ds"
  then obtain c sg ds where e: "e = c # sg @ ds" "c \<in> set ''eE''" "sg \<in> set [[], ''+'', ''-'']" "digits_only ds" by blast
  obtain d ds' where d: "ds = d # ds'" "is_digit d" using e(4) by (cases ds) (simp_all add: digits_only_def)
  have "d \<noteq> CHR ''+'' \<and> d \<noteq> CHR ''-''" using d(2) by (auto simp: is_digit_def byte_def)
  then have "scan_sign (sg @ ds @ r) = (sg, ds @ r)" using e(3) by (auto simp: scan_sign_def d(1))
  from scan_exp_Cons [OF e(2) this span_digits [OF _ ends_other(1) [OF assms(2)]]] e(4) show ?thesis
    by (simp add: e(1) digits_only_def)
qed

lemma exp_starts: "exp_text e \<Longrightarrow> ends r \<Longrightarrow> starts_other is_digit (e @ r) \<and> starts_other (\<lambda>c. c = CHR ''.'') (e @ r)"
  using ends_other [of r] by (auto simp: exp_text_def starts_other_def is_digit_def byte_def split: list.splits)

lemma frac_starts: "frac_text f \<Longrightarrow> exp_text e \<Longrightarrow> ends r \<Longrightarrow> starts_other is_digit (f @ e @ r)"
  using exp_starts [of e r] by (auto simp: frac_text_def starts_other_def is_digit_def byte_def)

definition scan_minus :: "string \<Rightarrow> string \<times> string" where
  "scan_minus s = (case s of c # t \<Rightarrow> if c = CHR ''-'' then ([c], t) else ([], s) | [] \<Rightarrow> ([], s))"

lemma scan_number_minus:
  "scan_number s =
     (case scan_minus s of (sg, t) \<Rightarrow>
       (case scan_int t of None \<Rightarrow> None | Some (i, r1) \<Rightarrow>
         (case scan_frac r1 of None \<Rightarrow> None | Some (f, r2) \<Rightarrow>
           (case scan_exp r2 of None \<Rightarrow> None | Some (e, r3) \<Rightarrow> Some (sg @ i @ f @ e, r3)))))"
  by (simp only: scan_number_def scan_minus_def)

lemma scan_minusD: "scan_minus s = (sg, t) \<Longrightarrow> s = sg @ t \<and> sg \<in> set [[], ''-'']"
  by (cases s) (auto simp: scan_minus_def split: if_splits)

lemma int_starts: "int_text i \<Longrightarrow> \<exists>d t. i = d # t \<and> is_digit d"
  by (cases i) (auto simp: int_text_def digits_only_def is_digit_def byte_def)

definition number_text :: "string \<Rightarrow> bool" where
  "number_text l \<longleftrightarrow> (\<exists>sg i f e. l = sg @ i @ f @ e \<and> sg \<in> set [[], ''-''] \<and> int_text i \<and> frac_text f \<and> exp_text e)"

lemma scan_numberD:
  assumes "scan_number s = Some (l, r)"
  shows "number_text l \<and> s = l @ r"
proof -
  obtain sg t where m: "scan_minus s = (sg, t)" by (metis surj_pair)
  obtain i r1 f r2 e where "scan_int t = Some (i, r1)" "scan_frac r1 = Some (f, r2)" "scan_exp r2 = Some (e, r)"
    and l: "l = sg @ i @ f @ e"
    using assms by (auto simp: scan_number_minus m split: option.splits)
  then show ?thesis
    using scan_minusD [OF m] scan_intD scan_fracD scan_expD unfolding number_text_def by (metis append.assoc)
qed

lemma scan_number_text:
  assumes "number_text l" and "ends r"
  shows "scan_number (l @ r) = Some (l, r)"
proof -
  obtain sg i f e where l: "l = sg @ i @ f @ e" and p: "sg \<in> set [[], ''-'']" "int_text i" "frac_text f" "exp_text e"
    using assms(1) by (auto simp: number_text_def)
  obtain d t where i: "i = d # t" "is_digit d" using int_starts [OF p(2)] by blast
  have "d \<noteq> CHR ''-''" using i(2) by (auto simp: is_digit_def byte_def)
  then have "scan_minus (sg @ i @ f @ e @ r) = (sg, i @ f @ e @ r)" using p(1) by (auto simp: scan_minus_def i)
  moreover note scan_int_text [OF p(2) frac_starts [OF p(3,4) assms(2)]]
  moreover note scan_frac_text [OF p(3)] exp_starts [OF p(4) assms(2)] scan_exp_text [OF p(4) assms(2)]
  ultimately show ?thesis by (simp add: scan_number_minus l)
qed

lemma number_start: "number_text l \<Longrightarrow> \<exists>c t. l = c # t \<and> (c = CHR ''-'' \<or> is_digit c)"
  using int_starts by (fastforce simp: number_text_def)

text \<open>A scalar reads the same wherever it ends.\<close>

definition literal :: "string \<Rightarrow> bool" where
  "literal l \<longleftrightarrow> l \<in> set [''null'', ''true'', ''false''] \<or> number_text l"

lemma cut_prefix_None: "cut_prefix p s = None \<longleftrightarrow> (\<forall>r. s \<noteq> p @ r)"
  using cut_prefix_Some [of p s] by (cases "cut_prefix p s") auto

lemma scan_scalarD: "scan_scalar s = Some (l, r) \<Longrightarrow> literal l \<and> s = l @ r"
  using scan_numberD [of s l r] by (auto simp: scan_scalar_def literal_def cut_prefix_Some split: option.splits)

lemma scan_scalar_literal:
  assumes "literal l" and "ends r"
  shows "scan_scalar (l @ r) = Some (l, r)"
  using assms(1) unfolding literal_def
proof
  assume n: "number_text l"
  obtain c t where c: "l = c # t" "c = CHR ''-'' \<or> is_digit c" using number_start [OF n] by blast
  have "\<not> is_digit (CHR ''n'') \<and> \<not> is_digit (CHR ''t'') \<and> \<not> is_digit (CHR ''f'')" by code_simp
  then have "cut_prefix p (l @ r) = None" if "p \<in> set [''null'', ''true'', ''false'']" for p
    using c that by (auto simp: cut_prefix_None)
  with scan_number_text [OF n assms(2)] show ?thesis by (simp add: scan_scalar_def)
next
  assume "l \<in> set [''null'', ''true'', ''false'']"
  moreover have "cut_prefix p (p @ r) = Some r" for p by (simp add: cut_prefix_Some)
  moreover have "cut_prefix ''null'' (''true'' @ r) = None" "cut_prefix ''null'' (''false'' @ r) = None"
    "cut_prefix ''true'' (''false'' @ r) = None" by (simp_all add: cut_prefix_None)
  ultimately show ?thesis by (auto simp: scan_scalar_def simp del: append.simps)
qed

lemma literal_start:
  assumes "literal l"
  shows "\<exists>c t. l = c # t \<and> \<not> is_ws c \<and> c \<noteq> quote \<and> c \<notin> set ''[]{}''"
proof -
  have "\<not> is_ws c \<and> c \<noteq> quote \<and> c \<notin> set ''[]{}''" if "c \<in> set ''ntf-'' \<or> is_digit c" for c
    using that by (auto simp: is_ws_def is_digit_def quote_def byte_def)
  with assms number_start [of l] show ?thesis unfolding literal_def by fastforce
qed

end
