(* ===== verification/JsonText.thy ===== *)
theory JsonText
  imports JsonScan
begin

text \<open>
  What is printed without white space the parser reads back: values, with the source text of array
  elements and object members, and how much fuel that takes.
\<close>

section \<open>Values\<close>

text \<open>The text of a value without white space, and when a value can have come from a text.\<close>

fun text_of :: "jval \<Rightarrow> string" where
  "text_of (JLit l) = l"
| "text_of (JStr b) = quote # b @ [quote]"
| "text_of (JArr vs) = CHR ''['' # join '','' (map text_of vs) @ [CHR '']'']"
| "text_of (JObj ms) = CHR ''{'' # join '','' (map (\<lambda>(k, v). quote # k @ quote # CHR '':'' # text_of v) ms) @ [CHR ''}'']"

fun well_formed :: "jval \<Rightarrow> bool" where
  "well_formed (JLit l) \<longleftrightarrow> literal l"
| "well_formed (JStr b) \<longleftrightarrow> str_body b"
| "well_formed (JArr vs) \<longleftrightarrow> list_all well_formed vs"
| "well_formed (JObj ms) \<longleftrightarrow> list_all (\<lambda>(k, v). str_body k \<and> well_formed v) ms"

text \<open>How much fuel a value takes to read.\<close>

fun weight :: "jval \<Rightarrow> nat" where
  "weight (JLit l) = 0"
| "weight (JStr b) = 0"
| "weight (JArr vs) = Suc (sum_list (map (\<lambda>v. Suc (weight v)) vs))"
| "weight (JObj ms) = Suc (sum_list (map (\<lambda>(k, v). Suc (weight v)) ms))"

lemma skip_ws_solid [simp]: "\<not> is_ws c \<Longrightarrow> skip_ws (c # s) = c # s"
  by (simp add: skip_ws_def)

lemma solid [simp]: "\<not> is_ws quote" "\<not> is_ws (CHR ''{'')" "\<not> is_ws (CHR ''}'')" "\<not> is_ws (CHR ''['')"
  "\<not> is_ws (CHR '']'')" "\<not> is_ws (CHR '','')" "\<not> is_ws (CHR '':'')"
  by (simp_all add: is_ws_def quote_def byte_def)

lemma quote_other [simp]: "quote \<noteq> CHR ''{''" "quote \<noteq> CHR ''}''" "quote \<noteq> CHR ''[''" "quote \<noteq> CHR '']''"
  "quote \<noteq> CHR '',''" "quote \<noteq> CHR '':''" "CHR ''{'' \<noteq> quote" "CHR ''['' \<noteq> quote"
  by (simp_all add: quote_def)

lemma ends_punctuation [simp]: "ends []" "ends (CHR '','' # r)" "ends (CHR '']'' # r)" "ends (CHR ''}'' # r)" "ends (CHR 0x0A # r)"
  by (simp_all add: ends_def is_ws_def byte_def)

lemma text_start:
  assumes "well_formed v"
  obtains c s where "text_of v = c # s" and "\<not> is_ws c" and "c \<noteq> CHR '']''" and "c \<noteq> CHR ''}''"
  using assms literal_start by (cases v) fastforce+

lemma raw_text_prefix: "\<not> is_ws c \<Longrightarrow> raw_text (c # s @ r) r = c # s"
  by (simp add: raw_text_def)

lemma raw_text_of: "well_formed v \<Longrightarrow> raw_text (text_of v @ r) r = text_of v"
  by (elim text_start) (metis append_Cons raw_text_prefix)

lemma join_comma: "join '','' (x # xs) = x @ (if xs = [] then [] else CHR '','' # join '','' xs)"
  by (cases xs) simp_all

definition reads_back :: "jval \<Rightarrow> bool" where
  "reads_back v \<longleftrightarrow> well_formed v \<and> (\<forall>n r. weight v < n \<longrightarrow> ends r \<longrightarrow> pval n (text_of v @ r) = Some (v, r))"

lemma reads_backD: "reads_back v \<Longrightarrow> weight v < n \<Longrightarrow> ends r \<Longrightarrow> pval n (text_of v @ r) = Some (v, r)"
  by (simp add: reads_back_def)

lemma pelems_text:
  assumes "list_all reads_back vs" and "vs \<noteq> []" and "sum_list (map (\<lambda>v. Suc (weight v)) vs) < n"
  shows "pelems n (join '','' (map text_of vs) @ CHR '']'' # r) = Some (map (\<lambda>v. (text_of v, v)) vs, r)"
  using assms
proof (induction vs arbitrary: n)
  case (Cons v vs)
  then obtain m where n: "n = Suc m" and m: "weight v < m" by (cases n) auto
  have v: "well_formed v" "reads_back v" using Cons.prems by (simp_all add: reads_back_def)
  note read = reads_backD [OF v(2) m]
  show ?case
  proof (cases "vs = []")
    case True
    then show ?thesis using raw_text_of [OF v(1), of "CHR '']'' # r"] by (simp add: n read)
  next
    case False
    have "pelems m (join '','' (map text_of vs) @ CHR '']'' # r) = Some (map (\<lambda>v. (text_of v, v)) vs, r)"
      using Cons.prems False n by (intro Cons.IH) simp_all
    then show ?thesis
      using False raw_text_of [OF v(1), of "CHR '','' # join '','' (map text_of vs) @ CHR '']'' # r"]
      by (simp add: n read join_comma)
  qed
qed simp

definition members_text :: "(string \<times> jval) list \<Rightarrow> string" where
  "members_text ms = join '','' (map (\<lambda>(k, v). quote # k @ quote # CHR '':'' # text_of v) ms)"

lemma text_of_members: "text_of (JObj ms) = CHR ''{'' # members_text ms @ [CHR ''}'']"
  by (simp add: members_text_def)

lemma pmembers_text:
  assumes "list_all (\<lambda>(k, v). str_body k \<and> reads_back v) ms" and "ms \<noteq> []"
    and "sum_list (map (\<lambda>(k, v). Suc (weight v)) ms) < n"
  shows "pmembers n (members_text ms @ CHR ''}'' # r) = Some (map (\<lambda>(k, v). (k, text_of v, v)) ms, r)"
  using assms
proof (induction ms arbitrary: n)
  case (Cons kv ms)
  obtain k v where kv: "kv = (k, v)" by (cases kv)
  from Cons.prems kv obtain m where n: "n = Suc m" and m: "weight v < m" by (cases n) auto
  have k: "str_body k" and v: "well_formed v" "reads_back v" using Cons.prems by (simp_all add: kv reads_back_def)
  note read = reads_backD [OF v(2) m] and scan = body_scan [OF k]
  show ?case
  proof (cases "ms = []")
    case True
    then show ?thesis
      using raw_text_of [OF v(1), of "CHR ''}'' # r"] by (simp add: members_text_def kv n scan read)
  next
    case False
    have "pmembers m (members_text ms @ CHR ''}'' # r) = Some (map (\<lambda>(k, v). (k, text_of v, v)) ms, r)"
      using Cons.prems False n by (intro Cons.IH) (simp_all add: kv)
    then show ?thesis
      using False raw_text_of [OF v(1), of "CHR '','' # members_text ms @ CHR ''}'' # r"]
      by (simp add: members_text_def kv n scan read join_comma)
  qed
qed simp

lemma members_start: "ms \<noteq> [] \<Longrightarrow> \<exists>s. members_text ms = quote # s"
  by (cases ms) (auto simp: members_text_def join_comma)

lemma well_formed_reads_back: "well_formed v \<Longrightarrow> reads_back v"
proof (induction v)
  case (JLit l)
  then obtain c t where "l = c # t" "\<not> is_ws c \<and> c \<noteq> quote \<and> c \<notin> set ''[]{}''" using literal_start by fastforce
  with JLit show ?case using scan_scalar_literal [of l] by (auto simp: reads_back_def less_iff_Suc_add)
next
  case (JStr b)
  then show ?case by (auto simp: reads_back_def less_iff_Suc_add body_scan)
next
  case (JArr vs)
  then have all: "list_all reads_back vs" by (auto simp: list_all_iff)
  have "pval n (text_of (JArr vs) @ r) = Some (JArr vs, r)" if w: "weight (JArr vs) < n" for n r
  proof (cases vs)
    case Nil
    with w show ?thesis by (cases n) simp_all
  next
    case (Cons v vs')
    obtain m where n: "n = Suc m" and m: "sum_list (map (\<lambda>v. Suc (weight v)) vs) < m"
      using w by (cases n) auto
    obtain c s where "text_of v = c # s" "\<not> is_ws c" "c \<noteq> CHR '']''"
      using all Cons by (auto simp: reads_back_def elim: text_start)
    then have "\<exists>s. join '','' (map text_of vs) = c # s \<and> \<not> is_ws c \<and> c \<noteq> CHR '']''"
      using Cons by (simp add: join_comma)
    with pelems_text [OF all _ m, of r] show ?thesis
      by (auto simp: n comp_def Cons)
  qed
  with JArr.prems show ?case by (simp add: reads_back_def)
next
  case (JObj ms)
  then have all: "list_all (\<lambda>(k, v). str_body k \<and> reads_back v) ms" by (fastforce simp: list_all_iff)
  have "pval n (text_of (JObj ms) @ r) = Some (JObj ms, r)" if w: "weight (JObj ms) < n" for n r
  proof (cases "ms = []")
    case True
    with w show ?thesis by (cases n) simp_all
  next
    case False
    obtain m where n: "n = Suc m" and m: "sum_list (map (\<lambda>(k, v). Suc (weight v)) ms) < m"
      using w by (cases n) auto
    from pmembers_text [OF all False m, of r] members_start [OF False] show ?thesis
      unfolding text_of_members by (auto simp: n comp_def case_prod_unfold simp del: pmembers.simps)
  qed
  with JObj.prems show ?case by (simp add: reads_back_def)
qed

section \<open>Fuel\<close>

lemma length_join: "length (join '','' xs) + 1 \<ge> sum_list (map (\<lambda>x. length x + 1) xs)"
  by (induction xs rule: induct_list012) simp_all

lemma sum_weight:
  assumes "\<And>x. x \<in> set xs \<Longrightarrow> f x \<le> 2 * length (g x)"
  shows "sum_list (map (\<lambda>x. Suc (f x)) xs) \<le> 2 * sum_list (map (\<lambda>x. length (g x) + 1) xs)"
  using assms by (induction xs) fastforce+

lemma weight_text: "weight v \<le> 2 * length (text_of v)"
proof (induction v)
  case (JArr vs)
  have "sum_list (map (\<lambda>v. Suc (weight v)) vs) \<le> 2 * sum_list (map (\<lambda>v. length (text_of v) + 1) vs)"
    using JArr by (rule sum_weight)
  then show ?case using length_join [of "map text_of vs"] by (simp add: comp_def)
next
  case (JObj ms)
  let ?t = "\<lambda>kv. quote # fst kv @ quote # CHR '':'' # text_of (snd kv)"
  have "sum_list (map (\<lambda>kv. Suc (weight (snd kv))) ms) \<le> 2 * sum_list (map (\<lambda>kv. length (?t kv) + 1) ms)"
  proof (rule sum_weight)
    fix kv
    assume "kv \<in> set ms"
    then have "weight (snd kv) \<le> 2 * length (text_of (snd kv))"
      by (rule JObj) (simp add: prod_set_defs)
    then show "weight (snd kv) \<le> 2 * length (?t kv)" by simp
  qed
  then show ?case using length_join [of "map ?t ms"]
    by (simp add: text_of_members members_text_def comp_def case_prod_unfold del: text_of.simps)
qed simp_all

lemma weight_fuel: "weight v < parse_fuel (text_of v @ r)"
  using weight_text [of v] by (simp add: parse_fuel_def)

section \<open>Documents\<close>

lemma json_parse_text: "well_formed v \<Longrightarrow> shallow v \<Longrightarrow> json_parse (text_of v) = Some v"
  using reads_backD [OF well_formed_reads_back weight_fuel, of v "[]" "[]"] by (simp add: json_parse_def skip_ws_def)

lemma object_members_text:
  assumes "well_formed (JObj ms)"
  shows "object_members (text_of (JObj ms)) = map (\<lambda>(k, v). (k, text_of v, v)) ms"
proof (cases "ms = []")
  case True
  then show ?thesis by (simp add: object_members_def)
next
  case False
  have all: "list_all (\<lambda>(k, v). str_body k \<and> reads_back v) ms"
    using assms well_formed_reads_back by (auto simp: list_all_iff)
  obtain s where s: "members_text ms = quote # s" using members_start [OF False] by blast
  have "sum_list (map (\<lambda>(k, v). Suc (weight v)) ms) < parse_fuel (text_of (JObj ms))"
    using weight_fuel [of "JObj ms" "[]"] by simp
  from pmembers_text [OF all False this, of "[]"] s show ?thesis
    unfolding text_of_members by (simp add: object_members_def del: pmembers.simps)
qed

end
