(* ===== verification/JsonLocal.thy ===== *)
theory JsonLocal
  imports JsonText
begin

text \<open>
  The parser is local: the part of a document it read a value from reads as that value wherever it
  stands, with any fuel from the weight of the value on. So the source text of a member, a
  \<open>json.RawMessage\<close>, is a document of its own.
\<close>

section \<open>A value reads the same wherever it stands\<close>

lemma skip_split:
  assumes "skip_ws s = c # t"
  obtains ws where "s = ws @ c # t" and "list_all is_ws ws" and "\<not> is_ws c"
proof (rule that)
  show "s = takeWhile is_ws s @ c # t" using assms by (metis skip_ws_def takeWhile_dropWhile_id)
  show "list_all is_ws (takeWhile is_ws s)" by (auto simp: list_all_iff dest: set_takeWhileD)
  show "\<not> is_ws c" using assms by (metis hd_dropWhile list.distinct(1) list.sel(1) skip_ws_def)
qed

lemma skip_ws_append: "list_all is_ws ws \<Longrightarrow> skip_ws (ws @ x) = skip_ws x"
  by (induction ws) (simp_all add: skip_ws_def)

lemma skip_ws_stops: "skip_ws p \<noteq> [] \<Longrightarrow> skip_ws (p @ r) = skip_ws p @ r"
  by (induction p) (auto simp: skip_ws_def)

lemma skip_ws_idem [simp]: "skip_ws (skip_ws s) = skip_ws s"
  by (simp add: skip_ws_def dropWhile_idem)

lemma pval_skip_ws: "pval n (skip_ws s) = pval n s"
  by (cases n) simp_all

lemma raw_text_skip: "skip_ws p \<noteq> [] \<Longrightarrow> raw_text (p @ r) r = skip_ws p"
  by (simp add: raw_text_def skip_ws_stops)

lemma ends_ws: "list_all is_ws ws \<Longrightarrow> ends r \<Longrightarrow> ends (ws @ r)"
  by (cases ws) (auto simp: ends_def)

definition reads_as :: "string \<Rightarrow> jval \<Rightarrow> bool" where
  "reads_as p v \<longleftrightarrow> skip_ws p \<noteq> [] \<and> well_formed v \<and> weight v \<le> 2 * length (skip_ws p)
     \<and> (\<forall>m r. weight v < m \<longrightarrow> ends r \<longrightarrow> pval m (p @ r) = Some (v, r))"

definition elems_read_as :: "string \<Rightarrow> (bytes \<times> jval) list \<Rightarrow> bool" where
  "elems_read_as p xs \<longleftrightarrow> skip_ws p \<noteq> [] \<and> list_all (\<lambda>(w, v). reads_as w v) xs
     \<and> sum_list (map (\<lambda>(w, v). Suc (weight v)) xs) \<le> 2 * length p
     \<and> (\<forall>m r. sum_list (map (\<lambda>(w, v). Suc (weight v)) xs) < m \<longrightarrow> pelems m (p @ r) = Some (xs, r))"

definition members_read_as :: "string \<Rightarrow> (string \<times> bytes \<times> jval) list \<Rightarrow> bool" where
  "members_read_as p ms \<longleftrightarrow> skip_ws p \<noteq> [] \<and> list_all (\<lambda>(k, w, v). str_body k \<and> reads_as w v) ms
     \<and> sum_list (map (\<lambda>(k, w, v). Suc (weight v)) ms) \<le> 2 * length p
     \<and> (\<forall>m r. sum_list (map (\<lambda>(k, w, v). Suc (weight v)) ms) < m \<longrightarrow> pmembers m (p @ r) = Some (ms, r))"

lemma reads_as_raw: "reads_as p v \<Longrightarrow> reads_as (raw_text (p @ r) r) v"
  by (simp add: reads_as_def raw_text_skip) (metis pval_skip_ws skip_ws_stops)

lemma reads_as_ws: "list_all is_ws ws \<Longrightarrow> reads_as p v \<Longrightarrow> reads_as (ws @ p) v"
  by (simp add: reads_as_def skip_ws_append) (metis pval_skip_ws skip_ws_append)

lemma reads_as_string: "str_body b \<Longrightarrow> reads_as (quote # b @ [quote]) (JStr b)"
  by (auto simp: reads_as_def body_scan less_iff_Suc_add)

lemma reads_as_literal:
  assumes "literal l"
  shows "reads_as l (JLit l)"
  using well_formed_reads_back [of "JLit l"] literal_start [OF assms] assms
  by (auto simp: reads_as_def reads_back_def)

lemma reads_as_array:
  assumes "elems_read_as p xs" and "hd (skip_ws p) \<noteq> CHR '']''"
  shows "reads_as (CHR ''['' # p) (JArr (map snd xs))"
proof -
  obtain c t where c: "skip_ws p = c # t" using assms(1) by (cases "skip_ws p") (simp_all add: elems_read_as_def)
  have "pval m ((CHR ''['' # p) @ r) = Some (JArr (map snd xs), r)" if w: "weight (JArr (map snd xs)) < m" for m r
  proof -
    obtain k where m: "m = Suc k" using w by (cases m) simp_all
    have "pelems k (p @ r) = Some (xs, r)"
      using assms(1) w by (simp add: elems_read_as_def m comp_def case_prod_unfold)
    moreover have "skip_ws (p @ r) = c # t @ r" using c skip_ws_stops [of p r] by simp
    ultimately show ?thesis using assms(2) c by (simp add: m)
  qed
  with assms(1) show ?thesis
    by (auto simp: reads_as_def elems_read_as_def comp_def case_prod_unfold list_all_iff)
qed

lemma reads_as_object:
  assumes "members_read_as p ms" and "hd (skip_ws p) \<noteq> CHR ''}''"
  shows "reads_as (CHR ''{'' # p) (JObj (map (\<lambda>(k, w, v). (k, v)) ms))"
proof -
  obtain c t where c: "skip_ws p = c # t" using assms(1) by (cases "skip_ws p") (simp_all add: members_read_as_def)
  have "pval m ((CHR ''{'' # p) @ r) = Some (JObj (map (\<lambda>(k, w, v). (k, v)) ms), r)"
    if w: "weight (JObj (map (\<lambda>(k, w, v). (k, v)) ms)) < m" for m r
  proof -
    obtain n where m: "m = Suc n" using w by (cases m) simp_all
    have "pmembers n (p @ r) = Some (ms, r)"
      using assms(1) w by (simp add: members_read_as_def m comp_def case_prod_unfold)
    moreover have "skip_ws (p @ r) = c # t @ r" using c skip_ws_stops [of p r] by simp
    ultimately show ?thesis using assms(2) c by (simp add: m)
  qed
  with assms(1) show ?thesis
    by (auto simp: reads_as_def members_read_as_def comp_def case_prod_unfold list_all_iff)
qed

lemma elems_last:
  assumes "reads_as p v" and "list_all is_ws ws"
  shows "elems_read_as (p @ ws @ [CHR '']'']) [(raw_text (p @ r) r, v)]"
proof -
  have p: "skip_ws p \<noteq> []" using assms(1) by (simp add: reads_as_def)
  have "pelems m ((p @ ws @ [CHR '']'']) @ r') = Some ([(skip_ws p, v)], r')" if w: "Suc (weight v) < m" for m r'
  proof -
    obtain k where m: "m = Suc k" using w by (cases m) simp_all
    have "pval k (p @ ws @ CHR '']'' # r') = Some (v, ws @ CHR '']'' # r')"
      using assms w by (simp add: reads_as_def m ends_ws)
    then show ?thesis using assms(2) raw_text_skip [OF p] by (simp add: m skip_ws_append)
  qed
  moreover have "length (skip_ws p) \<le> length p" by (simp add: skip_ws_def length_dropWhile_le)
  ultimately show ?thesis
    using assms(1) p reads_as_raw [OF assms(1), of r] by (auto simp: elems_read_as_def reads_as_def raw_text_skip skip_ws_stops)
qed

lemma elems_more:
  assumes "reads_as p v" and "list_all is_ws ws" and "elems_read_as q xs"
  shows "elems_read_as (p @ ws @ CHR '','' # q) ((raw_text (p @ r) r, v) # xs)"
proof -
  have p: "skip_ws p \<noteq> []" using assms(1) by (simp add: reads_as_def)
  have "pelems m ((p @ ws @ CHR '','' # q) @ r') = Some ((skip_ws p, v) # xs, r')"
    if w: "Suc (weight v) + sum_list (map (\<lambda>(w, v). Suc (weight v)) xs) < m" for m r'
  proof -
    obtain k where m: "m = Suc k" using w by (cases m) simp_all
    have "pval k (p @ ws @ CHR '','' # q @ r') = Some (v, ws @ CHR '','' # q @ r')"
      using assms w by (simp add: reads_as_def m ends_ws)
    moreover have "pelems k (q @ r') = Some (xs, r')" using assms(3) w by (simp add: elems_read_as_def m)
    ultimately show ?thesis using assms(2) raw_text_skip [OF p] by (simp add: m skip_ws_append)
  qed
  moreover have "length (skip_ws p) \<le> length p" by (simp add: skip_ws_def length_dropWhile_le)
  ultimately show ?thesis
    using assms(1,3) p reads_as_raw [OF assms(1), of r] by (auto simp: elems_read_as_def reads_as_def raw_text_skip skip_ws_stops)
qed

lemma member_text:
  assumes "list_all is_ws w0" and "str_body k" and "list_all is_ws w1" and "reads_as p v" and "list_all is_ws w2"
    and "weight v < m" and "ends (d # r)" and "\<not> is_ws d"
  shows "pmembers (Suc m) (w0 @ quote # k @ quote # w1 @ CHR '':'' # p @ w2 @ d # r)
    = (if d = CHR ''}'' then Some ([(k, skip_ws p, v)], r)
       else if d = CHR '','' then map_option (\<lambda>(ms, r'). ((k, skip_ws p, v) # ms, r')) (pmembers m r)
       else None)"
proof -
  have "pval m (p @ w2 @ d # r) = Some (v, w2 @ d # r)"
    using assms(4-7) by (simp add: reads_as_def ends_ws)
  moreover have "raw_text (p @ x) x = skip_ws p" for x
    using assms(4) by (simp add: reads_as_def raw_text_skip)
  ultimately show ?thesis using assms by (simp add: skip_ws_append body_scan)
qed

lemma members_last:
  assumes "list_all is_ws w0" and "str_body k" and "list_all is_ws w1" and "reads_as p v" and "list_all is_ws w2"
  shows "members_read_as (w0 @ quote # k @ quote # w1 @ CHR '':'' # p @ w2 @ [CHR ''}'']) [(k, raw_text (p @ r) r, v)]"
proof -
  have p: "skip_ws p \<noteq> []" using assms(4) by (simp add: reads_as_def)
  have "pmembers m ((w0 @ quote # k @ quote # w1 @ CHR '':'' # p @ w2 @ [CHR ''}'']) @ r') = Some ([(k, skip_ws p, v)], r')"
    if w: "Suc (weight v) < m" for m r'
  proof -
    obtain n where m: "m = Suc n" "weight v < n" using w by (cases m) simp_all
    from member_text [OF assms m(2), of "CHR ''}''" r'] show ?thesis by (simp add: m(1))
  qed
  moreover have "length (skip_ws p) \<le> length p" by (simp add: skip_ws_def length_dropWhile_le)
  moreover have "weight v \<le> 2 * length (skip_ws p)" using assms(4) by (simp add: reads_as_def)
  ultimately show ?thesis
    using assms(1,2) p reads_as_raw [OF assms(4), of r]
    by (simp add: members_read_as_def raw_text_skip skip_ws_append)
qed

lemma members_more:
  assumes "list_all is_ws w0" and "str_body k" and "list_all is_ws w1" and "reads_as p v" and "list_all is_ws w2"
    and "members_read_as q ms"
  shows "members_read_as (w0 @ quote # k @ quote # w1 @ CHR '':'' # p @ w2 @ CHR '','' # q) ((k, raw_text (p @ r) r, v) # ms)"
proof -
  have p: "skip_ws p \<noteq> []" using assms(4) by (simp add: reads_as_def)
  have "pmembers m ((w0 @ quote # k @ quote # w1 @ CHR '':'' # p @ w2 @ CHR '','' # q) @ r') = Some ((k, skip_ws p, v) # ms, r')"
    if w: "Suc (weight v) + sum_list (map (\<lambda>(k, w, v). Suc (weight v)) ms) < m" for m r'
  proof -
    obtain n where m: "m = Suc n" "weight v < n" using w by (cases m) simp_all
    have "pmembers n (q @ r') = Some (ms, r')" using assms(6) w by (simp add: members_read_as_def m(1))
    with member_text [OF assms(1-5) m(2), of "CHR '',''" "q @ r'"] show ?thesis by (simp add: m(1))
  qed
  moreover have "length (skip_ws p) \<le> length p" by (simp add: skip_ws_def length_dropWhile_le)
  moreover have "weight v \<le> 2 * length (skip_ws p)" using assms(4) by (simp add: reads_as_def)
  ultimately show ?thesis
    using assms(1,2,6) p reads_as_raw [OF assms(4), of r]
    by (simp add: members_read_as_def raw_text_skip skip_ws_append)
qed

text \<open>The parser is local.\<close>

lemma parser_local:
  "pval n s = Some (v, r) \<Longrightarrow> \<exists>p. s = p @ r \<and> reads_as p v"
  "pelems n s = Some (xs, r) \<Longrightarrow> \<exists>p. s = p @ r \<and> elems_read_as p xs"
  "pmembers n s = Some (ms, r) \<Longrightarrow> \<exists>p. s = p @ r \<and> members_read_as p ms"
proof (induction n arbitrary: s v r xs ms)
  case (Suc n)
  {
    case 1
    obtain c t where c: "skip_ws s = c # t" using 1 by (cases "skip_ws s") simp_all
    obtain ws where s: "s = ws @ c # t" and ws: "list_all is_ws ws" using skip_split [OF c] by blast
    consider (str) "c = quote" | (arr) "c = CHR ''[''" | (obj) "c = CHR ''{''"
      | (lit) "c \<noteq> quote" "c \<noteq> CHR ''[''" "c \<noteq> CHR ''{''" by blast
    then have "\<exists>q. c # t = q @ r \<and> reads_as q v"
    proof cases
      case str
      with 1 c obtain b where "scan_body t = Some (b, r)" "v = JStr b" by auto
      with scan_body_body str reads_as_string show ?thesis by (intro exI [of _ "quote # b @ [quote]"]) auto
    next
      case arr
      obtain d u where d: "skip_ws t = d # u" using 1 c arr by (cases "skip_ws t") simp_all
      obtain ws' where t: "t = ws' @ d # u" and ws': "list_all is_ws ws'" using skip_split [OF d] by blast
      show ?thesis
      proof (cases "d = CHR '']''")
        case True
        have "reads_as (CHR ''['' # ws' @ [CHR '']'']) (JArr [])"
          using ws' by (auto simp: reads_as_def less_iff_Suc_add skip_ws_append)
        with True 1 c arr d t show ?thesis by (intro exI [of _ "CHR ''['' # ws' @ [CHR '']'']"]) auto
      next
        case False
        with 1 c arr d obtain xs where xs: "pelems n t = Some (xs, r)" and v: "v = JArr (map snd xs)" by auto
        from Suc.IH(2) [OF xs] obtain p where p: "t = p @ r" "elems_read_as p xs" by blast
        then have "hd (skip_ws p) \<noteq> CHR '']''"
          using d False skip_ws_stops [of p r] by (cases "skip_ws p") (auto simp: elems_read_as_def)
        from reads_as_array [OF p(2) this] p(1) arr v show ?thesis by (intro exI [of _ "CHR ''['' # p"]) simp
      qed
    next
      case obj
      obtain d u where d: "skip_ws t = d # u" using 1 c obj by (cases "skip_ws t") simp_all
      obtain ws' where t: "t = ws' @ d # u" and ws': "list_all is_ws ws'" using skip_split [OF d] by blast
      show ?thesis
      proof (cases "d = CHR ''}''")
        case True
        have "reads_as (CHR ''{'' # ws' @ [CHR ''}'']) (JObj [])"
          using ws' by (auto simp: reads_as_def less_iff_Suc_add skip_ws_append)
        with True 1 c obj d t show ?thesis by (intro exI [of _ "CHR ''{'' # ws' @ [CHR ''}'']"]) auto
      next
        case False
        with 1 c obj d obtain ms where ms: "pmembers n t = Some (ms, r)" and v: "v = JObj (map (\<lambda>(k, w, v). (k, v)) ms)" by auto
        from Suc.IH(3) [OF ms] obtain p where p: "t = p @ r" "members_read_as p ms" by blast
        then have "hd (skip_ws p) \<noteq> CHR ''}''"
          using d False skip_ws_stops [of p r] by (cases "skip_ws p") (auto simp: members_read_as_def)
        from reads_as_object [OF p(2) this] p(1) obj v show ?thesis by (intro exI [of _ "CHR ''{'' # p"]) simp
      qed
    next
      case lit
      with 1 c obtain l where "scan_scalar (c # t) = Some (l, r)" "v = JLit l" by auto
      with scan_scalarD reads_as_literal show ?thesis by blast
    qed
    then obtain q where "c # t = q @ r" "reads_as q v" by blast
    with reads_as_ws [OF ws] s show ?case by (intro exI [of _ "ws @ q"]) simp
  next
    case 2
    obtain v0 r0 where v0: "pval n s = Some (v0, r0)" using 2 by (cases "pval n s") auto
    obtain d u where d: "skip_ws r0 = d # u" using 2 v0 by (cases "skip_ws r0") simp_all
    obtain ws where r0: "r0 = ws @ d # u" and ws: "list_all is_ws ws" using skip_split [OF d] by blast
    from Suc.IH(1) [OF v0] obtain p where p: "s = p @ r0" "reads_as p v0" by blast
    show ?case
    proof (cases "d = CHR '']''")
      case True
      with 2 v0 d have "xs = [(raw_text s r0, v0)]" "r = u" by simp_all
      with elems_last [OF p(2) ws, of r0] p(1) r0 True show ?thesis
        by (intro exI [of _ "p @ ws @ [CHR '']'']"]) simp
    next
      case False
      with 2 v0 d obtain ys where ys: "pelems n u = Some (ys, r)" and d': "d = CHR '',''"
        and xs: "xs = (raw_text s r0, v0) # ys"
        by (auto split: if_splits)
      from Suc.IH(2) [OF ys] obtain q where q: "u = q @ r" "elems_read_as q ys" by blast
      from elems_more [OF p(2) ws q(2), of r0] p(1) q(1) r0 d' xs show ?thesis
        by (intro exI [of _ "p @ ws @ CHR '','' # q"]) simp
    qed
  next
    case 3
    obtain t where t0: "skip_ws s = quote # t" using 3 by (cases "skip_ws s") (auto split: if_splits)
    obtain w0 where s: "s = w0 @ quote # t" and w0: "list_all is_ws w0" using skip_split [OF t0] by blast
    obtain k r1 where k: "scan_body t = Some (k, r1)" using 3 t0 by (cases "scan_body t") auto
    note kb = scan_body_body [OF k]
    obtain u1 where u10: "skip_ws r1 = CHR '':'' # u1" using 3 t0 k by (cases "skip_ws r1") (auto split: if_splits)
    obtain w1 where r1: "r1 = w1 @ CHR '':'' # u1" and w1: "list_all is_ws w1" using skip_split [OF u10] by blast
    obtain v0 r2 where v0: "pval n u1 = Some (v0, r2)" using 3 t0 k u10 by (cases "pval n u1") auto
    obtain d u where d: "skip_ws r2 = d # u" using 3 t0 k u10 v0 by (cases "skip_ws r2") simp_all
    obtain w2 where r2: "r2 = w2 @ d # u" and w2: "list_all is_ws w2" using skip_split [OF d] by blast
    from Suc.IH(1) [OF v0] obtain p where p: "u1 = p @ r2" "reads_as p v0" by blast
    show ?case
    proof (cases "d = CHR ''}''")
      case True
      with 3 t0 k u10 v0 d have "ms = [(k, raw_text u1 r2, v0)]" "r = u" by simp_all
      with members_last [OF w0 conjunct1 [OF kb] w1 p(2) w2, of r2] p(1) r1 r2 s kb True show ?thesis
        by (intro exI [of _ "w0 @ quote # k @ quote # w1 @ CHR '':'' # p @ w2 @ [CHR ''}'']"]) simp
    next
      case False
      with 3 t0 k u10 v0 d obtain ns where ns: "pmembers n u = Some (ns, r)" and d': "d = CHR '',''"
        and ms: "ms = (k, raw_text u1 r2, v0) # ns"
        by (auto split: if_splits)
      from Suc.IH(3) [OF ns] obtain q where q: "u = q @ r" "members_read_as q ns" by blast
      from members_more [OF w0 conjunct1 [OF kb] w1 p(2) w2 q(2), of r2] p(1) q(1) r1 r2 s kb d' ms show ?thesis
        by (intro exI [of _ "w0 @ quote # k @ quote # w1 @ CHR '':'' # p @ w2 @ CHR '','' # q"]) simp
    qed
  }
qed simp_all

section \<open>Documents and their members\<close>

lemma json_parseD:
  assumes "json_parse s = Some v"
  obtains p ws where "s = p @ ws" and "list_all is_ws ws" and "reads_as p v" and "shallow v"
proof -
  obtain r where r: "pval (parse_fuel s) s = Some (v, r)" "skip_ws r = []" "shallow v"
    using assms by (auto simp: json_parse_def split: option.splits if_splits)
  have "list_all is_ws r" using r(2) by (auto simp: skip_ws_def list_all_iff)
  with parser_local(1) [OF r(1)] r(3) that show thesis by blast
qed

lemma json_parse_well_formed: "json_parse s = Some v \<Longrightarrow> well_formed v \<and> shallow v"
  by (elim json_parseD) (simp add: reads_as_def)

lemma reads_as_parse:
  assumes "reads_as s v" and "shallow v"
  shows "json_parse s = Some v"
proof -
  have "length (skip_ws s) \<le> length s" by (simp add: skip_ws_def length_dropWhile_le)
  then have "weight v < parse_fuel s" using assms(1) by (simp add: reads_as_def parse_fuel_def)
  then have "pval (parse_fuel s) (s @ []) = Some (v, [])" using assms(1) by (simp only: reads_as_def ends_punctuation)
  with assms(2) show ?thesis by (simp add: json_parse_def skip_ws_def)
qed

lemma depth_member: "(k, v) \<in> set ms \<Longrightarrow> depth v < depth (JObj ms)"
proof -
  have "x \<in> set xs \<Longrightarrow> f x \<le> fold max (map f xs) m" and "m \<le> fold max (map f xs) m" for x :: 'a and f :: "'a \<Rightarrow> nat" and xs m
    by (induction xs arbitrary: m) (auto intro: order_trans [OF max.cobounded1] order_trans [OF max.cobounded2])
  from this(1) [of "(k, v)" ms "\<lambda>(k, v). depth v" 0] show "(k, v) \<in> set ms \<Longrightarrow> ?thesis" by simp
qed

text \<open>The members of an object, each a document whose value is the member's.\<close>

lemma object_members_parse:
  assumes "json_parse s = Some (JObj ms)"
  shows "map (\<lambda>(k, w, v). (k, v)) (object_members s) = ms"
    and "list_all (\<lambda>(k, w, v). str_body k \<and> json_parse w = Some v) (object_members s)"
proof -
  obtain n where n: "parse_fuel s = Suc n" by (simp add: parse_fuel_def)
  obtain r where r: "pval (parse_fuel s) s = Some (JObj ms, r)" "shallow (JObj ms)"
    using assms by (auto simp: json_parse_def split: option.splits if_splits)
  obtain c t where c: "skip_ws s = c # t" using r(1) n by (cases "skip_ws s") simp_all
  have c': "c = CHR ''{''" using r(1) n c by (auto split: if_splits list.splits)
  obtain d u where d: "skip_ws t = d # u" using r(1) n c c' by (cases "skip_ws t") simp_all
  have "map (\<lambda>(k, w, v). (k, v)) (object_members s) = ms
    \<and> list_all (\<lambda>(k, w, v). str_body k \<and> json_parse w = Some v) (object_members s)"
  proof (cases "d = CHR ''}''")
    case True
    then show ?thesis using r(1) n c c' d by (simp add: object_members_def)
  next
    case False
    then obtain xs where xs: "pmembers n t = Some (xs, r)" and ms: "ms = map (\<lambda>(k, w, v). (k, v)) xs"
      using r(1) n c c' d by auto
    from parser_local(3) [OF xs] obtain p where p: "t = p @ r" "members_read_as p xs" by blast
    have "length t < length (skip_ws s)" using c by simp
    also have "\<dots> \<le> length s" by (simp add: skip_ws_def length_dropWhile_le)
    finally have "length p < length s" using p(1) by simp
    then have "sum_list (map (\<lambda>(k, w, v). Suc (weight v)) xs) < parse_fuel s"
      using p(2) by (auto simp: members_read_as_def parse_fuel_def)
    then have "pmembers (parse_fuel s) t = Some (xs, r)" using p by (simp add: members_read_as_def)
    then have "object_members s = xs" using c d False by (simp add: object_members_def)
    moreover have "json_parse w = Some v" if "(k, w, v) \<in> set xs" for k w v
    proof (rule reads_as_parse)
      show "reads_as w v" using p(2) that by (auto simp: members_read_as_def list_all_iff)
      have "(k, v) \<in> set ms" using that by (force simp: ms)
      from depth_member [OF this] r(2) show "shallow v" by (simp add: shallow_def)
    qed
    ultimately show ?thesis using p(2) by (auto simp: ms members_read_as_def list_all_iff)
  qed
  then show "map (\<lambda>(k, w, v). (k, v)) (object_members s) = ms"
    and "list_all (\<lambda>(k, w, v). str_body k \<and> json_parse w = Some v) (object_members s)" by simp_all
qed

end
