(* ===== verification/JsonCompact.thy ===== *)
theory JsonCompact
  imports JsonLocal
begin

text \<open>
  What \<open>json.Marshal\<close> makes of a map of raw messages is read back as that map with its values
  compacted. Keys are Go strings that came out of a decoder, so they are valid UTF-8.
\<close>

section \<open>Runes\<close>

definition is_scalar :: "rune \<Rightarrow> bool" where
  "is_scalar r \<longleftrightarrow> r \<le> 0x10FFFF \<and> \<not> (0xD800 \<le> r \<and> r \<le> 0xDFFF)"

lemma encode_rune_scalar: "\<exists>r'. is_scalar r' \<and> encode_rune r = encode_scalar r'"
  by (rule exI [of _ "if 0xD800 \<le> r \<and> r \<le> 0xDFFF \<or> 0x10FFFF < r then rune_error else r"])
    (auto simp: encode_rune_def is_scalar_def rune_error_def)

lemma decode_encode:
  assumes "is_scalar r"
  shows "decode_valid (encode_scalar r @ s) = Some (r, length (encode_scalar r))"
proof -
  have parts: "64 * (r div 64) + r mod 64 = r" "64 * (r div 4096) + r div 64 mod 64 = r div 64"
    "64 * (r div 262144) + r div 4096 mod 64 = r div 4096"
    "r mod 64 < 64" "r div 64 mod 64 < 64" "r div 4096 mod 64 < 64"
    using div_mult2_eq [of r 64 64] div_mult2_eq [of r 4096 64] by simp_all
  define a b c d where "a = r mod 64" and "b = r div 64 mod 64" and "c = r div 4096" and "d = r div 4096 mod 64"
  have sizes: "a < 64" "b < 64" "d < 64" by (simp_all add: a_def b_def d_def)
  have r3: "r = 4096 * c + 64 * b + a" using parts(1,2) unfolding a_def b_def c_def by linarith
  define e where "e = r div 262144"
  have r4: "r = 262144 * e + 4096 * d + 64 * b + a" using parts(3) r3 unfolding c_def d_def e_def by linarith
  consider "r < 0x80" | "0x80 \<le> r" "r < 0x800" | "0x800 \<le> r" "r < 0x10000" | "0x10000 \<le> r" by linarith
  then show ?thesis
  proof cases
    case 1
    then show ?thesis by (simp add: encode_scalar_def)
  next
    case 2
    with parts(1,4) have b: "2 \<le> r div 64" "r div 64 \<le> 31" by linarith+
    from 2 have "encode_scalar r = [char_of (0xC0 + r div 64), char_of (0x80 + r mod 64)]" by (simp add: encode_scalar_def)
    with b parts(1,4) show ?thesis by (simp add: is_cont_def Let_def)
  next
    case 3
    then have enc: "encode_scalar r = [char_of (0xE0 + c), char_of (0x80 + b), char_of (0x80 + a)]"
      by (simp add: encode_scalar_def a_def b_def c_def)
    have c: "c \<le> 15" using 3 r3 by linarith
    have "c = 0 \<Longrightarrow> 0x20 \<le> b" using 3 r3 sizes by linarith
    moreover have "c = 13 \<Longrightarrow> b \<le> 0x1F" using r3 assms sizes by (auto simp: is_scalar_def)
    ultimately show ?thesis
      unfolding enc using c sizes by (simp add: is_cont_def second3_def Let_def) (simp add: r3)
  next
    case 4
    then have enc: "encode_scalar r = [char_of (0xF0 + e), char_of (0x80 + d), char_of (0x80 + b), char_of (0x80 + a)]"
      by (simp add: encode_scalar_def a_def b_def d_def e_def)
    have e: "e \<le> 4" using assms r4 by (simp add: is_scalar_def)
    have "e = 0 \<Longrightarrow> 0x10 \<le> d" using 4 r4 sizes by linarith
    moreover have "e = 4 \<Longrightarrow> d \<le> 0xF" using r4 assms sizes by (auto simp: is_scalar_def)
    ultimately show ?thesis
      unfolding enc using e sizes by (simp add: is_cont_def second4_def Let_def) (simp add: r4)
  qed
qed

definition valid_text :: "string \<Rightarrow> bool" where
  "valid_text s \<longleftrightarrow> (\<exists>rs. list_all is_scalar rs \<and> s = concat (map encode_scalar rs))"

lemma valid_text_Nil: "valid_text []"
  unfolding valid_text_def by (rule exI [of _ "[]"]) simp

lemma valid_text_scalar: "is_scalar r \<Longrightarrow> valid_text s \<Longrightarrow> valid_text (encode_scalar r @ s)"
  unfolding valid_text_def by (elim exE conjE) (rule_tac x = "r # rs" in exI, simp)

lemma valid_text_rune: "valid_text s \<Longrightarrow> valid_text (encode_rune r @ s)"
  using encode_rune_scalar [of r] valid_text_scalar by metis

lemma valid_text_ascii: "ascii c \<Longrightarrow> valid_text s \<Longrightarrow> valid_text (c # s)"
  using valid_text_rune [of s "byte c"] by simp

lemma valid_text_asciis: "list_all ascii s \<Longrightarrow> valid_text s"
  by (induction s) (simp_all add: valid_text_Nil valid_text_ascii)

lemma encode_scalar_nonempty: "encode_scalar r \<noteq> []"
  by (simp add: encode_scalar_def)

lemma decode_rune_encode:
  "is_scalar r \<Longrightarrow> decode_rune (encode_scalar r @ s) = (r, length (encode_scalar r))"
  by (simp add: decode_rune_def decode_encode)

lemma segments_encode:
  "list_all is_scalar rs \<Longrightarrow> segments (concat (map encode_scalar rs)) = map (\<lambda>r. (r, encode_scalar r)) rs"
proof (induction rs)
  case (Cons r rs)
  then show ?case
    using encode_scalar_nonempty [of r] by (subst segments.simps) (simp add: decode_rune_encode)
qed simp

text \<open>What \<open>unquote\<close> makes of a literal is valid UTF-8.\<close>

lemma unescape_ascii: "unescape e = Some c \<Longrightarrow> ascii c"
  by (auto simp: unescape_def ascii_def byte_def quote_def backslash_def split: if_splits)

lemma unquote_valid: "unquote b = Some s \<Longrightarrow> valid_text s"
proof (induction b arbitrary: s rule: length_induct)
  case (1 b)
  then have IH: "unquote t = Some s' \<Longrightarrow> length t < length b \<Longrightarrow> valid_text s'" for t s' by blast
  show ?case
  proof (cases b)
    case Nil
    with 1 show ?thesis by (simp add: valid_text_Nil)
  next
    case b: (Cons c t)
    note u = unquote.simps [of b]
    consider "c = backslash" | "c \<noteq> backslash" "ascii c" | "c \<noteq> backslash" "\<not> ascii c" by blast
    then show ?thesis
    proof cases
      case bs: 1
      obtain e v where t: "t = e # v" using 1(2) u by (cases t) (simp_all add: b bs)
      show ?thesis
      proof (cases "e = CHR ''u''")
        case True
        have "\<exists>r s' k. s = encode_rune r @ s' \<and> unquote (drop k v) = Some s'"
          using 1(2) u unfolding b bs t True
          by (auto simp del: hex4.simps split: option.splits if_splits)
        then obtain r s' k where "s = encode_rune r @ s'" "unquote (drop k v) = Some s'" by blast
        moreover have "length (drop k v) < length b" by (simp add: b t)
        ultimately show ?thesis using IH valid_text_rune by blast
      next
        case False
        then obtain y s' where "unescape e = Some y" "s = y # s'" "unquote v = Some s'"
          using 1(2) u unfolding b bs t by (auto split: option.splits)
        moreover have "length v < length b" by (simp add: b t)
        ultimately show ?thesis using IH valid_text_ascii unescape_ascii by blast
      qed
    next
      case 2
      then obtain s' where "s = c # s'" "unquote t = Some s'" using 1(2) u unfolding b by (auto split: if_splits)
      moreover have "length t < length b" by (simp add: b)
      ultimately show ?thesis using IH valid_text_ascii 2(2) by blast
    next
      case 3
      obtain r n where d: "decode_rune b = (r, n)" by (metis surj_pair)
      obtain s' where "s = encode_rune r @ s'" "unquote (drop n b) = Some s'"
        using 1(2) u 3 d unfolding b by (auto split: if_splits)
      moreover have "length (drop n b) < length b" using decode_rune_width [of b] d b by simp
      ultimately show ?thesis using IH valid_text_rune by blast
    qed
  qed
qed

section \<open>Keys\<close>

text \<open>A key as the body of the literal written for it.\<close>

definition key_text :: "string \<Rightarrow> string" where
  "key_text k = concat (map escape_rune (segments k))"

lemma quote_string_key: "quote_string k = quote # key_text k @ [quote]"
  by (simp add: quote_string_def key_text_def)

text \<open>Escapes of ASCII characters.\<close>

lemma byte_control:
  "byte c = 0x08 \<longleftrightarrow> c = CHR 0x08" "byte c = 0x0C \<longleftrightarrow> c = CHR 0x0C" "byte c = 0x0A \<longleftrightarrow> c = CHR 0x0A"
  "byte c = 0x0D \<longleftrightarrow> c = CHR 0x0D" "byte c = 0x09 \<longleftrightarrow> c = CHR 0x09"
proof -
  have "byte (CHR 0x08) = 0x08" "byte (CHR 0x0C) = 0x0C" "byte (CHR 0x0A) = 0x0A" "byte (CHR 0x0D) = 0x0D"
    "byte (CHR 0x09) = 0x09" by (simp_all add: byte_def)
  then show "byte c = 0x08 \<longleftrightarrow> c = CHR 0x08" "byte c = 0x0C \<longleftrightarrow> c = CHR 0x0C" "byte c = 0x0A \<longleftrightarrow> c = CHR 0x0A"
    "byte c = 0x0D \<longleftrightarrow> c = CHR 0x0D" "byte c = 0x09 \<longleftrightarrow> c = CHR 0x09" by (metis byte_inject)+
qed

lemma escape_ascii_cases:
  assumes "ascii c"
  obtains e where "escape_ascii c = [backslash, e]" and "unescape e = Some c"
    and "e \<in> set [quote, backslash, CHR ''/'', CHR ''b'', CHR ''f'', CHR ''n'', CHR ''r'', CHR ''t'']"
  | "escape_ascii c = u_escape (byte c)" and "byte c < 128"
  | "escape_ascii c = [c]" and "c \<noteq> quote" and "c \<noteq> backslash" and "\<not> byte c < 0x20"
proof -
  consider "c = quote \<or> c = backslash" | "c \<in> set [CHR 0x08, CHR 0x0C, CHR 0x0A, CHR 0x0D, CHR 0x09]"
    | "c \<noteq> quote \<and> c \<noteq> backslash \<and> c \<notin> set [CHR 0x08, CHR 0x0C, CHR 0x0A, CHR 0x0D, CHR 0x09]"
    by blast
  then show thesis
  proof cases
    case 1
    then show thesis by (intro that(1) [of c]) (auto simp: escape_ascii_def unescape_def)
  next
    case 2
    then show thesis
      using that(1) [of "CHR ''b''"] that(1) [of "CHR ''f''"] that(1) [of "CHR ''n''"] that(1) [of "CHR ''r''"]
        that(1) [of "CHR ''t''"]
      by (auto simp: escape_ascii_def unescape_def quote_def backslash_def byte_control)
  next
    case 3
    show thesis
    proof (cases "byte c < 0x20 \<or> is_html c")
      case True
      with 3 assms show thesis by (intro that(2)) (auto simp: escape_ascii_def byte_control ascii_def)
    next
      case False
      with 3 show thesis by (intro that(3)) (auto simp: escape_ascii_def byte_control)
    qed
  qed
qed

lemma body_escape_ascii:
  assumes "ascii c" and "str_body b"
  shows "str_body (escape_ascii c @ b)"
  using assms(1)
proof (cases rule: escape_ascii_cases)
  case (1 e)
  then show ?thesis using body_escape [of e b] assms(2) by simp
next
  case 2
  then show ?thesis using body_u_escape [OF assms] by simp
next
  case 3
  then show ?thesis using assms(2) by (simp add: body_plain)
qed

lemma unquote_escape:
  assumes "ascii c"
  shows "unquote (escape_ascii c @ s) = map_option ((#) c) (unquote s)"
  using assms
proof (cases rule: escape_ascii_cases)
  case (1 e)
  then have "e \<noteq> CHR ''u''" by (auto simp: quote_def backslash_def)
  with 1 show ?thesis by (simp add: unquote.simps [of "backslash # e # s"])
next
  case 2
  have "\<not> is_surrogate (byte c)" using 2(2) by (simp add: is_surrogate_def)
  moreover have "encode_rune (byte c) = [c]" using assms by (rule encode_rune_ascii)
  moreover note hex4_byte [OF 2(2), of s]
  moreover have "(@) [c] = (#) c" by (rule ext) simp
  ultimately show ?thesis unfolding 2(1)
    by (simp del: hex4.simps add: u_escape_def unquote.simps [of "backslash # _"])
next
  case 3
  with assms show ?thesis by (simp add: unquote_plain)
qed

lemma scalar_bytes: "is_scalar r \<Longrightarrow> 0x80 \<le> r \<Longrightarrow> list_all (\<lambda>c. 0x80 \<le> byte c) (encode_scalar r)"
proof -
  assume "is_scalar r" "0x80 \<le> r"
  then have "r div 64 < 0x4400" "r div 4096 < 0x110" "r div 262144 < 5" by (auto simp: is_scalar_def)
  then show ?thesis using \<open>0x80 \<le> r\<close>
    by (auto simp: encode_scalar_def less_mult_imp_div_less)
qed

lemma body_bytes: "list_all (\<lambda>c. 0x80 \<le> byte c) a \<Longrightarrow> str_body b \<Longrightarrow> str_body (a @ b)"
proof (induction a)
  case (Cons c a)
  then have "c \<noteq> quote \<and> c \<noteq> backslash" by (auto simp: quote_def backslash_def byte_def)
  with Cons show ?case by (auto intro: body_plain)
qed simp

lemma unquote_sep_escape:
  "unquote (sep_escape (CHR ''8'') @ s) = map_option ((@) (encode_scalar 0x2028)) (unquote s)"
  "unquote (sep_escape (CHR ''9'') @ s) = map_option ((@) (encode_scalar 0x2029)) (unquote s)"
proof -
  have "hex4 (''2028'' @ s) = Some 0x2028" "hex4 (''2029'' @ s) = Some 0x2029"
    by (simp_all add: hex_val_def is_digit_def byte_def)
  moreover have "\<not> is_surrogate 0x2028" "\<not> is_surrogate 0x2029"
    "encode_rune 0x2028 = encode_scalar 0x2028" "encode_rune 0x2029 = encode_scalar 0x2029"
    by (simp_all add: is_surrogate_def encode_rune_def)
  ultimately show "unquote (sep_escape (CHR ''8'') @ s) = map_option ((@) (encode_scalar 0x2028)) (unquote s)"
    "unquote (sep_escape (CHR ''9'') @ s) = map_option ((@) (encode_scalar 0x2029)) (unquote s)"
    by (simp_all del: hex4.simps add: sep_escape_def unquote.simps [of "backslash # _"])
qed

lemma unquote_scalar:
  assumes "is_scalar r" and "0x80 \<le> r"
  shows "unquote (encode_scalar r @ s) = map_option ((@) (encode_scalar r)) (unquote s)"
proof -
  obtain c t where c: "encode_scalar r = c # t" using encode_scalar_nonempty [of r] by (cases "encode_scalar r") simp_all
  then have "0x80 \<le> byte c" using scalar_bytes [OF assms] by simp
  then have "c \<noteq> quote \<and> c \<noteq> backslash \<and> \<not> ascii c \<and> \<not> byte c < 0x20" by (auto simp: quote_def backslash_def byte_def ascii_def)
  moreover have "encode_rune r = encode_scalar r" using assms by (auto simp: encode_rune_def is_scalar_def)
  ultimately show ?thesis
    using decode_rune_encode [OF assms(1), of s] unquote.simps [of "encode_scalar r @ s"] by (simp add: c)
qed

lemma escape_rune_scalar:
  assumes "is_scalar r"
  shows "unquote (escape_rune (r, encode_scalar r) @ s) = map_option ((@) (encode_scalar r)) (unquote s)"
    and "str_body b \<Longrightarrow> str_body (escape_rune (r, encode_scalar r) @ b)"
proof -
  consider "r < 0x80" | "0x80 \<le> r" "r = 0x2028 \<or> r = 0x2029" | "0x80 \<le> r" "r \<noteq> 0x2028" "r \<noteq> 0x2029" by linarith
  then have "unquote (escape_rune (r, encode_scalar r) @ s) = map_option ((@) (encode_scalar r)) (unquote s)
    \<and> (str_body b \<longrightarrow> str_body (escape_rune (r, encode_scalar r) @ b))"
  proof cases
    case 1
    then have "ascii (char_of r)" "(#) (char_of r) = (@) [char_of r]" by (auto simp: ascii_def)
    with 1 show ?thesis
      using unquote_escape [of "char_of r" s] body_escape_ascii [of "char_of r" b]
      by (simp add: escape_rune_def encode_scalar_def)
  next
    case 2
    then show ?thesis using unquote_sep_escape body_sep_escape by (auto simp: escape_rune_def rune_error_def)
  next
    case 3
    have "r = rune_error \<Longrightarrow> length (encode_scalar r) = 3" by (simp add: rune_error_def encode_scalar_def)
    with 3 have e: "escape_rune (r, encode_scalar r) = encode_scalar r" by (auto simp: escape_rune_def)
    show ?thesis using unquote_scalar [OF assms 3(1)] body_bytes [OF scalar_bytes [OF assms 3(1)]] by (simp add: e)
  qed
  then show "unquote (escape_rune (r, encode_scalar r) @ s) = map_option ((@) (encode_scalar r)) (unquote s)"
    and "str_body b \<Longrightarrow> str_body (escape_rune (r, encode_scalar r) @ b)" by simp_all
qed

lemma key_reads_back:
  assumes "valid_text k"
  shows "unquote (key_text k) = Some k" and "str_body (key_text k)"
proof -
  obtain rs where rs: "list_all is_scalar rs" "k = concat (map encode_scalar rs)"
    using assms by (auto simp: valid_text_def)
  have "key_text k = concat (map (\<lambda>r. escape_rune (r, encode_scalar r)) rs)"
    using rs by (simp add: key_text_def segments_encode comp_def)
  moreover have "unquote (concat (map (\<lambda>r. escape_rune (r, encode_scalar r)) rs)) = Some (concat (map encode_scalar rs))
    \<and> str_body (concat (map (\<lambda>r. escape_rune (r, encode_scalar r)) rs))"
    using rs(1) by (induction rs) (simp_all add: escape_rune_scalar body_Nil)
  ultimately show "unquote (key_text k) = Some k" and "str_body (key_text k)" using rs(2) by simp_all
qed

section \<open>Compaction\<close>

text \<open>The value that compaction prints.\<close>

fun escaped_val :: "jval \<Rightarrow> jval" where
  "escaped_val (JLit l) = JLit l"
| "escaped_val (JStr b) = JStr (html_escape b)"
| "escaped_val (JArr vs) = JArr (map escaped_val vs)"
| "escaped_val (JObj ms) = JObj (map (\<lambda>(k, v). (html_escape k, escaped_val v)) ms)"

lemma print_val_text: "print_val v = text_of (escaped_val v)"
proof (induction v)
  case (JArr vs)
  then show ?case by (simp add: comp_def cong: map_cong)
next
  case (JObj ms)
  have "print_val (snd kv) = text_of (escaped_val (snd kv))" if "kv \<in> set ms" for kv
    by (rule JObj [OF that]) (simp add: prod_set_defs)
  then show ?case by (simp add: comp_def case_prod_unfold cong: map_cong)
qed simp_all

lemma well_formed_escaped: "well_formed v \<Longrightarrow> well_formed (escaped_val v)"
proof (induction v)
  case (JObj ms)
  then show ?case by (force simp: list_all_iff prod_set_defs body_html)
qed (auto simp: list_all_iff body_html)

lemma depth_escaped: "depth (escaped_val v) = depth v"
proof (induction v)
  case (JArr vs)
  then show ?case by (simp add: comp_def cong: map_cong)
next
  case (JObj ms)
  have "depth (escaped_val (snd kv)) = depth (snd kv)" if "kv \<in> set ms" for kv
    by (rule JObj [OF that]) (simp add: prod_set_defs)
  then show ?case by (simp add: comp_def case_prod_unfold cong: map_cong)
qed simp_all

lemma compact_parse:
  assumes "compact w = Some c"
  obtains v where "json_parse w = Some v" and "c = text_of (escaped_val v)" and "well_formed (escaped_val v)"
    and "depth (escaped_val v) = depth v" and "json_parse c = Some (escaped_val v)"
proof -
  obtain v where v: "json_parse w = Some v" "c = text_of (escaped_val v)"
    using assms by (auto simp: compact_def print_val_text)
  with json_parse_well_formed [OF v(1)] have "well_formed (escaped_val v)" "shallow (escaped_val v)"
    by (simp_all add: well_formed_escaped shallow_def depth_escaped)
  with v json_parse_text that depth_escaped show thesis by blast
qed

section \<open>Maps\<close>

text \<open>A map as a decoder leaves it: keys once, valid UTF-8, and values that are documents one level below the limit.\<close>

definition raw_map :: "bytes gomap \<Rightarrow> bool" where
  "raw_map m \<longleftrightarrow> gomap_ok m
     \<and> (\<forall>(k, w) \<in> set m. valid_text k \<and> (\<exists>v. json_parse w = Some v \<and> depth v < max_depth))"

lemma put_members_raw:
  assumes "put_members m ms = Some m'" and "raw_map m"
    and "list_all (\<lambda>(k, w, v). json_parse w = Some v \<and> depth v < max_depth) ms"
  shows "raw_map m'"
  using assms
proof (induction m ms rule: put_members.induct)
  case (2 m k raw v ms)
  then obtain key where key: "unquote k = Some key" "put_members (AList.update key raw m) ms = Some m'"
    by (auto split: option.splits)
  have "raw_map (AList.update key raw m)"
    using 2(3,4) unquote_valid [OF key(1)] update_member [of _ _ key raw m]
    by (fastforce simp: raw_map_def distinct_update)
  with 2 key show ?case by simp
qed simp

lemma unmarshal_map_raw:
  assumes "unmarshal_map s = Some (Some m)"
  shows "raw_map m"
proof -
  obtain ms where ms: "json_parse s = Some (JObj ms)" and m: "put_members [] (object_members s) = Some m"
    using assms by (auto simp: unmarshal_map_def split: option.splits jval.splits if_splits)
  have "json_parse w = Some v \<and> depth v < max_depth" if "(k, w, v) \<in> set (object_members s)" for k w v
  proof -
    have "(k, v) \<in> set ms" using that object_members_parse(1) [OF ms] by force
    from depth_member [OF this] json_parse_well_formed [OF ms] object_members_parse(2) [OF ms] that
    show ?thesis by (auto simp: shallow_def list_all_iff)
  qed
  then have "list_all (\<lambda>(k, w, v). json_parse w = Some v \<and> depth v < max_depth) (object_members s)"
    by (auto simp: list_all_iff)
  from put_members_raw [OF m _ this] show ?thesis by (simp add: raw_map_def)
qed

lemma update_fresh: "k \<notin> set (map fst m) \<Longrightarrow> AList.update k v m = m @ [(k, v)]"
  by (induction m) auto

lemma put_members_fresh:
  assumes "list_all (\<lambda>(k, w, v). unquote (f k) = Some k) xs" and "distinct (map fst m @ map fst xs)"
  shows "put_members m (map (\<lambda>(k, w, v). (f k, w, v)) xs) = Some (m @ map (\<lambda>(k, w, v). (k, w)) xs)"
  using assms
proof (induction xs arbitrary: m)
  case (Cons x xs)
  obtain k w v where x: "x = (k, w, v)" by (cases x)
  have "AList.update k w m = m @ [(k, w)]"
    using Cons.prems(2) by (intro update_fresh) (auto simp: x)
  moreover have "put_members (m @ [(k, w)]) (map (\<lambda>(k, w, v). (f k, w, v)) xs)
      = Some ((m @ [(k, w)]) @ map (\<lambda>(k, w, v). (k, w)) xs)"
    using Cons.prems by (intro Cons.IH) (auto simp: x)
  ultimately show ?case using Cons.prems(1) by (simp add: x)
qed simp

lemma put_strings_fresh:
  assumes "list_all (\<lambda>(k, x, w, v). unquote (f k) = Some k \<and> string_of_val [] v = Some x) xs"
    and "distinct (map fst m @ map fst xs)"
  shows "put_strings m (map (\<lambda>(k, x, w, v). (f k, w, v)) xs) = Some (m @ map (\<lambda>(k, x, w, v). (k, x)) xs)"
  using assms
proof (induction xs arbitrary: m)
  case (Cons y xs)
  obtain k x w v where y: "y = (k, x, w, v)" by (cases y)
  have "AList.update k x m = m @ [(k, x)]"
    using Cons.prems(2) by (intro update_fresh) (auto simp: y)
  moreover have "put_strings (m @ [(k, x)]) (map (\<lambda>(k, x, w, v). (f k, w, v)) xs)
      = Some ((m @ [(k, x)]) @ map (\<lambda>(k, x, w, v). (k, x)) xs)"
    using Cons.prems by (intro Cons.IH) (auto simp: y)
  ultimately show ?case using Cons.prems(1) by (auto simp: y)
qed simp

lemma gomap_sort: "gomap_ok (sort_key fst m) \<longleftrightarrow> gomap_ok m"
proof -
  have "mset (map fst (sort_key fst m)) = mset (map fst m)" by simp
  then show ?thesis by (metis mset_eq_imp_distinct_iff)
qed

text \<open>What is written for a map.\<close>

definition compacted :: "bytes gomap \<Rightarrow> bytes gomap" where
  "compacted m = map (\<lambda>(k, w). (k, the (compact w))) (sort_key fst m)"

definition map_val :: "bytes gomap \<Rightarrow> jval" where
  "map_val m = JObj (map (\<lambda>(k, w). (key_text k, escaped_val (the (json_parse w)))) (sort_key fst m))"

lemma marshal_map_text:
  assumes "raw_map m"
  shows "marshal_map m = Some (text_of (map_val m))"
proof -
  have m: "map marshal_member (sort_key fst m)
      = map (\<lambda>kw. Some (quote # key_text (fst kw) @ quote # CHR '':'' # text_of (escaped_val (the (json_parse (snd kw)))))) (sort_key fst m)"
    using assms by (fastforce simp: raw_map_def marshal_member_def compact_def print_val_text quote_string_key)
  have those: "those (map (\<lambda>x. Some (f x)) xs) = Some (map f xs)" for f :: "'a \<Rightarrow> 'b" and xs by (induction xs) auto
  show ?thesis
    unfolding marshal_map_def m those by (simp add: map_val_def case_prod_unfold comp_def)
qed

lemma fold_max_le: "(\<And>x. x \<in> set xs \<Longrightarrow> f x \<le> c) \<Longrightarrow> m \<le> c \<Longrightarrow> fold max (map f xs) m \<le> (c :: nat)"
  by (induction xs arbitrary: m) auto

lemma raw_map_val:
  assumes "raw_map m"
  shows "well_formed (map_val m)" and "shallow (map_val m)"
proof -
  have v: "well_formed (escaped_val (the (json_parse w))) \<and> depth (escaped_val (the (json_parse w))) < max_depth \<and> valid_text k"
    if "(k, w) \<in> set m" for k w
    using assms that json_parse_well_formed [of w] by (fastforce simp: raw_map_def well_formed_escaped depth_escaped)
  then show "well_formed (map_val m)"
    using key_reads_back(2) by (fastforce simp: map_val_def list_all_iff)
  from v fold_max_le [of "sort_key fst m" "\<lambda>(k, w). depth (escaped_val (the (json_parse w)))" "max_depth - 1" 0]
  show "shallow (map_val m)"
    by (fastforce simp: map_val_def shallow_def max_depth_def comp_def case_prod_unfold)
qed

text \<open>It is read back as the map with its values compacted.\<close>

theorem marshal_then_unmarshal:
  assumes "raw_map m"
  obtains c where "marshal_map m = Some c" and "json_parse c = Some (map_val m)"
    and "unmarshal_map c = Some (Some (compacted m))"
proof
  let ?c = "text_of (map_val m)"
  let ?xs = "map (\<lambda>(k, w). (k, the (compact w), escaped_val (the (json_parse w)))) (sort_key fst m)"
  show "marshal_map m = Some ?c" by (rule marshal_map_text [OF assms])
  note val = raw_map_val [OF assms]
  show parse: "json_parse ?c = Some (map_val m)" by (rule json_parse_text [OF val])
  have "compact w = Some (text_of (escaped_val (the (json_parse w))))" if "(k, w) \<in> set m" for k w
    using assms that by (fastforce simp: raw_map_def compact_def print_val_text)
  then have "object_members ?c = map (\<lambda>(k, w, v). (key_text k, w, v)) ?xs"
    using object_members_text [OF val(1) [unfolded map_val_def]] by (fastforce simp: map_val_def)
  moreover have "put_members [] (map (\<lambda>(k, w, v). (key_text k, w, v)) ?xs) = Some ([] @ map (\<lambda>(k, w, v). (k, w)) ?xs)"
  proof (rule put_members_fresh)
    show "list_all (\<lambda>(k, w, v). unquote (key_text k) = Some k) ?xs"
      using assms key_reads_back(1) by (fastforce simp: raw_map_def list_all_iff)
    show "distinct (map fst [] @ map fst ?xs)"
      using assms gomap_sort [of m] by (simp add: raw_map_def comp_def case_prod_unfold)
  qed
  ultimately show "unmarshal_map ?c = Some (Some (compacted m))"
    using parse by (simp add: unmarshal_map_def map_val_def compacted_def comp_def case_prod_unfold)
qed

end
