(* ===== verification/JsonPrint.thy ===== *)
theory JsonPrint
  imports ClientLib JsonCompact
begin

text \<open>
  The documents the server and the client send each other, built of strings of valid UTF-8, raw JSON
  values, arrays and objects: how they are printed, and that they decode member by member to what was
  printed.
\<close>

section \<open>Documents\<close>

datatype doc =
    DText string
  | DRaw bytes
  | DList "doc list"
  | DMembers "(string \<times> doc) list"

fun printed :: "doc \<Rightarrow> bytes" where
  "printed (DText s) = quote_string s"
| "printed (DRaw w) = the (JsonCodec.compact w)"
| "printed (DList ds) = json_array (Some (map printed ds))"
| "printed (DMembers ms) = json_object (map (\<lambda>(k, d). (k, printed d)) ms)"

fun tree :: "doc \<Rightarrow> jval" where
  "tree (DText s) = JStr (key_text s)"
| "tree (DRaw w) = escaped_val (the (json_parse w))"
| "tree (DList ds) = JArr (map tree ds)"
| "tree (DMembers ms) = JObj (map (\<lambda>(k, d). (key_text k, tree d)) ms)"

fun plain :: "doc \<Rightarrow> bool" where
  "plain (DText s) \<longleftrightarrow> valid_text s"
| "plain (DRaw w) \<longleftrightarrow> json_parse w \<noteq> None"
| "plain (DList ds) \<longleftrightarrow> list_all plain ds"
| "plain (DMembers ms) \<longleftrightarrow> list_all (\<lambda>(k, d). valid_text k \<and> plain d) ms"

lemma plain_well_formed: "plain d \<Longrightarrow> well_formed (tree d)"
proof (induction d)
  case (DRaw w)
  then show ?case using json_parse_well_formed [of w] by (auto simp: well_formed_escaped)
next
  case (DMembers ms)
  then show ?case by (force simp: list_all_iff prod_set_defs key_reads_back)
qed (auto simp: list_all_iff key_reads_back)

lemma printed_text: "plain d \<Longrightarrow> printed d = text_of (tree d)"
proof (induction d)
  case (DRaw w)
  then show ?case by (auto simp: compact_def print_val_text)
next
  case (DList ds)
  then show ?case by (simp add: json_array_def list_all_iff comp_def cong: map_cong)
next
  case (DMembers ms)
  have "printed (snd kd) = text_of (tree (snd kd))"
    if "kd \<in> set ms" for kd
    using DMembers.IH [OF that, of "snd kd"] DMembers.prems that
    by (auto simp: list_all_iff prod_set_defs)
  then show ?case by (simp add: json_object_def quote_string_key comp_def case_prod_unfold cong: map_cong)
qed (simp add: quote_string_key)

section \<open>A document as the body of an answer\<close>

text \<open>\<open>json.Encoder\<close> writes a value and a line feed.\<close>

definition encoded :: "bytes \<Rightarrow> bytes" where
  "encoded v = v @ [CHR 0x0A]"

text \<open>A document is a struct of the client: what it decodes are exactly the members printed.\<close>

lemma json_parse_printed: "plain d \<Longrightarrow> shallow (tree d) \<Longrightarrow> json_parse (printed d) = Some (tree d)"
  by (simp add: printed_text json_parse_text plain_well_formed)

lemma object_members_printed:
  assumes "plain (DMembers ms)"
  shows "object_members (printed (DMembers ms)) = map (\<lambda>(k, d). (key_text k, printed d, tree d)) ms"
proof -
  have "printed (snd kd) = text_of (tree (snd kd))" if "kd \<in> set ms" for kd
    using assms that printed_text by (fastforce simp: list_all_iff)
  then show ?thesis
    using object_members_text [of "map (\<lambda>(k, d). (key_text k, tree d)) ms"] plain_well_formed [OF assms]
    unfolding printed_text [OF assms] tree.simps
    by (simp add: comp_def case_prod_unfold del: text_of.simps cong: map_cong)
qed

lemma first_value_text:
  assumes "well_formed v" and "shallow v" and "ends r"
  shows "first_value (text_of v @ r) = Some (text_of v)"
  using assms reads_backD [OF well_formed_reads_back weight_fuel, of v "r" "r"] raw_text_of [of v r]
  by (simp add: first_value_def)

lemma first_value_printed:
  assumes "plain d" and "shallow (tree d)"
  shows "first_value (encoded (printed d)) = Some (printed d)"
  unfolding encoded_def printed_text [OF assms(1)]
  by (rule first_value_text [OF plain_well_formed [OF assms(1)] assms(2)]) simp

lemma decode_printed:
  assumes "plain (DMembers ms)" and "shallow (tree (DMembers ms))"
  shows "decode_struct f init (encoded (printed (DMembers ms)))
    = take_members f init (map (\<lambda>(k, d). (key_text k, printed d, tree d)) ms)"
  using first_value_printed [OF assms] json_parse_printed [OF assms] object_members_printed [OF assms(1)]
  by (simp add: decode_struct_def del: printed.simps)

end
