(* ===== verification/ClientTheorems.thy ===== *)
theory ClientTheorems
  imports JsonPrint Handlers
begin

text \<open>
  The client and the server understand each other: a request of the client arrives at the route it
  means with the values it was called with, its JSON bodies decode to what was put in, and the
  server's refusals are told apart.
\<close>

section \<open>How the server reads a request\<close>

text \<open>
  \<open>net/http\<close> and \<open>net/url\<close> on the server's side: the path up to the question mark, its segments
  unescaped one by one as the mux matches them, and the query. A segment that is empty, \<open>.\<close> or \<open>..\<close>
  would be cleaned away.
\<close>

fun split_on :: "char \<Rightarrow> string \<Rightarrow> string list" where
  "split_on c [] = [[]]"
| "split_on c (x # xs) =
     (if x = c then [] # split_on c xs
      else (case split_on c xs of [] \<Rightarrow> [[x]] | y # ys \<Rightarrow> (x # y) # ys))"

definition query_pair :: "string \<Rightarrow> (string \<times> string) list" where
  "query_pair kv =
     (if kv = [] \<or> CHR '';'' \<in> set kv then []
      else (case cut_at (CHR ''='') kv of (k, v, _) \<Rightarrow>
              (case (unescape_url True k, unescape_url True v) of (Some a, Some b) \<Rightarrow> [(a, b)] | _ \<Rightarrow> [])))"

definition parse_query :: "string \<Rightarrow> (string \<times> string) list" where
  "parse_query q = concat (map query_pair (split_on (CHR ''&'') q))"

definition received :: "string \<Rightarrow> outgoing \<Rightarrow> request option" where
  "received base q =
     (case cut_prefix (base @ ''/'') (q_url q) of
        None \<Rightarrow> None
      | Some target \<Rightarrow>
          (case cut_at (CHR ''?'') target of (path, query, _) \<Rightarrow>
             map_option (\<lambda>segs. \<lparr>r_method = q_method q, r_path = segs, r_query = parse_query query,
                 r_authorization = q_authorization q,
                 r_body = Whole (case q_body q of None \<Rightarrow> [] | Some b \<Rightarrow> b)\<rparr>)
               (those (map (unescape_url False) (split_on (CHR ''/'') path)))))"

section \<open>Escaping\<close>

lemma hex_val_upper: "n < 16 \<Longrightarrow> hex_val (upper_hex n) = Some n"
  by (auto simp: upper_hex_def hex_val_def is_digit_def)

lemma upper_hex_plain: "n < 16 \<Longrightarrow> upper_hex n \<notin> set ''/?&;=+#''"
proof
  assume n: "n < 16" and "upper_hex n \<in> set ''/?&;=+#''"
  then have "byte (upper_hex n) \<in> set [47, 63, 38, 59, 61, 43, 35]" by (auto simp: byte_def)
  with n show False by (auto simp: upper_hex_def split: if_splits)
qed

lemma unescape_percent: "unescape_url q (percent c @ s) = map_option ((#) c) (unescape_url q s)"
proof -
  have "char_of (16 * (byte c div 16) + byte c mod 16) = c" by simp
  then show ?thesis by (simp add: percent_def hex_val_upper nibbles)
qed

lemma percent_plain: "set (percent c) \<inter> set ''/?&;=+#'' = {}"
  using upper_hex_plain [OF nibbles(1), of c] upper_hex_plain [OF nibbles(2), of c]
  by (auto simp: percent_def)

lemma unreserved_plain: "unreserved c \<Longrightarrow> c \<notin> set ''%/?&;=+#''"
  by (auto simp: unreserved_def is_digit_def byte_def)

lemma path_plain: "unreserved c \<or> c \<in> set ''$&+:=@'' \<Longrightarrow> c \<notin> set ''%/?#''"
  using unreserved_plain [of c] by auto

lemma PathUnescape_PathEscape: "unescape_url False (PathEscape s) = Some s"
proof (induction s)
  case (Cons c s)
  then show ?case
    using path_plain [of c] unescape_percent [of False c] by (auto simp: PathEscape_def)
qed (simp add: PathEscape_def)

lemma QueryUnescape_QueryEscape: "unescape_url True (QueryEscape s) = Some s"
proof (induction s)
  case (Cons c s)
  then show ?case
    using unreserved_plain [of c] unescape_percent [of True c] by (auto simp: QueryEscape_def)
qed (simp add: QueryEscape_def)

lemma PathEscape_plain: "c \<in> set (PathEscape s) \<Longrightarrow> c \<noteq> CHR ''/'' \<and> c \<noteq> CHR ''?''"
  using path_plain percent_plain by (fastforce simp: PathEscape_def split: if_splits)

lemma QueryEscape_plain: "c \<in> set (QueryEscape s) \<Longrightarrow> c \<noteq> CHR ''&'' \<and> c \<noteq> CHR '';''"
  using unreserved_plain percent_plain by (fastforce simp: QueryEscape_def split: if_splits)

section \<open>Arriving\<close>

lemma split_on_last: "c \<notin> set xs \<Longrightarrow> split_on c xs = [xs]"
  by (induction xs) auto

lemma split_on_append: "c \<notin> set xs \<Longrightarrow> split_on c (xs @ c # ys) = xs # split_on c ys"
proof (induction xs)
  case (Cons x xs)
  then show ?case by auto
qed simp

lemma cut_at_none: "c \<notin> set xs \<Longrightarrow> cut_at c xs = (xs, [], False)"
  by (induction xs) (auto simp: cut_at_def)

lemma cut_at_append: "c \<notin> set xs \<Longrightarrow> cut_at c (xs @ c # ys) = (xs, ys, True)"
  by (induction xs) (auto simp: cut_at_def)

lemma PathEscape_parts [simp]:
  "CHR ''/'' \<notin> set (PathEscape s)" "CHR ''?'' \<notin> set (PathEscape s)"
  using PathEscape_plain by blast+

lemma join_slashes:
  "list_all (\<lambda>x. CHR ''/'' \<notin> set x) xs \<Longrightarrow> xs \<noteq> [] \<Longrightarrow> split_on (CHR ''/'') (join ''/'' xs) = xs"
proof (induction xs rule: induct_list012)
  case (3 x y xs)
  then show ?case by (simp add: split_on_append)
qed (simp_all add: split_on_last)

lemma those_escaped: "those (map (unescape_url False \<circ> PathEscape) xs) = Some xs"
  by (induction xs) (simp_all add: PathUnescape_PathEscape)

lemma received_path:
  assumes "q_url q = base @ ''/'' @ join ''/'' (map PathEscape xs) @ (if query = [] then [] else CHR ''?'' # query)"
    and "xs \<noteq> []"
  shows "received base q = Some \<lparr>r_method = q_method q, r_path = xs, r_query = parse_query query,
    r_authorization = q_authorization q, r_body = Whole (case q_body q of None \<Rightarrow> [] | Some b \<Rightarrow> b)\<rparr>"
proof -
  let ?p = "join ''/'' (map PathEscape xs)"
  have "CHR ''?'' \<notin> set ?p" by (induction xs rule: induct_list012) simp_all
  then have cut: "\<exists>b. cut_at (CHR ''?'') (?p @ (if query = [] then [] else CHR ''?'' # query)) = (?p, query, b)"
    by (cases "query = []") (auto simp: cut_at_none cut_at_append)
  have "split_on (CHR ''/'') ?p = map PathEscape xs"
    using assms(2) by (intro join_slashes) (simp_all add: list_all_iff)
  moreover have "cut_prefix (base @ ''/'') (q_url q) = Some (?p @ (if query = [] then [] else CHR ''?'' # query))"
    using assms(1) by (simp add: cut_prefix_Some)
  ultimately show ?thesis using cut by (auto simp: received_def those_escaped)
qed

lemma parse_query_nil: "parse_query [] = []"
  by (simp add: parse_query_def query_pair_def)

lemma parse_query_full: "parse_query ''reveal=full'' = [(''reveal'', ''full'')]"
  by code_simp

lemma parse_query_after: "parse_query (''after='' @ QueryEscape x) = [(''after'', x)]"
proof -
  have "CHR ''&'' \<notin> set (''after='' @ QueryEscape x)" "CHR '';'' \<notin> set (''after='' @ QueryEscape x)"
    using QueryEscape_plain by auto
  moreover have "cut_at (CHR ''='') (''after='' @ QueryEscape x) = (''after'', QueryEscape x, True)"
    using cut_at_append [of "CHR ''=''" "''after''" "QueryEscape x"] by simp
  moreover have "unescape_url True ''after'' = Some ''after''" by code_simp
  ultimately show ?thesis
    by (simp add: parse_query_def split_on_last query_pair_def QueryUnescape_QueryEscape)
qed

section \<open>Bodies\<close>

lemma fill_strings_escaped:
  "list_all valid_text xs \<Longrightarrow> fill_strings [] (map (\<lambda>x. JStr (key_text x)) xs) = Some xs"
  by (induction xs) (simp_all add: string_of_val_def key_reads_back)

lemma slice_of_texts:
  "list_all valid_text xs \<Longrightarrow> slice_of_val ([], 0) (tree (DList (map DText xs))) = Some (xs, length xs)"
  using fill_strings_escaped [of xs] by (cases xs) (simp_all add: slice_of_val_def comp_def)

lemma printed_texts: "printed (DList (map DText xs)) = json_array (Some (map quote_string xs))"
  by (simp add: comp_def)

lemma search_body:
  assumes "valid_text f" and "valid_text x"
  shows "unmarshal_string_map (json_object [(f, quote_string x)]) = Some [(f, x)]"
proof -
  let ?d = "DMembers [(f, DText x)]"
  have "plain ?d" "shallow (tree ?d)" using assms by (simp_all add: shallow_def max_depth_def)
  from json_parse_printed [OF this] object_members_printed [OF this(1)] show ?thesis
    using assms by (simp add: unmarshal_string_map_def key_reads_back string_of_val_def)
qed

lemma field_names:
  "names_field ''ids'' ''ids''" "\<not> names_field ''reveal'' ''ids''" "names_field ''reveal'' ''reveal''"
  "names_field ''error'' ''error''"
  by code_simp+

lemma field_literals: "unquote ''ids'' = Some ''ids''" "unquote ''reveal'' = Some ''reveal''"
    "unquote ''error'' = Some ''error''"
  by code_simp+

lemma depth_texts: "depth (tree (DList (map DText xs))) = 1"
  by (induction xs) (simp_all add: comp_def)

lemma reveal_body:
  assumes "list_all valid_text ids" and "valid_text mode"
  shows "unmarshal_reveal (json_object [(''ids'', json_array (Some (map quote_string ids))), (''reveal'', quote_string mode)])
    = Some (ids, mode)"
proof -
  let ?d = "DMembers [(''ids'', DList (map DText ids)), (''reveal'', DText mode)]"
  have lits: "valid_text ''ids''" "valid_text ''reveal''" by (rule valid_text_asciis, code_simp)+
  have texts: "key_text ''ids'' = ''ids''" "key_text ''reveal'' = ''reveal''" by code_simp+
  have "plain ?d" using assms lits by (simp add: list_all_iff)
  moreover have "shallow (tree ?d)" using depth_texts [of ids] by (simp add: shallow_def max_depth_def)
  ultimately show ?thesis
    using json_parse_printed [of ?d] object_members_printed [of "[(''ids'', DList (map DText ids)), (''reveal'', DText mode)]"]
      slice_of_texts [OF assms(1)] assms lits texts
    by (simp add: printed_texts [simplified] unmarshal_reveal_def field_literals field_names string_of_val_def
        key_reads_back slice_strings_def)
qed

section \<open>Refusals\<close>

text \<open>The body of \<open>writeError\<close> is a map with one member.\<close>

definition error_body :: "string \<Rightarrow> bytes" where
  "error_body m = encoded (json_object [(''error'', quote_string m)])"

lemma error_message_body:
  assumes "valid_text m"
  shows "error_message (error_body m) = m"
proof -
  let ?ms = "[(''error'', DText m)]"
  have k: "valid_text ''error''" "key_text ''error'' = ''error''" by (rule valid_text_asciis, code_simp) code_simp
  then have "plain (DMembers ?ms)" "shallow (tree (DMembers ?ms))" using assms by (simp_all add: shallow_def max_depth_def)
  from decode_printed [OF this, of error_member "[]"] k assms show ?thesis
    by (simp add: error_message_def error_body_def error_member_def field_literals field_names
        string_of_val_def key_reads_back)
qed

text \<open>
  The client tells the server's refusals apart. When the server refuses with a status and a
  message, as writeError writes it, the caller gets exactly that status and that message, except for
  a 404 with the vault's own "object not found", which alone becomes the error for an object that
  does not exist.
\<close>

theorem refusals_told_apart:
  assumes "valid_text m" and "status < 200 \<or> 299 < status"
    and "\<And>q. send q w = (Inr (status, error_body m), w')"
  shows "do_call send c method path None out w
    = (Inl (if status = 404 \<and> m = ''object not found'' then Object_not_found else Refused_with status m), w')"
  using assms(2) by (auto simp: do_call_def assms(3) error_message_body [OF assms(1)] Let_def)

theorem refusals_told_apart_witness:
  "fst (do_call (\<lambda>q w. (Inr (401, error_body ''invalid API key''), w)) (NewClient ''http://localhost'' ''k'') ''GET'' ''/v2'' None Some ())
     = Inl (Refused_with 401 ''invalid API key'')"
proof -
  have m: "valid_text ''invalid API key''" by (rule valid_text_asciis, code_simp)
  show ?thesis
    using refusals_told_apart [OF m, of 401 "\<lambda>q w. (Inr (401, error_body ''invalid API key''), w)" "()" "()" "NewClient ''http://localhost'' ''k''"
        "''GET''" "''/v2''" Some] by simp
qed

section \<open>The calls\<close>

text \<open>What a call puts on a network that only remembers, and where that arrives.\<close>

definition spy :: "outgoing list network" where
  "spy q w = (Inl (ErrMsg ''offline''), w @ [q])"

definition arriving ::
  "api_client \<Rightarrow> 'a \<times> outgoing list \<Rightarrow> (endpoint \<times> string list \<times> (string \<times> string) list \<times> string \<times> upload) option" where
  "arriving c out =
     (case snd out of
        [q] \<Rightarrow>
          (case received (ac_base c) q of
             None \<Rightarrow> None
           | Some r \<Rightarrow> map_option (\<lambda>(e, vs). (e, vs, r_query r, r_authorization r, r_body r))
                         (lookup_route routes (r_method r) (r_path r)))
      | _ \<Rightarrow> None)"

definition proper :: "string \<Rightarrow> bool" where
  "proper s \<longleftrightarrow> s \<notin> set [[], ''.'', ''..'']"

lemma fixed_segments:
  "PathEscape ''v1'' = ''v1''" "PathEscape ''collections'' = ''collections''" "PathEscape ''objects'' = ''objects''"
  "PathEscape ''batch'' = ''batch''" "PathEscape ''reveal'' = ''reveal''" "PathEscape ''search'' = ''search''"
  "PathEscape ''subjects'' = ''subjects''"
  by code_simp+

lemma arriving_call:
  assumes "path = ''/'' @ join ''/'' (map PathEscape xs) @ (if query = [] then [] else CHR ''?'' # query)" and "xs \<noteq> []"
    and "inp = (case body of None \<Rightarrow> None | Some b \<Rightarrow> Some (Inr b))"
    and "lookup_route routes method xs = Some (e, vs)"
  shows "arriving c (do_call spy c method path inp out [])
    = Some (e, vs, parse_query query, ''Bearer '' @ ac_key c, Whole (case body of None \<Rightarrow> [] | Some b \<Rightarrow> b))"
proof -
  let ?q = "\<lparr>q_method = method, q_url = ac_base c @ path, q_authorization = ''Bearer '' @ ac_key c, q_body = body\<rparr>"
  have "snd (do_call spy c method path inp out []) = [?q]"
    by (cases body) (simp_all add: do_call_def spy_def assms(3))
  moreover have "received (ac_base c) ?q = Some \<lparr>r_method = method, r_path = xs, r_query = parse_query query,
      r_authorization = ''Bearer '' @ ac_key c, r_body = Whole (case body of None \<Rightarrow> [] | Some b \<Rightarrow> b)\<rparr>"
    using received_path [of ?q "ac_base c" xs query] assms(1,2) by simp
  ultimately show ?thesis using assms(4) by (simp add: arriving_def)
qed

lemma object_routes:
  assumes "proper collection" and "proper oid" and "proper who"
  shows "lookup_route routes ''POST'' [''v1'', ''collections'', collection, ''objects''] = Some (Create, [collection])"
    and "lookup_route routes ''POST'' [''v1'', ''collections'', collection, ''objects'', ''batch''] = Some (Create_batch, [collection])"
    and "lookup_route routes ''POST'' [''v1'', ''collections'', collection, ''objects'', ''reveal''] = Some (Reveal_batch, [collection])"
    and "lookup_route routes ''GET'' [''v1'', ''collections'', collection, ''objects'', oid] = Some (Get, [collection, oid])"
    and "lookup_route routes ''DELETE'' [''v1'', ''collections'', collection, ''objects'', oid] = Some (Delete_object, [collection, oid])"
    and "lookup_route routes ''POST'' [''v1'', ''collections'', collection, ''search''] = Some (Search_in, [collection])"
    and "lookup_route routes ''GET'' [''v1'', ''subjects'', who] = Some (Subject_of, [who])"
    and "lookup_route routes ''DELETE'' [''v1'', ''subjects'', who] = Some (Erase_subject, [who])"
  using assms by (simp_all add: routes_def Let_def proper_def method_matches_def)

text \<open>
  C37: Every call of the client arrives as it was meant. For whatever collections, ids and subjects
  the caller names (slashes, question marks, percent signs and bytes outside ASCII included), the
  server routes the request to the one endpoint the call is for, with exactly these values, the
  key as bearer token, and the query and the body unchanged; and the bodies the client builds
  itself decode to the ids, the mode, and the field and value searched for that were passed in, as
  long as these are valid UTF-8: the encoder replaces bytes that are not. A name that is empty, . or ..
  is no path segment.
\<close>

theorem client_calls_arrive:
  assumes "proper collection" and "proper oid" and "proper who"
    and "list_all valid_text ids" and "valid_text f" and "valid_text x"
  shows "arriving c (CreateObject spy c collection (Some (Inr body)) [])
      = Some (Create, [collection], [], ''Bearer '' @ ac_key c, Whole body)
    \<and> arriving c (CreateBatch spy c collection (Some (map Inr objs)) [])
      = Some (Create_batch, [collection], [], ''Bearer '' @ ac_key c, Whole (json_object [(''objects'', json_array (Some objs))]))
    \<and> arriving c (GetObject spy c collection oid full out [])
      = Some (Get, [collection, oid], if full then [(''reveal'', ''full'')] else [], ''Bearer '' @ ac_key c, Whole [])
    \<and> (\<exists>b. arriving c (Reveal spy c collection (Some ids) full [])
        = Some (Reveal_batch, [collection], [], ''Bearer '' @ ac_key c, Whole b)
        \<and> unmarshal_reveal b = Some (ids, if full then ''full'' else ''masked''))
    \<and> arriving c (DeleteObject spy c collection oid [])
      = Some (Delete_object, [collection, oid], [], ''Bearer '' @ ac_key c, Whole [])
    \<and> (\<exists>b. arriving c (SearchAfter spy c collection f x after [])
        = Some (Search_in, [collection], if after = [] then [] else [(''after'', after)], ''Bearer '' @ ac_key c, Whole b)
        \<and> unmarshal_string_map b = Some [(f, x)])
    \<and> arriving c (SubjectRefs spy c who []) = Some (Subject_of, [who], [], ''Bearer '' @ ac_key c, Whole [])
    \<and> arriving c (Erase spy c who []) = Some (Erase_subject, [who], [], ''Bearer '' @ ac_key c, Whole [])"
proof -
  note routes = object_routes [OF assms(1-3)]
  note path = collectionPath_def fixed_segments
  have objs: "try_map (\<lambda>x. x) (map Inr objs) = Inr objs" by (induction objs) simp_all
  have "arriving c (CreateObject spy c collection (Some (Inr body)) [])
      = Some (Create, [collection], [], ''Bearer '' @ ac_key c, Whole body)"
    unfolding CreateObject_def
    by (subst arriving_call [OF _ _ _ routes(1), where query = "[]" and body = "Some body"])
      (simp_all add: path parse_query_nil)
  moreover have "arriving c (CreateBatch spy c collection (Some (map Inr objs)) [])
      = Some (Create_batch, [collection], [], ''Bearer '' @ ac_key c, Whole (json_object [(''objects'', json_array (Some objs))]))"
    unfolding CreateBatch_def
    by (subst arriving_call [OF _ _ _ routes(2), where query = "[]"
          and body = "Some (json_object [(''objects'', json_array (Some objs))])"])
      (simp_all add: path parse_query_nil objs)
  moreover have "arriving c (GetObject spy c collection oid full out [])
      = Some (Get, [collection, oid], if full then [(''reveal'', ''full'')] else [], ''Bearer '' @ ac_key c, Whole [])"
    unfolding GetObject_def
    by (subst arriving_call [OF _ _ _ routes(4), where query = "if full then ''reveal=full'' else []" and body = None])
      (simp_all add: path parse_query_nil parse_query_full)
  moreover have "arriving c (Reveal spy c collection (Some ids) full [])
      = Some (Reveal_batch, [collection], [], ''Bearer '' @ ac_key c,
          Whole (json_object [(''ids'', json_array (Some (map quote_string ids))),
            (''reveal'', quote_string (if full then ''full'' else ''masked''))]))"
    unfolding Reveal_def
    by (subst arriving_call [OF _ _ _ routes(3), where query = "[]" and body = "Some (json_object
          [(''ids'', json_array (Some (map quote_string ids))),
           (''reveal'', quote_string (if full then ''full'' else ''masked''))])"])
      (simp_all add: path parse_query_nil)
  moreover have "valid_text ''full''" "valid_text ''masked''" by (rule valid_text_asciis, code_simp)+
  then have "valid_text (if full then ''full'' else ''masked'')" by simp
  note reveal_body [OF assms(4) this]
  moreover have "arriving c (DeleteObject spy c collection oid [])
      = Some (Delete_object, [collection, oid], [], ''Bearer '' @ ac_key c, Whole [])"
    unfolding DeleteObject_def
    by (subst arriving_call [OF _ _ _ routes(5), where query = "[]" and body = None])
      (simp_all add: path parse_query_nil)
  moreover have "arriving c (SearchAfter spy c collection f x after [])
      = Some (Search_in, [collection], if after = [] then [] else [(''after'', after)], ''Bearer '' @ ac_key c,
          Whole (json_object [(f, quote_string x)]))"
    unfolding SearchAfter_def
    by (subst arriving_call [OF _ _ _ routes(6), where query = "if after = [] then [] else ''after='' @ QueryEscape after"
          and body = "Some (json_object [(f, quote_string x)])"])
      (simp_all add: path parse_query_nil parse_query_after del: append_Cons)
  moreover note search_body [OF assms(5,6)]
  moreover have "arriving c (SubjectRefs spy c who []) = Some (Subject_of, [who], [], ''Bearer '' @ ac_key c, Whole [])"
    unfolding SubjectRefs_def
    by (subst arriving_call [OF _ _ _ routes(7), where query = "[]" and body = None])
      (simp_all add: path parse_query_nil)
  moreover have "arriving c (Erase spy c who []) = Some (Erase_subject, [who], [], ''Bearer '' @ ac_key c, Whole [])"
    unfolding Erase_def
    by (subst arriving_call [OF _ _ _ routes(8), where query = "[]" and body = None])
      (simp_all add: path parse_query_nil)
  ultimately show ?thesis by blast
qed

theorem client_calls_arrive_witness:
  "arriving (NewClient ''https://sealbox/'' ''k'') (DeleteObject spy (NewClient ''https://sealbox/'' ''k'') ''a/b'' ''50%?'' [])
     = Some (Delete_object, [''a/b'', ''50%?''], [], ''Bearer k'', Whole [])"
proof -
  have p: "proper ''a/b''" "proper ''50%?''" "proper ''kim''" by code_simp+
  have v: "valid_text ''x''" "valid_text ''mail''" "valid_text ''a@b.c''" by (rule valid_text_asciis, code_simp)+
  then have a: "list_all valid_text [''x'']" by simp
  have k: "ac_key (NewClient ''https://sealbox/'' ''k'') = ''k''" by (simp add: NewClient_def)
  show ?thesis
    using client_calls_arrive [OF p a v(2,3), of "NewClient ''https://sealbox/'' ''k''"] unfolding k append.simps by blast
qed

end
