(* ===== verification/Answers.thy ===== *)
theory Answers
  imports ClientTheorems
begin

text \<open>
  Answers as bytes (\<open>writeJSON\<close> and \<open>writeError\<close> of internal/api/api.go), and what the client makes of
  them.
\<close>

section \<open>Answers as bytes\<close>

text \<open>The keys of a map are sorted, a raw message is compacted; what cannot be encoded is not written.\<close>

definition masked_json :: "string gomap \<Rightarrow> bytes" where
  "masked_json m = json_object (map (\<lambda>(k, v). (k, quote_string v)) (sort_key fst m))"

fun rendered_json :: "rendered \<Rightarrow> bytes option" where
  "rendered_json (Raw p) = JsonCodec.compact p"
| "rendered_json (Masked m) = Some (masked_json m)"

definition strings_json :: "string list \<Rightarrow> bytes" where
  "strings_json xs = json_array (Some (map quote_string xs))"

definition ref_json :: "ref \<Rightarrow> bytes" where
  "ref_json r = json_object [(''collection'', quote_string (ref_collection r)), (''id'', quote_string (ref_id r))]"

text \<open>
  The body of an answer. \<open>texts\<close> are the messages of refused objects. The two texts of the mux itself
  are plain.
\<close>

fun answer_body :: "(nat option \<Rightarrow> object_error \<Rightarrow> string) \<Rightarrow> payload \<Rightarrow> bytes" where
  "answer_body texts Empty = []"
| "answer_body texts (Failure m) =
     (if m = ''404 page not found'' \<or> m = ''Method Not Allowed'' then encoded m else error_body m)"
| "answer_body texts (Refusal i e) = error_body (texts i e)"
| "answer_body texts (Created_id i) = encoded (json_object [(''id'', quote_string i)])"
| "answer_body texts (Created_ids is) = encoded (json_object [(''ids'', strings_json is)])"
| "answer_body texts (Shown (Raw p)) = p"
| "answer_body texts (Shown (Masked m)) = encoded (masked_json m)"
| "answer_body texts (Batch objs missing) =
     (case those (map (\<lambda>(k, x). map_option (Pair k) (rendered_json x)) (sort_key fst objs)) of
        None \<Rightarrow> []
      | Some ms \<Rightarrow> encoded (json_object [(''missing'', strings_json missing), (''objects'', json_object ms)]))"
| "answer_body texts (Page ids next) =
     encoded (json_object ((''ids'', strings_json ids)
       # (case next of None \<Rightarrow> [] | Some n \<Rightarrow> [(''next'', quote_string n)])))"
| "answer_body texts (Listed refs) = encoded (json_object [(''objects'', json_array (Some (map ref_json refs)))])"
| "answer_body texts (Erased refs) = encoded (json_object [(''erased'', json_array (Some (map ref_json refs)))])"

section \<open>Answers read back\<close>

lemma answer_texts:
  "valid_text ''id''" "valid_text ''ids''" "valid_text ''next''" "valid_text ''objects''" "valid_text ''missing''"
  "valid_text ''erased''" "valid_text ''collection''"
  by (rule valid_text_asciis, code_simp)+

lemma answer_fields:
  "key_text ''id'' = ''id''" "unquote ''id'' = Some ''id''" "key_text ''ids'' = ''ids''"
  "key_text ''next'' = ''next''" "unquote ''next'' = Some ''next''"
  "key_text ''objects'' = ''objects''" "unquote ''objects'' = Some ''objects''"
  "key_text ''missing'' = ''missing''" "unquote ''missing'' = Some ''missing''"
  "key_text ''erased'' = ''erased''" "unquote ''erased'' = Some ''erased''"
  "key_text ''collection'' = ''collection''" "unquote ''collection'' = Some ''collection''"
  by code_simp+

lemma answer_names:
  "names_field ''id'' ''id''" "names_field ''next'' ''next''" "\<not> names_field ''next'' ''ids''"
  "names_field ''objects'' ''objects''" "names_field ''missing'' ''missing''" "\<not> names_field ''missing'' ''objects''"
  "names_field ''erased'' ''erased''" "names_field ''collection'' ''collection''" "\<not> names_field ''id'' ''collection''"
  by code_simp+

lemmas answer_simps = answer_texts answer_fields answer_names field_names field_literals

lemma created_id_decodes:
  assumes "valid_text i"
  shows "decode_struct id_member [] (answer_body texts (Created_id i)) = Some i"
proof -
  let ?ms = "[(''id'', DText i)]"
  have "plain (DMembers ?ms)" "shallow (tree (DMembers ?ms))"
    using assms answer_texts(1) by (simp_all add: shallow_def max_depth_def)
  from decode_printed [OF this, of id_member "[]"] assms show ?thesis
    by (simp add: answer_simps id_member_def string_of_val_def key_reads_back)
qed

lemma created_ids_decode:
  assumes "list_all valid_text is"
  shows "map_option slice_strings (decode_struct ids_member ([], 0) (answer_body texts (Created_ids is))) = Some is"
proof -
  let ?ms = "[(''ids'', DList (map DText is))]"
  have "plain (DMembers ?ms)" using assms answer_texts(2) by (simp add: list_all_iff)
  moreover have "shallow (tree (DMembers ?ms))" using depth_texts [of "is"] by (simp add: shallow_def max_depth_def)
  ultimately show ?thesis
    using decode_printed [of ?ms ids_member "([], 0)"] slice_of_texts [OF assms]
    by (simp add: answer_simps ids_member_def printed_texts [simplified] strings_json_def slice_strings_def)
qed

lemma page_decodes:
  assumes "list_all valid_text is" and "pred_option (valid_text) nxt"
  shows "map_option (\<lambda>(ids, n). (slice_strings ids, n)) (decode_struct page_member (([], 0), []) (answer_body texts (Page is nxt)))
    = Some (is, case nxt of None \<Rightarrow> [] | Some n \<Rightarrow> n)"
proof -
  let ?ms = "(''ids'', DList (map DText is)) # (case nxt of None \<Rightarrow> [] | Some n \<Rightarrow> [(''next'', DText n)])"
  have "plain (DMembers ?ms)" using assms answer_texts(2,3) by (cases nxt) (simp_all add: list_all_iff)
  moreover have "shallow (tree (DMembers ?ms))"
    using depth_texts [of "is"] by (cases nxt) (simp_all add: shallow_def max_depth_def)
  ultimately show ?thesis
    using decode_printed [of ?ms page_member "(([], 0), [])"] slice_of_texts [OF assms(1)] assms(2)
    by (cases nxt) (simp_all add: answer_simps page_member_def printed_texts [simplified] strings_json_def slice_strings_def
        string_of_val_def key_reads_back)
qed

text \<open>References, and the slice of them the client fills.\<close>

definition ref_doc :: "ref \<Rightarrow> doc" where
  "ref_doc r = DMembers [(''collection'', DText (ref_collection r)), (''id'', DText (ref_id r))]"

definition named :: "ref \<Rightarrow> named_ref" where
  "named r = \<lparr>nr_collection = ref_collection r, nr_id = ref_id r\<rparr>"

definition plain_ref :: "ref \<Rightarrow> bool" where
  "plain_ref r \<longleftrightarrow> valid_text (ref_collection r) \<and> valid_text (ref_id r)"

lemma printed_ref: "printed (ref_doc r) = ref_json r"
  by (simp add: ref_doc_def ref_json_def)

lemma printed_refs: "printed (DList (map ref_doc rs)) = json_array (Some (map ref_json rs))"
  by (simp add: comp_def printed_ref)

lemma plain_refs: "list_all plain_ref rs \<Longrightarrow> plain (DList (map ref_doc rs))"
  using answer_texts(1,7) by (simp add: list_all_iff ref_doc_def plain_ref_def)

lemma depth_refs: "depth (tree (DList (map ref_doc rs))) \<le> 2"
  using fold_max_le [of rs "\<lambda>_. 1" 1 0] by (simp add: ref_doc_def comp_def)

lemma fill_refs_printed:
  "list_all plain_ref rs \<Longrightarrow> fill_refs [] (map (tree \<circ> ref_doc) rs) = Some (map named rs)"
  by (induction rs)
    (simp_all add: ref_of_val_def ref_doc_def named_def plain_ref_def answer_simps ref_member_def string_of_val_def key_reads_back)

lemma refs_decode:
  assumes "list_all plain_ref rs" and "valid_text k" and "key_text k = k" and "unquote k = Some k" and "names_field k k"
  shows "map_option (\<lambda>(refs, n). take n refs)
      (decode_struct (refs_member k) ([], 0) (encoded (json_object [(k, json_array (Some (map ref_json rs)))])))
    = Some (map named rs)"
proof -
  let ?ms = "[(k, DList (map ref_doc rs))]"
  have "plain (DMembers ?ms)" using plain_refs [OF assms(1)] assms(2) by simp
  moreover have "shallow (tree (DMembers ?ms))" using depth_refs [of rs] by (simp add: shallow_def max_depth_def)
  moreover have "refs_member k k raw (tree (DList (map ref_doc rs))) ([], 0) = Some (map named rs, length rs)" for raw
    using fill_refs_printed [OF assms(1)] assms(5) by (cases rs) (simp_all add: refs_member_def)
  ultimately show ?thesis
    using decode_printed [of ?ms "refs_member k" "([], 0)"] assms(3,4)
    by (simp add: printed_refs [simplified])
qed

lemma refs_answer:
  assumes "list_all plain_ref rs"
  shows "map_option (\<lambda>(refs, n). take n refs) (decode_struct (refs_member ''objects'') ([], 0) (answer_body texts (Listed rs)))
      = Some (map named rs)"
    and "map_option (\<lambda>(refs, n). take n refs) (decode_struct (refs_member ''erased'') ([], 0) (answer_body texts (Erased rs)))
      = Some (map named rs)"
  unfolding answer_body.simps
  by (rule refs_decode; use assms answer_texts answer_fields answer_names in blast)+

text \<open>Objects shown: a full one is its plaintext, a masked one a map of strings.\<close>

definition masked_doc :: "string gomap \<Rightarrow> doc" where
  "masked_doc m = DMembers (map (\<lambda>(k, v). (k, DText v)) (sort_key fst m))"

fun shown_doc :: "rendered \<Rightarrow> doc" where
  "shown_doc (Raw p) = DRaw p"
| "shown_doc (Masked m) = masked_doc m"

definition batch_doc :: "(string \<times> rendered) list \<Rightarrow> doc" where
  "batch_doc objs = DMembers (map (\<lambda>(i, x). (i, shown_doc x)) (sort_key fst objs))"

text \<open>
  What can be shown: JSON that leaves room for the two levels of a batch around it, and maps of valid
  UTF-8. \<open>conveys w x\<close> is what bytes \<open>w\<close> have to be for a caller to get \<open>x\<close> out of them.
\<close>

fun showable :: "rendered \<Rightarrow> bool" where
  "showable (Raw p) \<longleftrightarrow> (\<exists>v. json_parse p = Some v \<and> depth v + 2 \<le> max_depth)"
| "showable (Masked m) \<longleftrightarrow> list_all (\<lambda>(k, v). valid_text k \<and> valid_text v) m \<and> gomap_ok m"

fun conveys :: "bytes \<Rightarrow> rendered \<Rightarrow> bool" where
  "conveys w (Raw p) \<longleftrightarrow> JsonCodec.compact p = Some w"
| "conveys w (Masked m) \<longleftrightarrow> unmarshal_string_map w = Some (sort_key fst m)"

lemma printed_masked: "printed (masked_doc m) = masked_json m"
  by (simp add: masked_doc_def masked_json_def comp_def case_prod_unfold)

lemma masked_plain:
  assumes "showable (Masked m)"
  shows "plain (masked_doc m)" and "depth (tree (masked_doc m)) \<le> 1"
proof -
  show "plain (masked_doc m)" using assms by (fastforce simp: masked_doc_def list_all_iff)
  show "depth (tree (masked_doc m)) \<le> 1"
    using fold_max_le [of "sort_key fst m" "\<lambda>_. 0" 0 0] by (simp add: masked_doc_def comp_def case_prod_unfold)
qed

lemma masked_conveyed:
  assumes "showable (Masked m)"
  shows "unmarshal_string_map (masked_json m) = Some (sort_key fst m)"
proof -
  let ?xs = "map (\<lambda>(k, v). (k, v, quote_string v, JStr (key_text v))) (sort_key fst m)"
  have d: "plain (masked_doc m)" "shallow (tree (masked_doc m))"
    using masked_plain [OF assms] by (simp_all add: shallow_def max_depth_def)
  have "put_strings [] (map (\<lambda>(k, x, w, v). (key_text k, w, v)) ?xs) = Some ([] @ map (\<lambda>(k, x, w, v). (k, x)) ?xs)"
  proof (rule put_strings_fresh)
    show "list_all (\<lambda>(k, x, w, v). unquote (key_text k) = Some k \<and> string_of_val [] v = Some x) ?xs"
      using assms by (fastforce simp: list_all_iff key_reads_back string_of_val_def)
    show "distinct (map fst [] @ map fst ?xs)"
      using assms gomap_sort [of m] by (simp add: comp_def case_prod_unfold)
  qed
  then show ?thesis
    using json_parse_printed [OF d] object_members_printed [OF d(1) [unfolded masked_doc_def]]
    unfolding printed_masked [symmetric] masked_doc_def
    by (simp add: unmarshal_string_map_def comp_def case_prod_unfold printed.simps(1) del: printed.simps(2-4))
qed

lemma shown_plain:
  assumes "showable x"
  shows "plain (shown_doc x)" and "depth (tree (shown_doc x)) + 2 \<le> max_depth"
    and "rendered_json x = Some (printed (shown_doc x))" and "conveys (printed (shown_doc x)) x"
proof -
  have "plain (shown_doc x) \<and> depth (tree (shown_doc x)) + 2 \<le> max_depth
      \<and> rendered_json x = Some (printed (shown_doc x)) \<and> conveys (printed (shown_doc x)) x"
  proof (cases x)
    case (Raw p)
    with assms show ?thesis by (auto simp: JsonCodec.compact_def depth_escaped)
  next
    case (Masked m)
    with assms have "showable (Masked m)" by simp
    from masked_plain [OF this] masked_conveyed [OF this] show ?thesis
      by (simp add: Masked printed_masked max_depth_def)
  qed
  then show "plain (shown_doc x)" "depth (tree (shown_doc x)) + 2 \<le> max_depth"
    "rendered_json x = Some (printed (shown_doc x))" "conveys (printed (shown_doc x)) x" by simp_all
qed

lemma plain_batch:
  "list_all (\<lambda>(i, x). valid_text i \<and> showable x) objs \<Longrightarrow> plain (batch_doc objs)"
  using shown_plain(1) by (fastforce simp: batch_doc_def list_all_iff)

lemma depth_batch:
  assumes "list_all (\<lambda>(i, x). valid_text i \<and> showable x) objs"
  shows "depth (tree (batch_doc objs)) + 1 \<le> max_depth"
proof -
  have "depth (tree (shown_doc (snd ix))) \<le> max_depth - 2" if "ix \<in> set (sort_key fst objs)" for ix
  proof -
    have "showable (snd ix)" using that assms by (auto simp: list_all_iff)
    from shown_plain(2) [OF this] show ?thesis by linarith
  qed
  then have "fold max (map (\<lambda>ix. depth (tree (shown_doc (snd ix)))) (sort_key fst objs)) 0 \<le> max_depth - 2"
    by (intro fold_max_le) simp_all
  then show ?thesis
    by (simp add: batch_doc_def comp_def case_prod_unfold max_depth_def)
qed

lemma insort_key_map: "insort_key f (g x) (map g xs) = map g (insort_key (\<lambda>x. f (g x)) x xs)"
  by (induction xs) simp_all

lemma sort_key_map: "sort_key f (map g xs) = map g (sort_key (\<lambda>x. f (g x)) xs)"
  by (induction xs) (simp_all add: insort_key_map)

lemma put_members_printed:
  assumes "list_all (\<lambda>(k, d). valid_text k) xs" and "distinct (map fst m @ map fst xs)"
  shows "put_members m (map (\<lambda>(k, d). (key_text k, printed d, tree d)) xs) = Some (m @ map (\<lambda>(k, d). (k, printed d)) xs)"
  using put_members_fresh [of key_text "map (\<lambda>(k, d). (k, printed d, tree d)) xs" m] assms
  by (simp add: list_all_iff key_reads_back comp_def case_prod_unfold)

lemma batch_body:
  assumes "list_all (\<lambda>(i, x). valid_text i \<and> showable x) objs"
  shows "answer_body texts (Batch objs missing)
    = encoded (printed (DMembers [(''missing'', DList (map DText missing)), (''objects'', batch_doc objs)]))"
proof -
  have those: "those (map (\<lambda>(k, x). map_option (Pair k) (rendered_json x)) xs) = Some (map (\<lambda>(k, x). (k, printed (shown_doc x))) xs)"
    if "list_all (\<lambda>(i, x). valid_text i \<and> showable x) xs" for xs
    using that by (induction xs) (auto simp: shown_plain(3))
  have "list_all (\<lambda>(i, x). valid_text i \<and> showable x) (sort_key fst objs)" using assms by (simp add: list_all_iff)
  from those [OF this] show ?thesis
    by (simp add: comp_def case_prod_unfold batch_doc_def strings_json_def)
qed

text \<open>A batch is decoded to the bytes written for each object.\<close>

lemma batch_decodes:
  assumes "list_all valid_text missing" and "list_all (\<lambda>(i, x). valid_text i \<and> showable x) objs"
    and "distinct (map fst objs)"
  shows "map_option (\<lambda>(objs, missing). (objs, slice_strings missing))
      (decode_struct found_member ([], ([], 0)) (answer_body texts (Batch objs missing)))
    = Some (map (\<lambda>(i, x). (i, printed (shown_doc x))) (sort_key fst objs), missing)"
proof -
  let ?ms = "[(''missing'', DList (map DText missing)), (''objects'', batch_doc objs)]"
  let ?os = "map (\<lambda>(i, x). (i, shown_doc x)) (sort_key fst objs)"
  have objs: "plain (batch_doc objs)" using assms(2) by (rule plain_batch)
  have "plain (DMembers ?ms)" using objs assms(1) answer_texts(4,5) by (simp add: list_all_iff)
  moreover have "shallow (tree (DMembers ?ms))"
    using depth_texts [of missing] depth_batch [OF assms(2)] by (simp add: shallow_def max_depth_def)
  moreover have "found_member ''objects'' (printed (batch_doc objs)) (tree (batch_doc objs)) ([], sl)
      = Some (map (\<lambda>(i, x). (i, printed (shown_doc x))) (sort_key fst objs), sl)" for sl
  proof -
    have "distinct (map fst ?os)"
      using assms(3) by (simp add: comp_def case_prod_unfold) (metis distinct_map distinct_sort set_sort)
    moreover have "list_all (\<lambda>(k, d). valid_text k) ?os" using assms(2) by (auto simp: list_all_iff)
    ultimately have "put_members [] (map (\<lambda>(k, d). (key_text k, printed d, tree d)) ?os) = Some (map (\<lambda>(k, d). (k, printed d)) ?os)"
      using put_members_printed [of ?os "[]"] by simp
    then show ?thesis
      using object_members_printed [OF objs [unfolded batch_doc_def]]
      by (simp add: found_member_def answer_names batch_doc_def comp_def case_prod_unfold del: printed.simps)
  qed
  ultimately show ?thesis
    using decode_printed [of ?ms found_member "([], ([], 0))"] slice_of_texts [OF assms(1)]
    by (simp add: batch_body [OF assms(2)] answer_simps found_member_def slice_strings_def del: printed.simps answer_body.simps)
qed

text \<open>A masked object shown alone is the one value of its body.\<close>

lemma masked_body:
  assumes "showable (Masked m)"
  shows "first_value (answer_body texts (Shown (Masked m))) = Some (masked_json m)"
  using first_value_printed [of "masked_doc m"] masked_plain [OF assms]
  by (simp add: printed_masked shallow_def max_depth_def del: printed.simps)

end
