(* ===== verification/Calls.thy ===== *)
theory Calls
  imports Answers
begin

text \<open>
  Calls of the client (client/client.go) answered by a server of the API (internal/api/api.go): the
  API as the network of a client, and what each call returns for what the server answers.
\<close>

section \<open>A call through the API\<close>

text \<open>The API as a network: a handler that panics closes the connection.\<close>

definition api_network ::
  "(nat option \<Rightarrow> object_error \<Rightarrow> string) \<Rightarrow> string \<Rightarrow> (request \<Rightarrow> ('v, 'l) site \<Rightarrow> answer \<times> ('v, 'l) site)
   \<Rightarrow> ('v, 'l) site network" where
  "api_network texts base api q s =
     (case received base q of
        None \<Rightarrow> (Inl (ErrMsg ''no such server''), s)
      | Some r \<Rightarrow>
          (case api r s of
             (Dropped, s1) \<Rightarrow> (Inl (ErrMsg ''EOF''), s1)
           | (Answer status p, s1) \<Rightarrow> (Inr (status, answer_body texts p), s1)))"

text \<open>The result of a call, given the answer of the server.\<close>

definition outcome ::
  "(nat option \<Rightarrow> object_error \<Rightarrow> string) \<Rightarrow> (bytes \<Rightarrow> 'a option) \<Rightarrow> answer \<Rightarrow> call_error + 'a" where
  "outcome texts out a =
     (case a of
        Dropped \<Rightarrow> Inl (Not_sent (ErrMsg ''EOF''))
      | Answer status p \<Rightarrow>
          (let b = answer_body texts p; m = error_message b in
           if status < 200 \<or> status > 299 then
             Inl (if status = 404 \<and> m = ''object not found'' then Object_not_found else Refused_with status m)
           else (case out b of None \<Rightarrow> Inl Not_decoded | Some x \<Rightarrow> Inr x)))"

lemma do_call_api:
  assumes "path = ''/'' @ join ''/'' (map PathEscape xs) @ (if query = [] then [] else CHR ''?'' # query)" and "xs \<noteq> []"
    and "inp = (case body of None \<Rightarrow> None | Some b \<Rightarrow> Some (Inr b))"
    and "api \<lparr>r_method = method, r_path = xs, r_query = parse_query query,
      r_authorization = ''Bearer '' @ ac_key c, r_body = Whole (case body of None \<Rightarrow> [] | Some b \<Rightarrow> b)\<rparr> s = (a, s')"
  shows "do_call (api_network texts (ac_base c) api) c method path inp out s = (outcome texts out a, s')"
proof -
  let ?q = "\<lparr>q_method = method, q_url = ac_base c @ path, q_authorization = ''Bearer '' @ ac_key c, q_body = body\<rparr>"
  let ?r = "\<lparr>r_method = method, r_path = xs, r_query = parse_query query,
      r_authorization = ''Bearer '' @ ac_key c, r_body = Whole (case body of None \<Rightarrow> [] | Some b \<Rightarrow> b)\<rparr>"
  have "received (ac_base c) ?q = Some ?r"
    using received_path [of ?q "ac_base c" xs query] assms(1,2) by simp
  then have "api_network texts (ac_base c) api ?q s
      = (case a of Dropped \<Rightarrow> (Inl (ErrMsg ''EOF''), s') | Answer status p \<Rightarrow> (Inr (status, answer_body texts p), s'))"
    using assms(4) by (simp add: api_network_def split: answer.split)
  then show ?thesis
    by (cases body; cases a) (simp_all add: do_call_def assms(3) outcome_def Let_def split: option.split)
qed

section \<open>The calls of the client\<close>

text \<open>The request of a call as the server sees it.\<close>

definition arrived :: "api_client \<Rightarrow> string \<Rightarrow> string list \<Rightarrow> (string \<times> string) list \<Rightarrow> bytes \<Rightarrow> request" where
  "arrived c verb xs query body =
     \<lparr>r_method = verb, r_path = xs, r_query = query, r_authorization = ''Bearer '' @ ac_key c, r_body = Whole body\<rparr>"

lemma do_call_arrived:
  assumes "api (arrived c verb xs (parse_query query) (case body of None \<Rightarrow> [] | Some b \<Rightarrow> b)) s = (a, s')"
    and "path = ''/'' @ join ''/'' (map PathEscape xs) @ (if query = [] then [] else CHR ''?'' # query)" and "xs \<noteq> []"
    and "inp = (case body of None \<Rightarrow> None | Some b \<Rightarrow> Some (Inr b))"
  shows "do_call (api_network texts (ac_base c) api) c verb path inp out s = (outcome texts out a, s')"
  using do_call_api [OF assms(2-4), of api verb c s a s' texts out] assms(1) by (simp add: arrived_def)

abbreviation over ::
  "(nat option \<Rightarrow> object_error \<Rightarrow> string) \<Rightarrow> (request \<Rightarrow> ('v, 'l) site \<Rightarrow> answer \<times> ('v, 'l) site) \<Rightarrow> api_client \<Rightarrow> ('v, 'l) site network" where
  "over texts api c \<equiv> api_network texts (ac_base c) api"

lemma outcome_ok:
  "200 \<le> n \<Longrightarrow> n \<le> 299 \<Longrightarrow> out (answer_body texts p) = Some x \<Longrightarrow> outcome texts out (Answer n p) = Inr x"
  by (simp add: outcome_def Let_def)

lemma outcome_shown:
  "200 \<le> n \<Longrightarrow> n \<le> 299 \<Longrightarrow>
    outcome texts out (Answer n (Shown (Raw v))) = (case out v of None \<Rightarrow> Inl Not_decoded | Some x \<Rightarrow> Inr x)"
  by (simp add: outcome_def Let_def)

lemma outcome_masked:
  "200 \<le> n \<Longrightarrow> n \<le> 299 \<Longrightarrow> showable (Masked m) \<Longrightarrow>
    outcome texts (\<lambda>b. Option.bind (first_value b) out) (Answer n (Shown (Masked m)))
      = (case out (masked_json m) of None \<Rightarrow> Inl Not_decoded | Some x \<Rightarrow> Inr x)"
  using masked_body [of m texts] by (simp add: outcome_def Let_def del: answer_body.simps)

lemma object_call:
  assumes "api (arrived c ''POST'' [''v1'', ''collections'', collection, ''objects''] [] body) s = (a, s')"
  shows "CreateObject (api_network texts (ac_base c) api) c collection (Some (Inr body)) s
    = (outcome texts (decode_struct id_member []) a, s')"
  unfolding CreateObject_def
  by (rule do_call_arrived [where query = "[]" and body = "Some body"
        and xs = "[''v1'', ''collections'', collection, ''objects'']"])
    (simp_all add: collectionPath_def fixed_segments parse_query_nil assms)

lemma batch_call:
  assumes "api (arrived c ''POST'' [''v1'', ''collections'', collection, ''objects'', ''batch''] []
      (json_object [(''objects'', json_array (Some objs))])) s = (a, s')"
  shows "CreateBatch (api_network texts (ac_base c) api) c collection (Some (map Inr objs)) s
    = (outcome texts (\<lambda>b. map_option slice_strings (decode_struct ids_member ([], 0) b)) a, s')"
proof -
  have objs: "try_map (\<lambda>x. x) (map Inr objs) = Inr objs" by (induction objs) simp_all
  show ?thesis
    unfolding CreateBatch_def
    by (rule do_call_arrived [where query = "[]" and body = "Some (json_object [(''objects'', json_array (Some objs))])"
          and xs = "[''v1'', ''collections'', collection, ''objects'', ''batch'']"])
      (simp_all add: collectionPath_def fixed_segments parse_query_nil assms objs)
qed

lemma get_call:
  assumes "api (arrived c ''GET'' [''v1'', ''collections'', collection, ''objects'', oid]
      (if full then [(''reveal'', ''full'')] else []) []) s = (a, s')"
  shows "GetObject (api_network texts (ac_base c) api) c collection oid full out s
    = (outcome texts (\<lambda>b. Option.bind (first_value b) out) a, s')"
  unfolding GetObject_def
  by (rule do_call_arrived [where query = "if full then ''reveal=full'' else []" and body = None
        and xs = "[''v1'', ''collections'', collection, ''objects'', oid]"])
    (use assms in \<open>simp_all add: collectionPath_def fixed_segments parse_query_nil parse_query_full split: if_splits\<close>)

lemma reveal_call:
  assumes "api (arrived c ''POST'' [''v1'', ''collections'', collection, ''objects'', ''reveal''] []
      (json_object [(''ids'', json_array (Some (map quote_string ids))),
        (''reveal'', quote_string (if full then ''full'' else ''masked''))])) s = (a, s')"
  shows "Reveal (api_network texts (ac_base c) api) c collection (Some ids) full s
    = (outcome texts (\<lambda>b. map_option (\<lambda>(objs, missing). (objs, slice_strings missing))
        (decode_struct found_member ([], ([], 0)) b)) a, s')"
  unfolding Reveal_def
  by (rule do_call_arrived [where query = "[]" and body = "Some (json_object
        [(''ids'', json_array (Some (map quote_string ids))),
         (''reveal'', quote_string (if full then ''full'' else ''masked''))])"
        and xs = "[''v1'', ''collections'', collection, ''objects'', ''reveal'']"])
    (simp_all add: collectionPath_def fixed_segments parse_query_nil assms [simplified])

lemma delete_call:
  assumes "api (arrived c ''DELETE'' [''v1'', ''collections'', collection, ''objects'', oid] [] []) s = (a, s')"
  shows "DeleteObject (api_network texts (ac_base c) api) c collection oid s = (outcome texts (\<lambda>_. Some ()) a, s')"
  unfolding DeleteObject_def
  by (rule do_call_arrived [where query = "[]" and body = None
        and xs = "[''v1'', ''collections'', collection, ''objects'', oid]"])
    (simp_all add: collectionPath_def fixed_segments parse_query_nil assms)

lemma search_call:
  assumes "api (arrived c ''POST'' [''v1'', ''collections'', collection, ''search''] (if after = [] then [] else [(''after'', after)])
      (json_object [(f, quote_string x)])) s = (a, s')"
  shows "SearchAfter (api_network texts (ac_base c) api) c collection f x after s
    = (outcome texts (\<lambda>b. map_option (\<lambda>(ids, next). (slice_strings ids, next))
        (decode_struct page_member (([], 0), []) b)) a, s')"
  unfolding SearchAfter_def
  by (rule do_call_arrived [where query = "if after = [] then [] else ''after='' @ QueryEscape after"
        and body = "Some (json_object [(f, quote_string x)])" and xs = "[''v1'', ''collections'', collection, ''search'']"])
    (use assms in \<open>simp_all add: collectionPath_def fixed_segments parse_query_nil parse_query_after split: if_splits del: append_Cons\<close>)

lemma subject_call:
  assumes "api (arrived c ''GET'' [''v1'', ''subjects'', who] [] []) s = (a, s')"
  shows "SubjectRefs (api_network texts (ac_base c) api) c who s
    = (outcome texts (\<lambda>b. map_option (\<lambda>(refs, n). take n refs) (decode_struct (refs_member ''objects'') ([], 0) b)) a, s')"
  unfolding SubjectRefs_def
  by (rule do_call_arrived [where query = "[]" and body = None and xs = "[''v1'', ''subjects'', who]"])
    (simp_all add: fixed_segments parse_query_nil assms)

lemma erase_call:
  assumes "api (arrived c ''DELETE'' [''v1'', ''subjects'', who] [] []) s = (a, s')"
  shows "Erase (api_network texts (ac_base c) api) c who s
    = (outcome texts (\<lambda>b. map_option (\<lambda>(refs, n). take n refs) (decode_struct (refs_member ''erased'') ([], 0) b)) a, s')"
  unfolding Erase_def
  by (rule do_call_arrived [where query = "[]" and body = None and xs = "[''v1'', ''subjects'', who]"])
    (simp_all add: fixed_segments parse_query_nil assms)

text \<open>
  C39: A call of the client returns what the server answered. Whatever the server behind the network
  does, if it answers the request a call sends with a success, the call returns exactly the id or
  ids it created; of a single object shown in full the first JSON value of its plaintext, and of one
  shown masked bytes that decode to the masked fields, for the caller to decode; of a batch, full,
  masked or mixed, each object under its id (in full its plaintext compacted, masked bytes that
  decode to its fields) with the ids that are missing; the page of ids with its cursor; or the
  references it listed or erased. What the encoder of the server writes, under the names it
  uses, the decoder of the client reads, provided the strings are valid UTF-8, no field is masked
  twice, and a plaintext in a batch is JSON that is not nested up to the decoder's limit.
\<close>

theorem calls_return_the_answer:
  assumes "200 \<le> n" and "n \<le> 299"
    and "list_all valid_text (i # is)" and "pred_option (valid_text) nxt" and "list_all plain_ref rs"
    and "showable (Masked m)" and "list_all (\<lambda>(i, x). valid_text i \<and> showable x) shown" and "distinct (map fst shown)"
  shows "(api (arrived c ''POST'' [''v1'', ''collections'', coll, ''objects''] [] body) s = (Answer n (Created_id i), s')
      \<longrightarrow> CreateObject (over texts api c) c coll (Some (Inr body)) s = (Inr i, s'))
    \<and> (api (arrived c ''POST'' [''v1'', ''collections'', coll, ''objects'', ''batch''] []
          (json_object [(''objects'', json_array (Some objs))])) s = (Answer n (Created_ids is), s')
      \<longrightarrow> CreateBatch (over texts api c) c coll (Some (map Inr objs)) s = (Inr is, s'))
    \<and> (api (arrived c ''GET'' [''v1'', ''collections'', coll, ''objects'', oid]
          (if full then [(''reveal'', ''full'')] else []) []) s = (Answer n (Shown (Raw v)), s')
      \<longrightarrow> GetObject (over texts api c) c coll oid full out s
          = (case Option.bind (first_value v) out of None \<Rightarrow> Inl Not_decoded | Some x \<Rightarrow> Inr x, s'))
    \<and> (api (arrived c ''GET'' [''v1'', ''collections'', coll, ''objects'', oid]
          (if full then [(''reveal'', ''full'')] else []) []) s = (Answer n (Shown (Masked m)), s')
      \<longrightarrow> (\<exists>w. unmarshal_string_map w = Some (sort_key fst m)
          \<and> GetObject (over texts api c) c coll oid full out s
            = (case out w of None \<Rightarrow> Inl Not_decoded | Some x \<Rightarrow> Inr x, s')))
    \<and> (api (arrived c ''POST'' [''v1'', ''collections'', coll, ''objects'', ''reveal''] []
          (json_object [(''ids'', json_array (Some (map quote_string ids))),
            (''reveal'', quote_string (if full then ''full'' else ''masked''))])) s
          = (Answer n (Batch shown is), s')
      \<longrightarrow> (\<exists>found. list_all2 (\<lambda>(k, w) (k', x). k = k' \<and> conveys w x) found (sort_key fst shown)
          \<and> Reveal (over texts api c) c coll (Some ids) full s = (Inr (found, is), s')))
    \<and> (api (arrived c ''DELETE'' [''v1'', ''collections'', coll, ''objects'', oid] [] []) s = (Answer n Empty, s')
      \<longrightarrow> DeleteObject (over texts api c) c coll oid s = (Inr (), s'))
    \<and> (api (arrived c ''POST'' [''v1'', ''collections'', coll, ''search''] (if after = [] then [] else [(''after'', after)])
          (json_object [(f, quote_string x)])) s = (Answer n (Page is nxt), s')
      \<longrightarrow> SearchAfter (over texts api c) c coll f x after s = (Inr (is, case nxt of None \<Rightarrow> [] | Some i \<Rightarrow> i), s'))
    \<and> (api (arrived c ''GET'' [''v1'', ''subjects'', who] [] []) s = (Answer n (Listed rs), s')
      \<longrightarrow> SubjectRefs (over texts api c) c who s = (Inr (map named rs), s'))
    \<and> (api (arrived c ''DELETE'' [''v1'', ''subjects'', who] [] []) s = (Answer n (Erased rs), s')
      \<longrightarrow> Erase (over texts api c) c who s = (Inr (map named rs), s'))"
proof -
  have asc: "valid_text i" "list_all valid_text is" using assms(3) by simp_all
  note ok = outcome_ok [OF assms(1,2)]
  have created: "outcome texts (decode_struct id_member []) (Answer n (Created_id i)) = Inr i"
    "outcome texts (\<lambda>b. map_option slice_strings (decode_struct ids_member ([], 0) b)) (Answer n (Created_ids is)) = Inr is"
    by (rule ok, rule created_id_decodes [OF asc(1)], rule ok, rule created_ids_decode [OF asc(2)])
  let ?found = "map (\<lambda>(i, x). (i, printed (shown_doc x))) (sort_key fst shown)"
  have found: "outcome texts (\<lambda>b. map_option (\<lambda>(objs, missing). (objs, slice_strings missing))
        (decode_struct found_member ([], ([], 0)) b)) (Answer n (Batch shown is)) = Inr (?found, is)"
    by (rule ok, rule batch_decodes [OF asc(2) assms(7,8)])
  have page: "outcome texts (\<lambda>b. map_option (\<lambda>(ids, next). (slice_strings ids, next))
        (decode_struct page_member (([], 0), []) b)) (Answer n (Page is nxt))
      = Inr (is, case nxt of None \<Rightarrow> [] | Some i \<Rightarrow> i)"
    by (rule ok, rule page_decodes [OF asc(2) assms(4)])
  have refs: "outcome texts (\<lambda>b. map_option (\<lambda>(refs, n). take n refs) (decode_struct (refs_member ''objects'') ([], 0) b))
        (Answer n (Listed rs)) = Inr (map named rs)"
    "outcome texts (\<lambda>b. map_option (\<lambda>(refs, n). take n refs) (decode_struct (refs_member ''erased'') ([], 0) b))
        (Answer n (Erased rs)) = Inr (map named rs)"
    by (rule ok, rule refs_answer(1) [OF assms(5)], rule ok, rule refs_answer(2) [OF assms(5)])
  have deleted: "outcome texts (\<lambda>_. Some ()) (Answer n Empty) = Inr ()" by (rule ok) simp
  note results = object_call batch_call get_call reveal_call delete_call search_call subject_call erase_call
    created found page refs deleted outcome_shown [OF assms(1,2)] outcome_masked [OF assms(1,2,6)]
  have "list_all2 (\<lambda>(k, w) (k', x). k = k' \<and> conveys w x) ?found (sort_key fst shown)"
    using assms(7) by (auto simp: list_all2_map1 list_all2_same list_all_iff shown_plain(4))
  moreover note masked_conveyed [OF assms(6)]
  ultimately show ?thesis
    by (intro conjI impI) (simp_all only: results, (blast+)?)
qed

text \<open>A server that shows one masked object and an object in full.\<close>

definition two_shown :: "request \<Rightarrow> (unit, unit) site \<Rightarrow> answer \<times> (unit, unit) site" where
  "two_shown r s =
     (if r_method r = ''POST''
      then (Answer 200 (Batch [(''tok_2'', Raw ''[ 1 ]''), (''tok_1'', Masked [(''mail'', ''a***@b'')])] []), s)
      else (Answer 204 Empty, s))"

theorem calls_return_the_answer_witness:
  "\<exists>w w'. fst (Reveal (api_network (\<lambda>_ _. []) (ac_base (NewClient ''http://vault'' ''k'')) two_shown) (NewClient ''http://vault'' ''k'')
     ''c'' (Some [''tok_2'', ''tok_1'']) False \<lparr>at_vault = (), at_budget = (), at_log = []\<rparr>)
   = Inr ([(''tok_1'', w), (''tok_2'', w')], []) \<and> unmarshal_string_map w = Some [(''mail'', ''a***@b'')]
     \<and> JsonCodec.compact ''[ 1 ]'' = Some w'"
proof -
  let ?m = "[(''mail'', ''a***@b'')]"
  let ?shown = "[(''tok_2'', Raw ''[ 1 ]''), (''tok_1'', Masked ?m)]"
  have v: "valid_text ''tok_1''" "valid_text ''tok_2''" "valid_text ''mail''" "valid_text ''a***@b''"
    by (rule valid_text_asciis, code_simp)+
  have "\<exists>u. json_parse ''[ 1 ]'' = Some u \<and> depth u + 2 \<le> max_depth"
    by (rule exI [of _ "JArr [JLit ''1'']"]) code_simp
  with v have a: "list_all valid_text (''tok_1'' # [])" "showable (Masked ?m)"
      "list_all (\<lambda>(i, x). valid_text i \<and> showable x) ?shown"
    by simp_all
  have n: "(200 :: nat) \<le> 200" "(200 :: nat) \<le> 299" "pred_option valid_text None" "list_all plain_ref []"
    "distinct (map fst ?shown)" by simp_all
  have s: "sort_key fst ?shown = [(''tok_1'', Masked ?m), (''tok_2'', Raw ''[ 1 ]'')]" by code_simp
  have m: "sort_key fst ?m = ?m" by simp
  from calls_return_the_answer [OF n(1,2) a(1) n(3,4) a(2,3) n(5), of two_shown "NewClient ''http://vault'' ''k''" "''c''" "[]"
        "\<lparr>at_vault = (), at_budget = (), at_log = []\<rparr>" "\<lparr>at_vault = (), at_budget = (), at_log = []\<rparr>"]
  have "\<exists>found. list_all2 (\<lambda>(k, w) (k', x). k = k' \<and> conveys w x) found (sort_key fst ?shown)
    \<and> Reveal (over (\<lambda>_ _. []) two_shown (NewClient ''http://vault'' ''k'')) (NewClient ''http://vault'' ''k'')
       ''c'' (Some [''tok_2'', ''tok_1'']) False \<lparr>at_vault = (), at_budget = (), at_log = []\<rparr>
     = (Inr (found, []), \<lparr>at_vault = (), at_budget = (), at_log = []\<rparr>)"
    by (simp add: two_shown_def arrived_def)
  then show ?thesis unfolding s by (auto simp: list_all2_Cons2 m)
qed

end
