(* ===== verification/JsonEscape.thy ===== *)
theory JsonEscape
  imports JsonCompact
begin

text \<open>
  Escaping for HTML, which compaction does to every string: doing it again changes nothing, and the
  string decodes to what it was.
\<close>

section \<open>Escaping settles\<close>

lemma html_escape_ascii: "list_all (\<lambda>c. ascii c \<and> \<not> is_html c) a \<Longrightarrow> html_escape (a @ s) = a @ html_escape s"
proof (induction a)
  case (Cons c a)
  then have "ascii c" "\<not> is_html c" "html_escape (a @ s) = a @ html_escape s" by simp_all
  then show ?case by (simp only: append_Cons html_escape_copy simp_thms)
qed simp

text \<open>A byte outside ASCII at the front of an escaped string was at the front before.\<close>

lemma html_escape_high:
  assumes "html_escape s = c # t" and "\<not> ascii c"
  obtains s' where "s = c # s'" and "t = html_escape s'"
proof (cases "line_sep s")
  case (Some dr)
  then have "html_escape s = sep_escape (fst dr) @ html_escape (snd dr)" by (simp add: html_escape.simps [of s] case_prod_unfold)
  moreover have "ascii backslash" by code_simp
  ultimately show thesis using assms by (simp add: sep_escape_def)
next
  case None
  obtain x s' where s: "s = x # s'" using assms(1) None by (cases s) (simp_all add: html_escape.simps)
  have "ascii backslash" by code_simp
  then have "\<not> is_html x" using assms None s by (auto simp: html_escape_Cons u_escape_def)
  with assms None s that show thesis by (simp add: html_escape_Cons)
qed

lemma no_sep_escape: "line_sep (c # s) = None \<Longrightarrow> line_sep (c # html_escape s) = None"
proof (rule ccontr)
  assume none: "line_sep (c # s) = None" and "line_sep (c # html_escape s) \<noteq> None"
  then obtain x y r where h: "html_escape s = x # y # r" and b: "byte c = 0xE2" "byte x = 0x80" "byte y \<in> {0xA8, 0xA9}"
    by (auto simp: line_sep_def split: list.splits if_splits)
  have "\<not> ascii x" "\<not> ascii y" using b by (auto simp: ascii_def)
  obtain s' where s': "s = x # s'" "y # r = html_escape s'" using html_escape_high [OF h \<open>\<not> ascii x\<close>] .
  obtain s'' where "s' = y # s''" using html_escape_high [OF s'(2) [symmetric] \<open>\<not> ascii y\<close>] .
  with s'(1) none b show False by (auto simp: line_sep_def)
qed

lemma html_escape_idem: "html_escape (html_escape s) = html_escape s"
proof (induction s rule: html_escape.induct)
  case (1 s)
  show ?case
  proof (cases "line_sep s")
    case (Some dr)
    then obtain d r where dr: "line_sep s = Some (d, r)" by (cases dr) simp
    then show ?thesis
      using 1(2) [OF dr refl] html_escape_ascii [OF sep_escape_plain [OF dr], of "html_escape r"]
      by (simp add: html_escape.simps [of s])
  next
    case None
    show ?thesis
    proof (cases s)
      case Nil
      then show ?thesis by (simp add: html_escape.simps line_sep_def)
    next
      case (Cons c t)
      have IH: "html_escape (html_escape t) = html_escape t" using 1(1) [OF None Cons] .
      show ?thesis
      proof (cases "is_html c")
        case True
        then show ?thesis
          using None Cons IH html_escape_ascii [OF u_escape_plain [OF html_ascii [OF True]], of "html_escape t"]
          by (simp add: html_escape_Cons)
      next
        case False
        then show ?thesis using None Cons IH no_sep_escape by (simp add: html_escape_Cons)
      qed
    qed
  qed
qed

lemma escaped_val_idem: "escaped_val (escaped_val v) = escaped_val v"
proof (induction v)
  case (JObj ms)
  have "escaped_val (escaped_val (snd kv)) = escaped_val (snd kv)" if "kv \<in> set ms" for kv
    by (rule JObj [OF that]) (simp add: prod_set_defs)
  then show ?case by (simp add: html_escape_idem case_prod_unfold)
qed (simp_all add: html_escape_idem)

section \<open>Escaping keeps the string\<close>

text \<open>Decoding looks no further than the continuation bytes, and escaping leaves those alone.\<close>

lemma second_cont: "second3 b c \<Longrightarrow> is_cont c" "second4 b c \<Longrightarrow> is_cont c"
  by (auto simp: second3_def second4_def is_cont_def split: if_splits)

lemma decode_cont: "decode_valid (c # s) = decode_valid (c # takeWhile is_cont s)"
proof -
  have "decode2 b s = decode2 b (takeWhile is_cont s)" for b by (cases s) simp_all
  moreover have "decode3 b s = decode3 b (takeWhile is_cont s)" for b
    by (cases s; cases "tl s") (auto dest: second_cont)
  moreover have "decode4 b s = decode4 b (takeWhile is_cont s)" for b
    by (cases s; cases "tl s"; cases "tl (tl s)") (auto dest: second_cont)
  ultimately show ?thesis by (simp add: Let_def)
qed

lemma decode_width: "decode_valid (c # s) = Some (r, n) \<Longrightarrow> n \<le> Suc (length (takeWhile is_cont s))"
  unfolding decode_cont [of c s]
  using decode_valid_width(2) [of "c # takeWhile is_cont s" r n] by (simp del: decode_valid.simps)

lemma cont_high: "is_cont c \<Longrightarrow> \<not> ascii c \<and> c \<noteq> quote \<and> c \<noteq> backslash \<and> \<not> byte c < 0x20 \<and> \<not> is_html c"
  by (auto simp: is_cont_def ascii_def is_html_byte) (auto simp: quote_def backslash_def byte_def)

lemma cont_no_sep: "is_cont c \<Longrightarrow> line_sep (c # s) = None"
  by (auto simp: is_cont_def line_sep_def split: list.splits)

lemma html_escape_cont: "is_cont c \<Longrightarrow> html_escape (c # s) = c # html_escape s"
  by (simp add: html_escape_Cons cont_no_sep cont_high)

lemma html_escape_conts: "list_all is_cont a \<Longrightarrow> html_escape (a @ s) = a @ html_escape s"
proof (induction a)
  case (Cons c a)
  then show ?case using html_escape_cont [of c "a @ s"] by simp
qed simp

lemma html_escape_start:
  assumes "s = [] \<or> \<not> is_cont (hd s)"
  shows "html_escape s = [] \<or> \<not> is_cont (hd (html_escape s))"
proof -
  have bs: "\<not> is_cont backslash" by (simp add: is_cont_def backslash_def byte_def)
  show ?thesis
  proof (cases "line_sep s")
    case (Some dr)
    then show ?thesis using bs by (simp add: html_escape.simps [of s] case_prod_unfold sep_escape_def)
  next
    case None
    show ?thesis
    proof (cases s)
      case (Cons c t)
      with None assms bs show ?thesis by (simp add: html_escape_Cons u_escape_def)
    qed (simp add: html_escape.simps line_sep_def)
  qed
qed

lemma takeWhile_html: "takeWhile is_cont (html_escape s) = takeWhile is_cont s"
proof -
  let ?a = "takeWhile is_cont s" and ?b = "dropWhile is_cont s"
  have a: "list_all is_cont ?a" by (auto simp: list_all_iff dest: set_takeWhileD)
  have "html_escape s = ?a @ html_escape ?b" using html_escape_conts [OF a, of ?b] by simp
  moreover have "?b = [] \<or> \<not> is_cont (hd ?b)" using hd_dropWhile by blast
  then have "takeWhile is_cont (html_escape ?b) = []"
    using html_escape_start [of ?b] by (cases "html_escape ?b") auto
  ultimately show ?thesis using a by (simp add: takeWhile_append2 list_all_iff)
qed

lemma body_high: "list_all is_cont a \<Longrightarrow> str_body (a @ b) \<Longrightarrow> str_body b"
proof (induction a)
  case (Cons c a)
  then show ?case using cont_high [of c] by (auto elim: body_ConsE)
qed simp

text \<open>The second half of a surrogate pair is an escape, and what escaping adds is none.\<close>

lemma low_half_html:
  assumes "str_body b"
  shows "low_half r (html_escape b) = low_half r b"
    and "low_half r b \<noteq> None \<Longrightarrow> drop 6 (html_escape b) = html_escape (drop 6 b) \<and> str_body (drop 6 b)"
proof -
  have none: "low_half r s = None" if "hd s \<noteq> backslash" for s
    using that by (cases s) (auto simp: low_half_def getu4_def split: list.splits)
  have ascii_u: "ascii backslash" "\<not> is_html backslash" "ascii (CHR ''u'')" "\<not> is_html (CHR ''u'')"
    by (simp_all add: ascii_def is_html_byte backslash_def byte_def)
  have "low_half r (html_escape b) = low_half r b
    \<and> (low_half r b \<noteq> None \<longrightarrow> drop 6 (html_escape b) = html_escape (drop 6 b) \<and> str_body (drop 6 b))"
    using assms
  proof (cases rule: str_body.cases)
    case body_Nil
    then show ?thesis by (simp add: html_escape.simps line_sep_def low_half_def getu4_def)
  next
    case (body_plain c b')
    have b: "low_half r b = None" using body_plain none [of b] by simp
    have small: "low_half r (u_escape (byte x) @ s) = None" if "ascii x" for x s
      using that hex4_byte [of x s] by (auto simp: low_half_def getu4_def u_escape_def utf16_pair_def ascii_def simp del: hex4.simps)
    have "hex4 (''2028'' @ s) = Some 0x2028" "hex4 (''2029'' @ s) = Some 0x2029" for s
      by (simp_all add: hex_val_def is_digit_def byte_def)
    then have sep: "low_half r (sep_escape d @ s) = None" if "d \<in> set ''89''" for d s
      using that by (auto simp: low_half_def getu4_def sep_escape_def utf16_pair_def simp del: hex4.simps)
    have "low_half r (html_escape b) = None"
    proof (cases "line_sep b")
      case (Some dr)
      then have "fst dr \<in> set ''89''" by (auto simp: line_sep_def split: list.splits if_splits)
      with Some sep show ?thesis by (simp add: html_escape.simps [of b] case_prod_unfold)
    next
      case None
      then show ?thesis using body_plain small [OF html_ascii] none [of "c # html_escape b'"] by (simp add: html_escape_Cons)
    qed
    with b show ?thesis by simp
  next
    case (body_escape e b')
    have e: "e \<noteq> CHR ''u''" using body_escape(2) u_no_escape by metis
    have "\<exists>s. html_escape b = backslash # e # s"
    proof -
      have "ascii e \<and> \<not> is_html e" using body_escape(2) by (auto simp: ascii_def is_html_byte quote_def backslash_def byte_def)
      then show ?thesis using ascii_u body_escape(1) by (simp add: html_escape_copy)
    qed
    with e body_escape(1) show ?thesis by (auto simp: low_half_def getu4_def)
  next
    case (body_u h1 h2 h3 h4 b')
    have "html_escape b = backslash # CHR ''u'' # h1 # h2 # h3 # h4 # html_escape b'"
      using body_u(1) hex4_chars [OF body_u(2)] hex_val_ascii ascii_u by (simp add: html_escape_copy)
    with body_u show ?thesis by (simp add: low_half_def getu4_def)
  qed
  then show "low_half r (html_escape b) = low_half r b"
    and "low_half r b \<noteq> None \<Longrightarrow> drop 6 (html_escape b) = html_escape (drop 6 b) \<and> str_body (drop 6 b)" by simp_all
qed

lemma unquote_u_escape: "ascii c \<Longrightarrow> unquote (u_escape (byte c) @ s) = map_option ((#) c) (unquote s)"
proof -
  assume c: "ascii c"
  then have "\<not> is_surrogate (byte c)" "hex4 (CHR ''0'' # CHR ''0'' # hex_digit (byte c div 16) # hex_digit (byte c mod 16) # s) = Some (byte c)"
    using hex4_byte [of c s] by (auto simp: is_surrogate_def ascii_def)
  moreover have "(@) [c] = (#) c" by (rule ext) simp
  ultimately show ?thesis
    using c by (simp del: hex4.simps add: u_escape_def unquote.simps [of "backslash # _"])
qed

lemma html_escape_drop: "m \<le> length (takeWhile is_cont s) \<Longrightarrow> drop m (html_escape s) = html_escape (drop m s)"
proof -
  assume m: "m \<le> length (takeWhile is_cont s)"
  let ?a = "takeWhile is_cont s" and ?b = "dropWhile is_cont s"
  have a: "list_all is_cont ?a" by (auto simp: list_all_iff dest: set_takeWhileD)
  then have "list_all is_cont (drop m ?a)" by (auto simp: list_all_iff dest: in_set_dropD)
  then have "html_escape (drop m ?a @ ?b) = drop m ?a @ html_escape ?b" by (rule html_escape_conts)
  moreover have "drop m s = drop m ?a @ ?b"
    using m drop_append [of m ?a ?b] by simp
  moreover have "html_escape s = ?a @ html_escape ?b" using html_escape_conts [OF a, of ?b] by simp
  ultimately show ?thesis using m by simp
qed

lemma line_sep_scalar:
  "line_sep s = Some (d, r) \<Longrightarrow> d = CHR ''8'' \<and> s = encode_scalar 0x2028 @ r \<or> d = CHR ''9'' \<and> s = encode_scalar 0x2029 @ r"
proof -
  assume "line_sep s = Some (d, r)"
  then obtain x y z where "s = x # y # z # r" "byte x = 0xE2" "byte y = 0x80" "d = CHR ''8'' \<and> byte z = 0xA8 \<or> d = CHR ''9'' \<and> byte z = 0xA9"
    by (auto simp: line_sep_def split: list.splits if_splits)
  moreover have "char_of (byte x) = x" "char_of (byte y) = y" "char_of (byte z) = z" by (simp_all add: byte_def)
  moreover have "encode_scalar 0x2028 = [char_of (0xE2 :: nat), char_of (0x80 :: nat), char_of (0xA8 :: nat)]"
    "encode_scalar 0x2029 = [char_of (0xE2 :: nat), char_of (0x80 :: nat), char_of (0xA9 :: nat)]"
    by (simp_all add: encode_scalar_def)
  ultimately show ?thesis by (elim disjE conjE) (simp_all only: append_Cons append_Nil simp_thms)
qed

lemma unquote_high:
  assumes "\<not> ascii c" and "decode_rune (c # s) = (r, n)"
  shows "unquote (c # s) = map_option ((@) (encode_rune r)) (unquote (drop n (c # s)))"
proof -
  have "c \<noteq> quote" "c \<noteq> backslash" "\<not> byte c < 0x20" using assms(1) by (auto simp: ascii_def quote_def backslash_def byte_def)
  then show ?thesis using assms by (simp add: unquote.simps [of "c # s"])
qed

lemma decode_rune_html:
  obtains r n where "decode_rune (c # s) = (r, Suc n)" and "decode_rune (c # html_escape s) = (r, Suc n)"
    and "n \<le> length (takeWhile is_cont s)"
proof -
  have eq: "decode_rune (c # html_escape s) = decode_rune (c # s)"
    unfolding decode_rune_def by (subst (1 2) decode_cont) (simp add: takeWhile_html del: decode_valid.simps)
  obtain r n where rn: "decode_rune (c # s) = (r, n)" by (cases "decode_rune (c # s)")
  then have "n \<le> Suc (length (takeWhile is_cont s))" "0 < n"
    using decode_width [of c s r n] decode_rune_width [of "c # s"]
    by (auto simp: decode_rune_def split: option.splits simp del: decode_valid.simps)
  with eq rn that show thesis by (cases n) auto
qed

lemma body_drop: "m \<le> length (takeWhile is_cont s) \<Longrightarrow> str_body s \<Longrightarrow> str_body (drop m s)"
proof -
  assume m: "m \<le> length (takeWhile is_cont s)" and s: "str_body s"
  have "take m s = take m (takeWhile is_cont s)"
    using m by (metis append_take_drop_id take_append takeWhile_dropWhile_id diff_is_0_eq' take_0 append_Nil2)
  then have "list_all is_cont (take m s)" by (auto simp: list_all_iff dest: in_set_takeD set_takeWhileD)
  then show ?thesis by (rule body_high) (simp add: s)
qed

lemma body_suffix: "list_all (\<lambda>c. 0x80 \<le> byte c) a \<Longrightarrow> str_body (a @ b) \<Longrightarrow> str_body b"
proof (induction a)
  case (Cons c a)
  then have "c \<noteq> backslash" by (auto simp: backslash_def byte_def)
  with Cons show ?case by (auto elim: body_ConsE)
qed simp

lemma unquote_hex:
  assumes "hex4 [h1, h2, h3, h4] = Some r"
  shows "unquote (backslash # CHR ''u'' # h1 # h2 # h3 # h4 # s) =
    (if is_surrogate r then
       (case low_half r s of
          Some r' \<Rightarrow> map_option ((@) (encode_rune r')) (unquote (drop 6 s))
        | None \<Rightarrow> map_option ((@) (encode_rune rune_error)) (unquote s))
     else map_option ((@) (encode_rune r)) (unquote s))"
proof -
  have "hex4 (h1 # h2 # h3 # h4 # s) = Some r" using assms by simp
  then show ?thesis
    by (subst unquote.simps) (simp del: hex4.simps split: option.split)
qed

lemma unquote_html_sep:
  assumes sep: "line_sep b = Some (d, r)" and b: "str_body b" and IH: "str_body r \<Longrightarrow> unquote (html_escape r) = unquote r"
  shows "unquote (html_escape b) = unquote b"
proof -
  have *: "unquote (html_escape b) = unquote b"
    if q: "is_scalar q" "0x80 \<le> q" "b = encode_scalar q @ r" "\<And>s. unquote (sep_escape d @ s) = map_option ((@) (encode_scalar q)) (unquote s)"
    for q
  proof -
    have "str_body r" by (rule body_suffix [OF scalar_bytes [OF q(1,2)]]) (use b q(3) in simp)
    then have "unquote (html_escape r) = unquote r" by (rule IH)
    then have "unquote (sep_escape d @ html_escape r) = unquote (encode_scalar q @ r)"
      by (simp only: q(4) unquote_scalar [OF q(1,2)])
    moreover have "html_escape b = sep_escape d @ html_escape r" using sep by (simp add: html_escape.simps [of b])
    ultimately show ?thesis using q(3) by simp
  qed
  have s: "is_scalar 0x2028" "is_scalar 0x2029" by (simp_all add: is_scalar_def)
  show ?thesis
    using line_sep_scalar [OF sep]
  proof
    assume "d = CHR ''8'' \<and> b = encode_scalar 0x2028 @ r"
    then show ?thesis using unquote_sep_escape(1) by (intro * [OF s(1)]) simp_all
  next
    assume "d = CHR ''9'' \<and> b = encode_scalar 0x2029 @ r"
    then show ?thesis using unquote_sep_escape(2) by (intro * [OF s(2)]) simp_all
  qed
qed

lemma unquote_html: "str_body b \<Longrightarrow> unquote (html_escape b) = unquote b"
proof (induction b rule: length_induct)
  case (1 b)
  then have IH: "str_body w \<Longrightarrow> length w < length b \<Longrightarrow> unquote (html_escape w) = unquote w" for w by blast
  have ascii_u: "ascii backslash" "\<not> is_html backslash" "ascii (CHR ''u'')" "\<not> is_html (CHR ''u'')"
    by (simp_all add: ascii_def is_html_byte backslash_def byte_def)
  from 1(2) show ?case
  proof (cases rule: str_body.cases)
    case body_Nil
    then show ?thesis by (simp add: html_escape.simps line_sep_def)
  next
    case (body_plain c b')
    have b': "unquote (html_escape b') = unquote b'" using IH body_plain by simp
    show ?thesis
    proof (cases "line_sep b")
      case (Some dr)
      then show ?thesis
        using unquote_html_sep [of b "fst dr" "snd dr"] 1(2) IH line_sep_shorter [of b "fst dr" "snd dr"] by simp
    next
      case None
      show ?thesis
      proof (cases "ascii c")
        case True
        then show ?thesis
          using None body_plain b' unquote_u_escape [of c] by (simp add: html_escape_Cons unquote_plain)
      next
        case False
        then have e: "html_escape b = c # html_escape b'"
          using None body_plain html_ascii [of c] by (auto simp: html_escape_Cons)
        obtain r n where rn: "decode_rune (c # b') = (r, Suc n)" "decode_rune (c # html_escape b') = (r, Suc n)"
          and n: "n \<le> length (takeWhile is_cont b')" by (rule decode_rune_html)
        have "unquote (html_escape (drop n b')) = unquote (drop n b')"
          using IH [of "drop n b'"] body_drop [OF n] body_plain by simp
        then show ?thesis
          using unquote_high [OF False rn(1)] unquote_high [OF False rn(2)] html_escape_drop [OF n] body_plain(1) e by simp
      qed
    qed
  next
    case (body_escape e b')
    have "ascii e \<and> \<not> is_html e" using body_escape(2) by (auto simp: ascii_def is_html_byte quote_def backslash_def byte_def)
    then have "html_escape b = backslash # e # html_escape b'"
      using ascii_u body_escape(1) by (simp add: html_escape_copy)
    moreover have "e \<noteq> CHR ''u''" using body_escape(2) u_no_escape by metis
    moreover have "unquote (html_escape b') = unquote b'" using IH body_escape by simp
    ultimately show ?thesis
      using body_escape(1) unquote.simps [of "backslash # e # b'"] unquote.simps [of "backslash # e # html_escape b'"]
      by (simp split: option.split)
  next
    case (body_u h1 h2 h3 h4 b')
    have e: "html_escape b = backslash # CHR ''u'' # h1 # h2 # h3 # h4 # html_escape b'"
      using body_u(1) hex4_chars [OF body_u(2)] hex_val_ascii ascii_u by (simp add: html_escape_copy)
    obtain r where r: "hex4 [h1, h2, h3, h4] = Some r" using body_u(2) by blast
    have b': "unquote (html_escape b') = unquote b'" using IH body_u by simp
    have "unquote (html_escape (drop 6 b')) = unquote (drop 6 b')" if "str_body (drop 6 b')"
      using IH [OF that] body_u(1) by simp
    then have "unquote (backslash # CHR ''u'' # h1 # h2 # h3 # h4 # html_escape b') =
        unquote (backslash # CHR ''u'' # h1 # h2 # h3 # h4 # b')"
      using b' low_half_html [OF body_u(3), of r] unfolding unquote_hex [OF r]
      by (cases "low_half r b'") simp_all
    then show ?thesis using e body_u(1) by simp
  qed
qed

text \<open>So a compacted document decodes to the string it decoded to before.\<close>

lemma unmarshal_string_compact: "compact w = Some c \<Longrightarrow> unmarshal_string c = unmarshal_string w"
proof -
  assume "compact w = Some c"
  then obtain v where v: "json_parse w = Some v" "json_parse c = Some (escaped_val v)" by (rule compact_parse)
  have "string_of_val old (escaped_val v) = string_of_val old v" for old
    using json_parse_well_formed(1) [OF v(1)] by (cases v) (simp_all add: string_of_val_def unquote_html)
  with v show ?thesis by (simp add: unmarshal_string_def)
qed

section \<open>Blank space\<close>

text \<open>A document is null exactly when it reads null between blanks; a string never does.\<close>

lemma trim_space_ascii: "list_all ascii s \<Longrightarrow> trim_space s = trim_by (\<lambda>c. is_space (byte c)) s"
  by (simp add: trim_space_def trim_by_def segments_ascii dropWhile_map rev_map comp_def)

lemma trim_space_quote: obtains s' where "trim_space (quote # s) = quote # s'"
proof -
  have q: "ascii quote" "\<not> is_space (byte quote)" by (simp_all add: ascii_def is_space_def quote_def byte_def)
  let ?P = "\<lambda>seg :: rune \<times> string. is_space (fst seg)"
  have "dropWhile ?P (rev (segments s) @ [(byte quote, [quote])]) = dropWhile ?P (rev (segments s)) @ [(byte quote, [quote])]"
    by (rule dropWhile_append3) (simp add: q)
  with q that show thesis by (simp add: trim_space_def trim_by_def)
qed

lemma null_text:
  assumes "json_parse w = Some (JLit l)"
  obtains a b where "w = a @ l @ b" and "list_all is_ws a" and "list_all is_ws b"
proof -
  obtain n r where r: "pval (Suc n) w = Some (JLit l, r)" "skip_ws r = []"
    using assms by (auto simp: json_parse_def parse_fuel_def split: option.splits if_splits)
  obtain c t where c: "skip_ws w = c # t" using r(1) by (cases "skip_ws w") simp_all
  then have "scan_scalar (c # t) = Some (l, r)" using r(1) by (auto split: if_splits list.splits)
  then have "c # t = l @ r" using scan_scalarD by blast
  moreover obtain ws where "w = ws @ c # t" "list_all is_ws ws" using skip_split [OF c] .
  moreover have "list_all is_ws r" using r(2) by (auto simp: skip_ws_def list_all_iff)
  ultimately show thesis using that by simp
qed

lemma trim_null:
  assumes "json_parse w = Some (JLit ''null'')"
  shows "trim_space w = ''null''"
proof -
  obtain a b where w: "w = a @ ''null'' @ b" and ws: "list_all is_ws a" "list_all is_ws b" using null_text [OF assms] .
  have blank: "ascii c \<and> is_space (byte c)" if "is_ws c" for c using that by (auto simp: is_ws_def ascii_def is_space_def)
  have null: "list_all ascii ''null''" "\<not> is_space (byte CHR ''n'')" "\<not> is_space (byte CHR ''l'')"
    by (simp_all add: ascii_def is_space_def byte_def)
  have "list_all ascii w" using ws null(1) blank by (auto simp: w list_all_iff)
  moreover have "dropWhile (\<lambda>c. is_space (byte c)) (a @ ''null'' @ b) = ''null'' @ b"
    using ws(1) blank null(2) by (subst dropWhile_append2) (auto simp: list_all_iff)
  moreover have "dropWhile (\<lambda>c. is_space (byte c)) (rev b @ rev ''null'') = rev ''null''"
    using ws(2) blank null(3) by (subst dropWhile_append2) (auto simp: list_all_iff)
  ultimately show ?thesis by (simp add: trim_space_ascii trim_by_def w)
qed

end
