(* ===== verification/Stored.thy ===== *)
theory Stored
  imports ApiTheorems JsonEscape
begin

text \<open>
  What is stored is the object that was sent (\<open>parseObject\<close> and \<open>render\<close> of internal/api/api.go): its
  canonical encoding is read back as the same members with their values compacted, and encoding
  that again changes nothing.
\<close>

section \<open>The canonical form\<close>

lemma raw_map_compact:
  assumes "raw_map m" and "(k, w) \<in> set m"
  obtains v c where "json_parse w = Some v" and "JsonCodec.compact w = Some c" and "json_parse c = Some (escaped_val v)"
    and "depth (escaped_val v) < max_depth" and "valid_text k"
proof -
  obtain v where v: "json_parse w = Some v" "depth v < max_depth" "valid_text k" using assms by (auto simp: raw_map_def)
  then obtain c where c: "JsonCodec.compact w = Some c" by (simp add: compact_def)
  obtain v' where v': "json_parse w = Some v'" "json_parse c = Some (escaped_val v')" using compact_parse [OF c] .
  with v c show thesis by (intro that [of v c]) (simp_all add: depth_escaped)
qed

lemma compacted_keys: "map fst (compacted m) = map fst (sort_key fst m)"
  by (simp add: compacted_def comp_def case_prod_unfold)

lemma compacted_raw_map: "raw_map m \<Longrightarrow> raw_map (compacted m)"
proof -
  assume m: "raw_map m"
  have "gomap_ok (compacted m)"
    using m by (simp add: compacted_keys raw_map_def gomap_sort)
  moreover have "valid_text k \<and> (\<exists>v. json_parse w = Some v \<and> depth v < max_depth)" if "(k, w) \<in> set (compacted m)" for k w
  proof -
    obtain w' where w': "(k, w') \<in> set m" "w = the (JsonCodec.compact w')"
      using \<open>(k, w) \<in> set (compacted m)\<close> by (auto simp: compacted_def)
    obtain v c where "JsonCodec.compact w' = Some c" "json_parse c = Some (escaped_val v)"
      "depth (escaped_val v) < max_depth" "valid_text k"
      using raw_map_compact [OF m w'(1)] .
    then show ?thesis by (simp add: w'(2))
  qed
  ultimately show ?thesis by (auto simp: raw_map_def)
qed

lemma compacted_val: "raw_map m \<Longrightarrow> map_val (compacted m) = map_val m"
proof -
  assume m: "raw_map m"
  have "sort_key fst (compacted m) = compacted m" by (rule sort_key_id_if_sorted) (simp add: compacted_keys)
  moreover have "escaped_val (the (json_parse (the (JsonCodec.compact w)))) = escaped_val (the (json_parse w))" if kw: "(k, w) \<in> set m" for k w
  proof -
    obtain v c where "json_parse w = Some v" "JsonCodec.compact w = Some c" "json_parse c = Some (escaped_val v)"
      using raw_map_compact [OF m kw] .
    then show ?thesis by (simp add: escaped_val_idem)
  qed
  ultimately show ?thesis
    by (auto simp: map_val_def compacted_def)
qed

lemma map_of_compacted:
  assumes "raw_map m"
  shows "map_of (compacted m) k = Option.bind (map_of m k) JsonCodec.compact"
proof -
  have "map_of (sort_key fst m) = map_of m"
    using assms by (subst map_of_inject_set) (simp_all add: raw_map_def gomap_sort)
  moreover have "map_of (compacted m) k = map_option (\<lambda>w. the (JsonCodec.compact w)) (map_of (sort_key fst m) k)"
    by (simp add: compacted_def map_of_map)
  moreover have "\<exists>c. JsonCodec.compact w = Some c" if w: "map_of m k = Some w" for w
    by (rule raw_map_compact [OF assms map_of_SomeD [OF w]]) blast
  ultimately show ?thesis by (cases "map_of m k") auto
qed

section \<open>Index, mask and validity\<close>

text \<open>What the schema computes of an object depends on the strings of its fields only.\<close>

lemma compacted_strings:
  assumes "raw_map m" and "(k, w) \<in> set m"
  shows "unmarshal_string (the (JsonCodec.compact w)) = unmarshal_string w"
proof -
  obtain v c where "JsonCodec.compact w = Some c" using raw_map_compact [OF assms] .
  then show ?thesis by (simp add: unmarshal_string_compact)
qed

lemma index_field_compacted:
  assumes "raw_map m"
  shows "index_field (compacted m) (k, f) out = index_field m (k, f) out"
proof (cases "map_of m k")
  case (Some w)
  have kw: "(k, w) \<in> set m" by (rule map_of_SomeD [OF Some])
  obtain v c where c: "JsonCodec.compact w = Some c" using raw_map_compact [OF assms kw] .
  then have "map_of (compacted m) k = Some c" by (simp add: map_of_compacted [OF assms] Some)
  with Some c show ?thesis
    by (simp add: index_field_def unmarshal_string_compact)
qed (simp add: index_field_def map_of_compacted [OF assms])

lemma Indexed_compacted: "raw_map m \<Longrightarrow> Indexed pick sc coll (compacted m) = Indexed pick sc coll m"
proof -
  assume m: "raw_map m"
  have "index_fields (compacted m) fs out = index_fields m fs out" for fs out
    by (induction fs arbitrary: out) (auto simp: index_field_compacted [OF m] split: sum.splits)
  then show ?thesis by (simp add: Indexed_def)
qed

lemma try_map_cong: "(\<And>x. x \<in> set xs \<Longrightarrow> f (h x) = g x) \<Longrightarrow> try_map f (map h xs) = try_map g xs"
  by (induction xs) (simp_all split: sum.splits)

lemma Mask_compacted: "raw_map m \<Longrightarrow> Mask sc coll (compacted m) = Mask sc coll (sort_key fst m)"
  unfolding Mask_def compacted_def
  by (rule try_map_cong) (auto simp: mask_member_def compacted_strings split: prod.splits)

text \<open>A field that validates still does: null is written as null, and a string is not null.\<close>

lemma null_no_quote: "hd ''null'' \<noteq> quote"
  by (simp add: quote_def)

lemma validate_member_compacted:
  assumes "raw_map m" and "(k, w) \<in> set m" and "validate_member c (k, w) = Inr ()"
  shows "validate_member c (k, the (JsonCodec.compact w)) = Inr ()"
proof -
  obtain v c' where v: "json_parse w = Some v" and c': "JsonCodec.compact w = Some c'" "json_parse c' = Some (escaped_val v)"
    using raw_map_compact [OF assms(1,2)] .
  obtain s where s: "trim_space w \<noteq> ''null''" "unmarshal_string w = Some s"
    using assms(3) by (auto simp: validate_member_def split: option.splits if_splits)
  have "v \<noteq> JLit ''null''" using s(1) trim_null v by blast
  then obtain b where "v = JStr b"
    using s(2) v by (cases v) (auto simp: unmarshal_string_def string_of_val_def split: if_splits)
  then have "c' = quote # html_escape b @ [quote]" using c'(1) v by (simp add: compact_def print_val_text)
  then have "trim_space c' \<noteq> ''null''"
    using trim_space_quote [of "html_escape b @ [quote]"] by (metis list.sel(1) null_no_quote)
  then show ?thesis
    using assms(3) s c'(1) by (auto simp: validate_member_def unmarshal_string_compact split: option.splits)
qed

lemma Validate_compacted:
  assumes "raw_map m" and "Validate pick sc coll m = Inr ()"
  shows "Validate pick' sc coll (compacted m) = Inr ()"
proof (cases "map_of sc coll")
  case (Some c)
  have g: "gomap_ok m" "gomap_ok (compacted m)"
    using assms(1) compacted_raw_map [OF assms(1)] by (simp_all add: raw_map_def)
  obtain ys where ys: "try_map (validate_member c) (range_over pick m) = Inr ys"
    using assms(2) Some by (auto simp: Validate_def split: sum.splits)
  have "\<exists>y. validate_member c x = Inr y" if x: "x \<in> set (range_over pick' (compacted m))" for x
  proof -
    have "x \<in> set (compacted m)" using x by (simp add: set_range_over [OF g(2)])
    then obtain k w where w: "(k, w) \<in> set m" "x = (k, the (JsonCodec.compact w))" by (auto simp: compacted_def)
    then have "validate_member c (k, w) = Inr ()" using try_map_ok_all [OF ys, of "(k, w)"] w(1) by (simp add: set_range_over [OF g(1)])
    then show ?thesis using validate_member_compacted [OF assms(1) w(1)] w(2) by simp
  qed
  then obtain ys' where "try_map (validate_member c) (range_over pick' (compacted m)) = Inr ys'"
    using try_map_total [of "range_over pick' (compacted m)" "validate_member c"] by blast
  with Some show ?thesis by (simp add: Validate_def)
qed (simp add: Validate_def)

section \<open>What was sent\<close>

definition sent_text :: bytes where
  "sent_text = quoted ''{ <_subject>: <kim>, <card> : <4111 1111 1111 1111> }''"

lemma take_subject_rest:
  assumes "take_subject obj = Inr (s, rest)"
  shows "rest = AList.delete subjectKey obj"
    and "case map_of obj subjectKey of None \<Rightarrow> s = [] | Some w \<Rightarrow> unmarshal_string w = Some s"
proof -
  have "map_of obj subjectKey = None \<Longrightarrow> AList.delete subjectKey obj = obj"
    by (rule delete_id) (simp add: map_of_eq_None_iff)
  with assms show "rest = AList.delete subjectKey obj"
    and "case map_of obj subjectKey of None \<Rightarrow> s = [] | Some w \<Rightarrow> unmarshal_string w = Some s"
    by (auto simp: take_subject_def split: option.splits if_splits)
qed

lemma raw_map_delete: "raw_map m \<Longrightarrow> raw_map (AList.delete k m)"
proof -
  assume m: "raw_map m"
  have "gomap_ok (AList.delete k m)" using m distinct_delete [of m k] by (simp add: raw_map_def)
  moreover have "set (AList.delete k m) \<subseteq> set m" by (auto simp: AList.delete_eq)
  ultimately show ?thesis using m by (auto simp: raw_map_def)
qed

lemma parseObject_parts:
  assumes "parseObject srv coll raw = Inr it"
  obtains obj where "unmarshal_map raw = Some (Some obj)"
    and "case map_of obj subjectKey of None \<Rightarrow> it_subject it = [] | Some w \<Rightarrow> unmarshal_string w = Some (it_subject it)"
    and "raw_map (AList.delete subjectKey obj)" and "marshal_map (AList.delete subjectKey obj) = Some (it_plaintext it)"
    and "Validate (s_range srv) (s_schema srv) coll (AList.delete subjectKey obj) = Inr ()"
    and "Indexed (s_range srv) (s_schema srv) coll (AList.delete subjectKey obj) = Inr (it_indexed it)"
proof -
  obtain obj rest where obj: "unmarshal_map raw = Some (Some obj)" "take_subject obj = Inr (it_subject it, rest)"
    and rest: "marshal_map rest = Some (it_plaintext it)"
      "Validate (s_range srv) (s_schema srv) coll rest = Inr ()" "Indexed (s_range srv) (s_schema srv) coll rest = Inr (it_indexed it)"
    using assms by (fastforce simp: parseObject_def split: if_splits option.splits sum.splits)
  show thesis
    using take_subject_rest [OF obj(2)] obj(1) rest raw_map_delete [OF unmarshal_map_raw [OF obj(1)]] by (intro that) simp_all
qed

definition sent_item :: item where
  "sent_item =
     \<lparr>it_plaintext = quoted ''{<card>:<4111 1111 1111 1111>}'', it_indexed = [(''card#last4'', ''1111'')], it_subject = ''kim''\<rparr>"

definition declared_server :: "(unit world, nat) server" where
  "declared_server = sample_server\<lparr>s_schema := sample_schema\<rparr>"

lemma sent_parts:
  "unmarshal_map sent_text = Some (Some [(subjectKey, quoted ''<kim>''), (''card'', quoted ''<4111 1111 1111 1111>'')])"
  "utf8_valid sent_text" "unmarshal_string (quoted ''<kim>'') = Some ''kim''" "subjectRe ''kim''"
  "marshal_map sample_object = Some (quoted ''{<card>:<4111 1111 1111 1111>}'')"
  "Indexed (\<lambda>ks. ks) sample_schema ''c'' sample_object = Inr [(''card#last4'', ''1111'')]"
  by code_simp+

lemma sent_valid: "Validate (\<lambda>ks. ks) sample_schema ''c'' sample_object = Inr ()"
proof -
  have "trim_space (quote # s) \<noteq> ''null''" for s using trim_space_quote [of s] by (metis list.sel(1) null_no_quote)
  then have "trim_space (quoted ''<4111 1111 1111 1111>'') \<noteq> ''null''" by (simp add: quoted_def)
  moreover have "unmarshal_string (quoted ''<4111 1111 1111 1111>'') = Some ''4111 1111 1111 1111''"
    "validateCard ''4111 1111 1111 1111'' = Inr ()" "range_over (\<lambda>ks. ks) sample_object = sample_object" by code_simp+
  ultimately show ?thesis
    by (simp add: Validate_def validate_member_def sample_schema_def sample_object_def types_def type_card_def)
qed

lemma sent_accepted:
  "parseObject declared_server ''c'' sent_text = Inr sent_item"
proof -
  have "AList.delete subjectKey [(subjectKey, quoted ''<kim>''), (''card'', quoted ''<4111 1111 1111 1111>'')] = sample_object"
    by code_simp
  then have "take_subject [(subjectKey, quoted ''<kim>''), (''card'', quoted ''<4111 1111 1111 1111>'')] = Inr (''kim'', sample_object)"
    using sent_parts(3,4) by (simp add: take_subject_def)
  moreover have "length sent_text \<le> maxBody" by (simp add: sent_text_def quoted_def maxBody_def)
  ultimately show ?thesis using sent_parts sent_valid by (simp add: parseObject_def declared_server_def sample_server_def sent_item_def)
qed

text \<open>
  C38: The object POST accepts is the object that is stored. The plaintext that parseObject hands to
  the store is JSON that decodes to the members of the request's object, all but its subject field,
  each value being the request's own text compacted; its keys are sorted and occur once, and encoding
  it again gives the same bytes. The subject is the string under the subject field, or empty. Under
  the same schema the stored form is valid whatever the order of the map, and a masked read shows the
  mask of what was sent: compaction rewrites the text of the strings, never the strings. And if Parse
  accepted the schema and no field of the collection is named like the fragment of another one, then
  the index values of the stored form are those computed for the POST, whatever order a later
  reindex visits the fields in.
\<close>

theorem stored_reads_back:
  assumes "parseObject srv coll raw = Inr it"
  shows "\<exists>obj m. unmarshal_map raw = Some (Some obj)
     \<and> unmarshal_map (it_plaintext it) = Some (Some m) \<and> marshal_map m = Some (it_plaintext it)
     \<and> sorted (map fst m) \<and> distinct (map fst m)
     \<and> (\<forall>k. map_of m k = (if k = subjectKey then None else Option.bind (map_of obj k) JsonCodec.compact))
     \<and> (case map_of obj subjectKey of None \<Rightarrow> it_subject it = [] | Some w \<Rightarrow> unmarshal_string w = Some (it_subject it))
     \<and> (\<forall>pick. Validate pick (s_schema srv) coll m = Inr ())
     \<and> Mask (s_schema srv) coll m = Mask (s_schema srv) coll (sort_key fst (AList.delete subjectKey obj))
     \<and> (Parse pick0 data = Inr (s_schema srv) \<longrightarrow> no_clash (fields_of (s_schema srv) coll) \<longrightarrow>
          (\<forall>pick. \<exists>ix. Indexed pick (s_schema srv) coll m = Inr ix \<and> map_of ix = map_of (it_indexed it)))"
proof -
  obtain obj where o: "unmarshal_map raw = Some (Some obj)"
      "case map_of obj subjectKey of None \<Rightarrow> it_subject it = [] | Some w \<Rightarrow> unmarshal_string w = Some (it_subject it)"
    and r: "raw_map (AList.delete subjectKey obj)" and p: "marshal_map (AList.delete subjectKey obj) = Some (it_plaintext it)"
    and v: "Validate (s_range srv) (s_schema srv) coll (AList.delete subjectKey obj) = Inr ()"
    and i: "Indexed (s_range srv) (s_schema srv) coll (AList.delete subjectKey obj) = Inr (it_indexed it)"
    using parseObject_parts [OF assms] .
  let ?m = "compacted (AList.delete subjectKey obj)"
  have m: "unmarshal_map (it_plaintext it) = Some (Some ?m)"
    using marshal_then_unmarshal [OF r] p by (metis option.inject)
  have again: "marshal_map ?m = Some (it_plaintext it)"
    using marshal_map_text [OF compacted_raw_map [OF r]] marshal_map_text [OF r] p by (simp add: compacted_val [OF r])
  have "sorted (map fst ?m) \<and> distinct (map fst ?m)"
    using r by (simp add: compacted_keys raw_map_def gomap_sort)
  moreover have "map_of ?m k = (if k = subjectKey then None else Option.bind (map_of obj k) JsonCodec.compact)" for k
    by (simp add: map_of_compacted [OF r] delete_conv')
  moreover have "\<exists>ix. Indexed pick (s_schema srv) coll ?m = Inr ix \<and> map_of ix = map_of (it_indexed it)"
    if "Parse pick0 data = Inr (s_schema srv)" "no_clash (fields_of (s_schema srv) coll)" for pick
    using Parse_schema_ok [OF that(1)] Indexed_any_order [OF _ _ that(2) i] by (simp add: Indexed_compacted [OF r])
  ultimately show ?thesis
    using o m again Validate_compacted [OF r v] Mask_compacted [OF r]
    by (intro exI [of _ obj] exI [of _ ?m]) simp
qed

theorem stored_reads_back_witness:
  "\<exists>m ix. unmarshal_map (quoted ''{<card>:<4111 1111 1111 1111>}'') = Some (Some m)
     \<and> Indexed rev sample_schema ''c'' m = Inr ix \<and> map_of ix ''card#last4'' = Some ''1111''"
proof -
  have s: "s_schema declared_server = sample_schema" by (simp add: declared_server_def sample_server_def)
  have "no_clash (fields_of (s_schema declared_server) ''c'')" unfolding s by code_simp
  with stored_reads_back [OF sent_accepted, of "\<lambda>ks. ks" schema_text] schema_text_parses
  obtain m where "unmarshal_map (it_plaintext sent_item) = Some (Some m)"
    and "\<forall>pick. \<exists>ix. Indexed pick sample_schema ''c'' m = Inr ix \<and> map_of ix = map_of (it_indexed sent_item)"
    unfolding s by blast
  then show ?thesis by (fastforce simp: sent_item_def)
qed

end
