(* ===== verification/Wire.thy ===== *)
theory Wire
  imports Calls Stored
begin

text \<open>
  The client, the server and the store together: what a caller of the client can count on from end
  to end.
\<close>

section \<open>New ids\<close>

lemma hex_byte_lower: "length (hex_byte c) = 2 \<and> list_all lower_hex (hex_byte c)"
proof -
  have "n < 16 \<Longrightarrow> lower_hex (hextable ! n)" for n
  proof -
    have "list_all (\<lambda>n. lower_hex (hextable ! n)) [0..<16]" by code_simp
    then show "n < 16 \<Longrightarrow> ?thesis" by (simp add: list_all_iff)
  qed
  then show ?thesis by (simp add: hex_byte_def nibbles)
qed

lemma hex_encode_lower: "length (hex_encode b) = 2 * length b \<and> list_all lower_hex (hex_encode b)"
  using hex_byte_lower by (induction b) (auto simp: hex_encode_def)

lemma newID_ok:
  assumes "newID h = (i, h')"
  shows "idRe i \<and> list_all ascii i \<and> proper i"
proof -
  obtain b where b: "rand_read 16 h = (b, h')" and i: "i = ''tok_'' @ hex_encode b"
    using assms by (auto simp: newID_def split: prod.splits)
  note x = hex_encode_lower [of b] and l = rand_read_length [OF b]
  have "lower_hex c \<Longrightarrow> ascii c" for c by (auto simp: lower_hex_def is_digit_def ascii_def)
  with x have "list_all ascii (hex_encode b)" by (auto simp: list_all_iff)
  moreover have "list_all ascii ''tok_''" by code_simp
  moreover have "cut_prefix ''tok_'' i = Some (hex_encode b)" by (simp add: i cut_prefix_Some)
  ultimately show ?thesis using x l by (simp add: i idRe_def proper_def)
qed

lemma put_items_ids:
  fixes s :: "'k tx"
  assumes "try_each (put_item C st actor c) items s = (Inr puts, s')"
  shows "list_all (\<lambda>(i, e). idRe i \<and> list_all ascii i \<and> proper i) puts"
  using assms
proof (induction items arbitrary: s puts)
  case (Cons it items)
  obtain r1 s1 where 1: "put_item C st actor c it s = (r1, s1)" by (metis surj_pair)
  with Cons.prems obtain i e where r1: "r1 = Inr (i, e)" by (cases r1) auto
  from Cons.prems 1 r1 obtain puts' where rest: "try_each (put_item C st actor c) items s1 = (Inr puts', s')"
    and puts: "puts = (i, e) # puts'"
    by (auto split: prod.splits sum.splits)
  obtain j s0 where j: "tx_host newID s = (j, s0)" by (metis surj_pair)
  with 1 r1 have "i = j"
    by (auto simp: put_item_def Let_def split: prod.splits sum.splits)
  moreover have "\<exists>(h :: 'k host) h'. newID h = (j, h')"
    using j by (auto simp: tx_host_def on_host_def split: prod.splits)
  ultimately show ?case using newID_ok Cons.IH [OF rest] puts by auto
qed simp

lemma PutMany_ids:
  fixes w :: "'k world"
  assumes "PutMany C st actor c items w = (Inr ids, w')"
  shows "list_all (\<lambda>i. idRe i \<and> list_all ascii i \<and> proper i) ids"
proof -
  obtain x w1 where tx: "in_tx (try_each (put_item C st actor c) items) w = (x, w1)" by (metis surj_pair)
  from assms tx obtain puts where x: "x = Inr puts" and ids: "ids = map fst puts"
    by (auto simp: PutMany_def split: sum.splits)
  have "\<exists>v (v' :: 'k world). try_each (put_item C st actor c) items (found_db w, v) = (Inr puts, (w_db w1, v'))"
    by (rule in_tx_success [OF tx [unfolded x]]) (rule put_items_frame)
  then obtain v and v' :: "'k world" where "try_each (put_item C st actor c) items (found_db w, v) = (Inr puts, (w_db w1, v'))"
    by blast
  from put_items_ids [OF this] show ?thesis by (auto simp: ids list_all_iff)
qed

section \<open>Create, through the API\<close>

definition api_server ::
  "(string \<Rightarrow> limiter \<Rightarrow> nat \<Rightarrow> 'l \<Rightarrow> bool \<times> 'l) \<Rightarrow> (string list \<Rightarrow> string list) \<Rightarrow> 'v vault \<Rightarrow> schema
   \<Rightarrow> client list \<Rightarrow> ('v, 'l) server" where
  "api_server allowN pick v sc clients =
     \<lparr>s_vault = v, s_schema = sc, s_limiters = new_limiters clients, s_allowN = allowN, s_range = pick\<rparr>"

lemma New_handles:
  assumes "New sha256 allowN pick v sc clients r s = (a, s')"
    and "lookup_route routes (r_method r) (r_path r) = Some (e, vs)"
  shows "(a, s') = (writeError 401 ''invalid API key'', s)
    \<or> (\<exists>cl. handle (api_server allowN pick v sc clients) cl e vs r s = (a, s'))"
  using assms by (auto simp: New_def requireKey_def serve_mux_def api_server_def split: prod.splits if_splits)

lemma index_field_gomap: "gomap_ok out \<Longrightarrow> index_field obj nf out = Inr out' \<Longrightarrow> gomap_ok out'"
  by (auto simp: index_field_def Let_def distinct_update split: prod.splits option.splits if_splits)

lemma index_fields_gomap: "gomap_ok out \<Longrightarrow> index_fields obj nfs out = Inr out' \<Longrightarrow> gomap_ok out'"
  by (induction obj nfs out rule: index_fields.induct) (auto dest: index_field_gomap split: sum.splits)

text \<open>The stored form is one JSON document with nothing after it.\<close>

lemma stored_first: "parseObject srv coll raw = Inr it \<Longrightarrow> first_value (it_plaintext it) = Some (it_plaintext it)"
proof -
  assume "parseObject srv coll raw = Inr it"
  then obtain obj where "raw_map (AList.delete subjectKey obj)" "marshal_map (AList.delete subjectKey obj) = Some (it_plaintext it)"
    by (rule parseObject_parts)
  then show ?thesis
    using first_value_text [OF raw_map_val, of "AList.delete subjectKey obj" "[]"] by (simp add: marshal_map_text)
qed

lemma parseObject_gomap: "parseObject srv coll raw = Inr it \<Longrightarrow> gomap_ok (it_indexed it)"
  using index_fields_gomap [of "[]"]
  by (auto simp: parseObject_def Indexed_def split: if_splits option.splits sum.splits)

lemma create_success:
  assumes "create srv cl coll r s = (Answer n p, s')" and "200 \<le> n" and "n \<le> 299" and "r_body r = Whole b"
  shows "\<exists>it i ids. parseObject srv coll b = Inr it \<and> p = Created_id i
    \<and> on_vault (v_PutMany (s_vault srv) (c_name cl) coll [it]) s = (Inr (i # ids), s')"
  using assms
  by (auto simp: create_def writeError_def internalError_def require_def readBody_def refuse_def
      split: if_splits option.splits sum.splits prod.splits list.splits)

lemma CreateObject_success:
  fixes s :: "('k world, 'l) site"
  assumes "CreateObject (api_network texts (ac_base c) (New sha256 allowN pick (store_vault C st) sc clients))
      c collection (Some (Inr obj)) s = (Inr i, s')" and "proper collection"
  shows "\<exists>it actor ids. parseObject (api_server allowN pick (store_vault C st) sc clients) collection obj = Inr it
    \<and> PutMany C st actor collection [it] (at_vault s) = (Inr (i # ids), at_vault s')"
proof -
  let ?api = "New sha256 allowN pick (store_vault C st) sc clients"
  let ?srv = "api_server allowN pick (store_vault C st) sc clients"
  let ?r = "arrived c ''POST'' [''v1'', ''collections'', collection, ''objects''] [] obj"
  obtain a s1 where run: "?api ?r s = (a, s1)" by (metis surj_pair)
  have "CreateObject (api_network texts (ac_base c) ?api) c collection (Some (Inr obj)) s
      = (outcome texts (decode_struct id_member []) a, s1)"
    by (rule object_call) (rule run)
  with assms(1) have o: "outcome texts (decode_struct id_member []) a = Inr i" and s1: "s1 = s'" by simp_all
  then obtain n p where a: "a = Answer n p" and n: "200 \<le> n" "n \<le> 299"
    and d: "decode_struct id_member [] (answer_body texts p) = Some i"
    by (auto simp: outcome_def Let_def split: answer.splits if_splits option.splits)
  have "lookup_route routes (r_method ?r) (r_path ?r) = Some (Create, [collection])"
    using object_routes(1) [OF assms(2) assms(2) assms(2)] by (simp add: arrived_def)
  from New_handles [OF run this] obtain cl where "create ?srv cl collection ?r s = (Answer n p, s')"
    using a n s1 by (auto simp: writeError_def)
  have body: "r_body ?r = Whole obj" by (simp add: arrived_def)
  from create_success [OF \<open>create ?srv cl collection ?r s = (Answer n p, s')\<close> n body] obtain it j ids where it: "parseObject ?srv collection obj = Inr it"
    and p: "p = Created_id j"
    and put: "on_vault (v_PutMany (s_vault ?srv) (c_name cl) collection [it]) s = (Inr (j # ids), s')" by auto
  from put have put: "PutMany C st (c_name cl) collection [it] (at_vault s) = (Inr (j # ids), at_vault s')"
    by (auto simp: api_server_def store_vault_def on_vault_def split: prod.splits)
  from PutMany_ids [OF this] have "valid_text j" by (simp add: valid_text_asciis)
  from created_id_decodes [OF this] d p have "j = i" by simp
  with it put show ?thesis by blast
qed

section \<open>Get, through the API\<close>

lemma get_full_cases:
  assumes "get srv cl coll oid r s = (a, s')" and "query_get r ''reveal'' = ''full''" and "idRe oid"
    and "s_vault srv = store_vault C st"
  shows "(\<exists>m w x. GetMany C st coll [oid] (at_vault s) = (Inr m, w) \<and> map_of m oid = Some x \<and> a = Answer 200 (Shown (Raw x)))
    \<or> (\<exists>m w. GetMany C st coll [oid] (at_vault s) = (Inr m, w) \<and> map_of m oid = None
          \<and> a = writeError 404 ''object not found'')
    \<or> (\<exists>status m. a = writeError status m \<and> status \<in> {403, 429, 500})"
  using assms
  by (auto simp: get_def Let_def reveal_known_def require_def allow_def audit_def auditMany_def internalError_def
      on_vault_def store_vault_def split: if_splits option.splits prod.splits sum.splits)

lemma GetObject_full:
  fixes s :: "('k world, 'l) site"
  assumes "GetObject (api_network texts (ac_base c) (New sha256 allowN pick (store_vault C st) sc clients))
      c collection oid True out s = (res, s')"
    and "proper collection" and "proper oid" and "idRe oid"
  shows "(\<exists>m w x. GetMany C st collection [oid] (at_vault s) = (Inr m, w) \<and> map_of m oid = Some x
        \<and> res = (case Option.bind (first_value x) out of None \<Rightarrow> Inl Not_decoded | Some y \<Rightarrow> Inr y))
    \<or> (\<exists>m w. GetMany C st collection [oid] (at_vault s) = (Inr m, w) \<and> map_of m oid = None
        \<and> res = Inl Object_not_found)
    \<or> (\<exists>status m. res = Inl (Refused_with status m) \<and> status \<in> {401, 403, 429, 500})"
proof -
  let ?api = "New sha256 allowN pick (store_vault C st) sc clients"
  let ?srv = "api_server allowN pick (store_vault C st) sc clients"
  let ?out = "\<lambda>b. Option.bind (first_value b) out"
  let ?r = "arrived c ''GET'' [''v1'', ''collections'', collection, ''objects'', oid] [(''reveal'', ''full'')] []"
  obtain a s1 where run: "?api ?r s = (a, s1)" by (metis surj_pair)
  have "GetObject (api_network texts (ac_base c) ?api) c collection oid True out s = (outcome texts ?out a, s1)"
    by (rule get_call) (simp add: run)
  with assms(1) have res: "res = outcome texts ?out a" by simp
  have "valid_text ''object not found''" by (rule valid_text_asciis, code_simp)
  from error_message_body [OF this] have missing: "outcome texts ?out (writeError 404 ''object not found'') = Inl Object_not_found"
    by (simp add: outcome_def writeError_def)
  have refused: "outcome texts ?out (writeError status m) = Inl (Refused_with status (error_message (answer_body texts (Failure m))))"
    if "status \<in> {401, 403, 429, 500}" for status m
    using that by (auto simp: outcome_def writeError_def Let_def)
  have "lookup_route routes (r_method ?r) (r_path ?r) = Some (Get, [collection, oid])"
    using object_routes(4) [OF assms(2,3,3)] by (simp add: arrived_def)
  from New_handles [OF run this] show ?thesis
  proof (elim disjE exE)
    assume "(a, s1) = (writeError 401 ''invalid API key'', s)"
    then show ?thesis using refused [of 401] res by auto
  next
    fix cl
    assume "handle ?srv cl Get [collection, oid] ?r s = (a, s1)"
    then have g: "get ?srv cl collection oid ?r s = (a, s1)" by simp
    have q: "query_get ?r ''reveal'' = ''full''" by (simp add: query_get_def arrived_def)
    have v: "s_vault ?srv = store_vault C st" by (simp add: api_server_def)
    from get_full_cases [OF g q assms(4) v] show ?thesis
    proof (elim disjE exE conjE)
      fix m w x
      assume "GetMany C st collection [oid] (at_vault s) = (Inr m, w)" "map_of m oid = Some x" "a = Answer 200 (Shown (Raw x))"
      then show ?thesis using res by (intro disjI1) (auto simp: outcome_def)
    next
      fix m w
      assume "GetMany C st collection [oid] (at_vault s) = (Inr m, w)" "map_of m oid = None"
        "a = writeError 404 ''object not found''"
      then show ?thesis using res missing by simp
    next
      fix status m
      assume "a = writeError status m" "status \<in> {403, 429, 500}"
      then show ?thesis using res refused [of status m] by auto
    qed
  qed
qed

section \<open>From end to end\<close>

lemma GetMany_not_fine: "\<not> fine w \<Longrightarrow> \<exists>e w'. GetMany C st c ids w = (Inl e, w')"
  by (auto simp: GetMany_def fine_def pool_exec_def pool_tick_def tick_def sql_select_objects_def split: prod.splits weather.splits)

subsection \<open>A sample call\<close>

definition post_object :: request where
  "post_object = ask ''0123456789abcdef'' ''POST'' [''v1'', ''collections'', ''c'', ''objects''] [] sent_text"

definition declared_api ::
  "request \<Rightarrow> (unit world, nat) site \<Rightarrow> answer \<times> (unit world, nat) site" where
  "declared_api = requireKey (\<lambda>k. k) sample_clients (serve_mux declared_server)"

lemma declared_api_New:
  "New (\<lambda>k. k) sample_allow (\<lambda>ks. ks) (store_vault sample_crypto sample_store) sample_schema sample_clients = declared_api"
  by (simp add: New_def declared_api_def declared_server_def sample_server_def new_limiters_def sample_clients_def
      new_limiter_default sample_client_def masked_client_def)

lemma sent_result: "fst (PutMany sample_crypto sample_store ''kim'' ''c'' [sent_item] sample_world) = Inr [sample_id]"
  by code_simp

lemma post_object_steps:
  "authenticate (\<lambda>k. k) sample_clients (r_authorization post_object) = (sample_client, True)"
  "lookup_route routes (r_method post_object) (r_path post_object) = Some (Create, [''c''])"
  "collectionRe ''c''" "require sample_client RoleWrite = None" "c_name sample_client = ''kim''"
  by code_simp+

lemma sample_post:
  "\<exists>s'. declared_api post_object (site_of sample_world) = (Answer 201 (Created_id sample_id), s')"
proof -
  obtain w where w: "PutMany sample_crypto sample_store ''kim'' ''c'' [sent_item] sample_world = (Inr [sample_id], w)"
    using sent_result by (metis prod.collapse)
  have "readBody post_object maxBody = Inr sent_text"
    by (simp add: readBody_def post_object_def ask_def maxBody_def sent_text_def quoted_def)
  moreover have "s_vault declared_server = store_vault sample_crypto sample_store"
    by (simp add: declared_server_def sample_server_def)
  ultimately show ?thesis
    using post_object_steps sent_accepted w
    by (simp add: declared_api_def requireKey_def serve_mux_def create_def on_vault_def store_vault_def site_of_def)
qed

definition sample_caller :: api_client where
  "sample_caller = NewClient ''http://vault/'' ''0123456789abcdef''"

definition sample_network :: "unit store \<Rightarrow> (unit world, nat) site network" where
  "sample_network st = api_network (\<lambda>_ _. []) (ac_base sample_caller)
     (New (\<lambda>k. k) sample_allow (\<lambda>ks. ks) (store_vault sample_crypto st) sample_schema sample_clients)"

lemma sample_created:
  "\<exists>s'. CreateObject (sample_network sample_store) sample_caller ''c'' (Some (Inr sent_text)) (site_of sample_world)
     = (Inr sample_id, s')"
proof -
  obtain s' where "declared_api post_object (site_of sample_world) = (Answer 201 (Created_id sample_id), s')"
    using sample_post by blast
  moreover have "ac_key sample_caller = ''0123456789abcdef''" by (simp add: sample_caller_def NewClient_def)
  ultimately have run: "declared_api (arrived sample_caller ''POST'' [''v1'', ''collections'', ''c'', ''objects''] [] sent_text)
      (site_of sample_world) = (Answer 201 (Created_id sample_id), s')"
    by (simp add: post_object_def ask_def arrived_def)
  note object_call [of declared_api, OF run, of "\<lambda>_ _. []"]
  moreover have "valid_text sample_id" by (rule valid_text_asciis, code_simp)
  ultimately show ?thesis
    by (simp add: outcome_def created_id_decodes Let_def sample_network_def declared_api_New del: answer_body.simps)
qed

text \<open>
  C40: What a caller stores through the client is what a caller gets through the client. When Create has
  returned an id, then after any run of any server with still others working in between (rotations,
  reindexing, restarts included), a full Get of that id by any client at any server that holds the
  keys decodes exactly the stored form of the object that was sent (what parseObject made of it,
  byte for byte), or is refused for want of a valid key, a role, budget or a working database; it
  is told that the object does not exist only if the object has been shredded.
\<close>

theorem client_create_then_get:
  fixes s1 s3 :: "('k world, 'l) site"
  assumes "valid_keys C keys" and "trusted C (reads C keys) (st_env st1)"
    and "trusted C (reads C keys) (st_env st2)" and "st_index st2 = st_index st1"
    and "st_env st3 = local_env C k ks" and "set (k # ks) = set keys"
    and "rivals_obey C (st_index st1) (reads C keys) (at_vault s1)" and "db_ok (reads C keys) (w_db (at_vault s1))"
    and "proper collection"
    and "CreateObject (api_network texts (ac_base c) (New sha256 allowN pick (store_vault C st1) sc clients))
      c collection (Some (Inr obj)) s1 = (Inr i, s2)"
    and "(serve C st2)\<^sup>*\<^sup>* (at_vault s2) (at_vault s3)"
    and "GetObject (api_network texts (ac_base c') (New sha256 allowN' pick' (store_vault C st3) sc' clients'))
      c' collection i True out s3 = (res, s4)"
  shows "\<exists>it. parseObject (api_server allowN pick (store_vault C st1) sc clients) collection obj = Inr it
    \<and> (res = (case out (it_plaintext it) of None \<Rightarrow> Inl Not_decoded | Some x \<Rightarrow> Inr x)
      \<or> (\<exists>status m. res = Inl (Refused_with status m) \<and> status \<in> {401, 403, 429, 500})
      \<or> (res = Inl Object_not_found
          \<and> (\<exists>r \<in> set (objects (found_db (at_vault s3))). o_id r = i \<and> o_deleted r)))"
proof -
  from CreateObject_success [OF assms(10,9)] obtain it actor ids
    where it: "parseObject (api_server allowN pick (store_vault C st1) sc clients) collection obj = Inr it"
    and put: "PutMany C st1 actor collection [it] (at_vault s1) = (Inr (i # ids), at_vault s2)" by blast
  have i: "idRe i" "proper i" using PutMany_ids [OF put] by simp_all
  have g: "\<forall>it' \<in> set [it]. gomap_ok (it_indexed it')" using parseObject_gomap [OF it] by simp
  note get = GetObject_full [OF assms(12,9) i(2) i(1)]
  show ?thesis
  proof (cases "fine (at_vault s3)")
    case True
    from put_run_get [OF assms(1-8) g put assms(11) True, of 0] obtain m w
      where m: "GetMany C st3 collection [i] (at_vault s3) = (Inr m, w)"
      and x: "map_of m i = Some (it_plaintext it)
        \<or> map_of m i = None \<and> (\<exists>r \<in> set (objects (found_db (at_vault s3))). o_id r = i \<and> o_deleted r)"
      by auto
    from get x it stored_first [OF it] show ?thesis by (auto simp: m)
  next
    case False
    then obtain e w where "GetMany C st3 collection [i] (at_vault s3) = (Inl e, w)"
      using GetMany_not_fine by blast
    with get it stored_first [OF it] show ?thesis by auto
  qed
qed

theorem client_create_then_get_witness:
  "\<exists>s2 res s4. CreateObject (sample_network sample_store) sample_caller ''c'' (Some (Inr sent_text)) (site_of sample_world)
       = (Inr sample_id, s2)
     \<and> GetObject (sample_network rotated_store) sample_caller ''c'' sample_id True Some s2 = (res, s4)
     \<and> (\<exists>it. parseObject (api_server sample_allow (\<lambda>ks. ks) (store_vault sample_crypto sample_store) sample_schema sample_clients) ''c'' sent_text = Inr it
    \<and> (res = Inr (it_plaintext it)
      \<or> (\<exists>status m. res = Inl (Refused_with status m) \<and> status \<in> {401, 403, 429, 500})
      \<or> (res = Inl Object_not_found
          \<and> (\<exists>r \<in> set (objects (found_db (at_vault s2))). o_id r = sample_id \<and> o_deleted r))))"
proof -
  obtain s2 where made: "CreateObject (sample_network sample_store) sample_caller ''c'' (Some (Inr sent_text)) (site_of sample_world)
       = (Inr sample_id, s2)" using sample_created by blast
  obtain res s4 where got: "GetObject (sample_network rotated_store) sample_caller ''c'' sample_id True Some s2 = (res, s4)"
    by (metis surj_pair)
  have env: "st_env rotated_store = local_env sample_crypto (sample_key CHR ''b'') [sample_key CHR ''a'']"
    and ix: "st_index rotated_store = st_index sample_store"
    by (simp_all add: rotated_store_def sample_store_def)
  have keys: "set [sample_key CHR ''b'', sample_key CHR ''a''] = set sample_keys"
    by (simp add: sample_keys_def)
  have ok: "db_ok (reads sample_crypto sample_keys) (w_db (at_vault (site_of sample_world)))"
    by (simp add: site_of_def sample_world_def empty_db_ok)
  have rivals: "rivals_obey sample_crypto (st_index sample_store) (reads sample_crypto sample_keys) (at_vault (site_of sample_world))"
    by (simp add: site_of_def sample_rivals)
  have "proper ''c''" by code_simp
  from client_create_then_get [OF sample_valid sample_trusted ix env keys rivals ok this
      made [unfolded sample_network_def] rtranclp.rtrancl_refl got [unfolded sample_network_def]] made got
  show ?thesis by auto
qed

end
