(* ===== verification/KeyLaws.thy ===== *)
theory KeyLaws
  imports KeyServices EnvelopeBatch
begin

text \<open>
  The wrappers of key services keep the contract of the \<open>Wrapper\<close> interface, given a service that
  does what it documents; a batch of the transit engine is as good as single calls, in fewer
  round trips.
\<close>

section \<open>What the transit engine documents\<close>

text \<open>
  The engine works on base64: it takes a plaintext and a context that are base64 and gives a
  plaintext as base64. \<open>up k\<close>: the engine can be reached in state \<open>k\<close>. \<open>opens k x a p\<close>: it decrypts the
  ciphertext \<open>x\<close> in the context of the bytes \<open>a\<close> to the bytes \<open>p\<close>. Encrypting in a context that is not
  empty makes such a ciphertext, decrypting returns what it holds, and neither call to this key,
  whatever it carries, takes one away. Nothing is said about other requests or other strings.
\<close>

record 'k transit_config =
  tc_engine :: "'k engine"
  tc_transit :: transit
  tc_up :: "'k \<Rightarrow> bool"
  tc_opens :: "'k \<Rightarrow> string \<Rightarrow> bytes \<Rightarrow> bytes \<Rightarrow> bool"

definition engine_contract :: "'k transit_config \<Rightarrow> bool" where
  "engine_contract c \<longleftrightarrow>
     (\<forall>k p a. tc_up c k \<longrightarrow> a \<noteq> [] \<longrightarrow>
        (\<exists>d k'. tc_engine c (transit_url (tc_transit c) ''encrypt'') (t_token (tc_transit c))
                  (Fields [(''plaintext'', b64_encode p), (''context'', b64_encode a)]) k = (Answer d, k')
                \<and> tc_opens c k' (d_ciphertext d) a p)) \<and>
     (\<forall>k x a p. tc_up c k \<longrightarrow> tc_opens c k x a p \<longrightarrow>
        (\<exists>d k'. tc_engine c (transit_url (tc_transit c) ''decrypt'') (t_token (tc_transit c))
                  (Fields [(''ciphertext'', x), (''context'', b64_encode a)]) k = (Answer d, k')
                \<and> d_plaintext d = b64_encode p)) \<and>
     (\<forall>op b k r k'. op \<in> {''encrypt'', ''decrypt''} \<longrightarrow>
        tc_engine c (transit_url (tc_transit c) op) (t_token (tc_transit c)) b k = (r, k') \<longrightarrow>
        (tc_up c k \<longrightarrow> tc_up c k') \<and> (\<forall>x a p. tc_opens c k x a p \<longrightarrow> tc_opens c k' x a p))"

definition mk_transit :: "'k transit_config \<Rightarrow> 'k host wrapper" where
  "mk_transit c = transit_wrapper (tc_engine c) (tc_transit c)"

definition transit_usable :: "'k transit_config \<Rightarrow> 'k \<Rightarrow> bool" where
  "transit_usable c k \<longleftrightarrow> engine_contract c \<and> tc_up c k"

definition transit_holds :: "'k transit_config \<Rightarrow> 'k \<Rightarrow> bytes \<Rightarrow> bytes \<Rightarrow> bytes \<Rightarrow> bool" where
  "transit_holds c k x dek aad \<longleftrightarrow>
     engine_contract c \<and> tc_opens c k x aad dek"

lemma transit_call_service:
  "transit_call E t op b w = (r, w') \<Longrightarrow> \<exists>reply. E (transit_url t op) (t_token t) b (service w) = (reply, service w')"
  by (auto simp: transit_call_def split: prod.splits)

lemma engine_keeps:
  assumes "transit_call (tc_engine c) (tc_transit c) op b w = (r, w')" and "engine_contract c"
    and "op \<in> {''encrypt'', ''decrypt''}"
  shows "tc_up c (service w) \<Longrightarrow> tc_up c (service w')"
    and "tc_opens c (service w) x a p \<Longrightarrow> tc_opens c (service w') x a p"
  using transit_call_service [OF assms(1)] assms(2,3) unfolding engine_contract_def by blast+

lemma transit_wrap_keeps:
  assumes "transit_wrap (tc_engine c) (tc_transit c) dek aad w = (r, w')" and "engine_contract c"
  shows "tc_up c (service w) \<Longrightarrow> tc_up c (service w')"
    and "tc_opens c (service w) x a p \<Longrightarrow> tc_opens c (service w') x a p"
proof -
  obtain b r' where "transit_call (tc_engine c) (tc_transit c) ''encrypt'' b w = (r', w')"
    using assms(1) by (auto simp: transit_wrap_def split: prod.splits sum.splits)
  from engine_keeps [OF this assms(2)]
  show "tc_up c (service w) \<Longrightarrow> tc_up c (service w')"
    and "tc_opens c (service w) x a p \<Longrightarrow> tc_opens c (service w') x a p" by simp_all
qed

lemma transit_unwrap_keeps:
  assumes "transit_unwrap (tc_engine c) (tc_transit c) y aad w = (r, w')" and "engine_contract c"
  shows "tc_up c (service w) \<Longrightarrow> tc_up c (service w')"
    and "tc_opens c (service w) x a p \<Longrightarrow> tc_opens c (service w') x a p"
proof -
  obtain b r' where "transit_call (tc_engine c) (tc_transit c) ''decrypt'' b w = (r', w')"
    using assms(1) by (auto simp: transit_unwrap_def split: prod.splits sum.splits option.splits)
  from engine_keeps [OF this assms(2)]
  show "tc_up c (service w) \<Longrightarrow> tc_up c (service w')"
    and "tc_opens c (service w) x a p \<Longrightarrow> tc_opens c (service w') x a p" by simp_all
qed

lemma mk_transit_simps [simp]:
  "w_wrap (mk_transit c) = transit_wrap (tc_engine c) (tc_transit c)"
  "w_unwrap (mk_transit c) = transit_unwrap (tc_engine c) (tc_transit c)"
  "w_id (mk_transit c) = transit_ID (tc_transit c)"
  by (simp_all add: mk_transit_def transit_wrapper_def)

lemma engine_encrypts:
  "engine_contract c \<Longrightarrow> tc_up c k \<Longrightarrow> a \<noteq> [] \<Longrightarrow>
   \<exists>d k'. tc_engine c (transit_url (tc_transit c) ''encrypt'') (t_token (tc_transit c))
            (Fields [(''plaintext'', b64_encode p), (''context'', b64_encode a)]) k = (Answer d, k')
          \<and> tc_opens c k' (d_ciphertext d) a p"
  by (simp add: engine_contract_def)

lemma engine_opens:
  "engine_contract c \<Longrightarrow> tc_up c k \<Longrightarrow> tc_opens c k x a p \<Longrightarrow>
   \<exists>d k'. tc_engine c (transit_url (tc_transit c) ''decrypt'') (t_token (tc_transit c))
            (Fields [(''ciphertext'', x), (''context'', b64_encode a)]) k = (Answer d, k')
          \<and> d_plaintext d = b64_encode p"
  by (simp add: engine_contract_def)

interpretation transit_key: wrapper_contract mk_transit transit_usable "\<lambda>aad. aad \<noteq> []" transit_holds
proof (unfold_locales, goal_cases)
  case (1 c w dek aad)
  then have ec: "engine_contract c" and up: "tc_up c (service w)" by (simp_all add: transit_usable_def)
  from engine_encrypts [OF this 1(3)] obtain d k' where
    "tc_engine c (transit_url (tc_transit c) ''encrypt'') (t_token (tc_transit c))
      (Fields [(''plaintext'', b64_encode dek), (''context'', b64_encode aad)]) (service w) = (Answer d, k')"
    and "tc_opens c k' (d_ciphertext d) aad dek"
    by blast
  with ec show ?case by (auto simp: transit_wrap_def transit_call_def transit_holds_def)
next
  case (2 c dek aad w r w1)
  then show ?case using transit_wrap_keeps(1) [of c dek aad w r w1] by (simp add: transit_usable_def)
next
  case (3 c dek aad w r w1 y dek' aad')
  then show ?case using transit_wrap_keeps(2) [of c dek aad w r w1] by (simp add: transit_holds_def)
next
  case (4 c w x dek aad)
  then have ec: "engine_contract c" and up: "tc_up c (service w)"
    and o: "tc_opens c (service w) x aad dek"
    by (simp_all add: transit_usable_def transit_holds_def)
  from engine_opens [OF this] obtain d k' where
    "tc_engine c (transit_url (tc_transit c) ''decrypt'') (t_token (tc_transit c))
      (Fields [(''ciphertext'', x), (''context'', b64_encode aad)]) (service w) = (Answer d, k')"
    and "d_plaintext d = b64_encode dek"
    by blast
  then show ?case by (simp add: transit_unwrap_def transit_call_def b64_roundtrip)
next
  case (5 c x aad w r w1)
  then show ?case using transit_unwrap_keeps(1) [of c x aad w r w1] by (simp add: transit_usable_def)
next
  case (6 c x aad w r w1 y dek' aad')
  then show ?case using transit_unwrap_keeps(2) [of c x aad w r w1] by (simp add: transit_holds_def)
qed

text \<open>Moving from a local master key to the engine.\<close>

interpretation to_transit: rewrap_contract
  mk_local local_usable "\<lambda>_. True" local_holds mk_transit transit_usable "\<lambda>aad. aad \<noteq> []" transit_holds
proof (unfold_locales, goal_cases)
  case (1 c x aad w r w1 d)
  have "w1 = w" using 1(1) by (auto simp: mk_local_def local_wrapper_def local_unwrap_def split: sum.splits)
  with 1(2) show ?case by simp
qed

section \<open>Batches of the transit engine\<close>

text \<open>
  What an engine does with the ciphertexts and contexts of this program: \<open>f x a\<close> is the plaintext
  of the ciphertext \<open>x\<close> in the context \<open>a\<close>, or the errors it is refused with. Alone, a refused
  ciphertext is answered with status 400. A batch with a refused item is answered with 400 as a
  whole: Vault and OpenBao do so unless the request sets \<open>partial_failure_response_code\<close>, which the
  client does not. The state of the engine may change with every request, as its logs do.
\<close>

definition engine_decrypts :: "'k engine \<Rightarrow> transit \<Rightarrow> (string \<Rightarrow> bytes \<Rightarrow> string list + bytes) \<Rightarrow> bool" where
  "engine_decrypts E t f \<longleftrightarrow>
     (\<forall>x a k. case f x a of
        Inl errs \<Rightarrow> fst (E (transit_url t ''decrypt'') (t_token t)
            (Fields [(''ciphertext'', x), (''context'', b64_encode a)]) k) = Status 400 errs
      | Inr p \<Rightarrow> \<exists>d. fst (E (transit_url t ''decrypt'') (t_token t)
            (Fields [(''ciphertext'', x), (''context'', b64_encode a)]) k) = Answer d
          \<and> d_plaintext d = b64_encode p) \<and>
     (\<forall>reqs k. reqs \<noteq> [] \<longrightarrow>
        (if \<forall>(x, a) \<in> set reqs. is_ok (f x a)
         then \<exists>d. fst (E (transit_url t ''decrypt'') (t_token t)
               (Batch_input (map (\<lambda>(x, a). [(''ciphertext'', x), (''context'', b64_encode a)]) reqs)) k) = Answer d
             \<and> d_results d = map (\<lambda>(x, a). (case f x a of Inl _ \<Rightarrow> [] | Inr p \<Rightarrow> b64_encode p, [])) reqs
         else \<exists>errs. fst (E (transit_url t ''decrypt'') (t_token t)
               (Batch_input (map (\<lambda>(x, a). [(''ciphertext'', x), (''context'', b64_encode a)]) reqs)) k) = Status 400 errs))"

definition decrypted :: "(string \<Rightarrow> bytes \<Rightarrow> string list + bytes) \<Rightarrow> bytes \<Rightarrow> bytes \<Rightarrow> bytes result" where
  "decrypted f x a =
     (case f x a of
        Inl errs \<Rightarrow> Inl (ErrWrap (transit_error ''decrypt'' (join ''; '' errs)) ErrOpen) | Inr p \<Rightarrow> Inr p)"

lemma decrypted_ok [simp]: "is_ok (decrypted f x a) \<longleftrightarrow> is_ok (f x a)"
  by (simp add: decrypted_def is_ok_def split: sum.splits)

lemma transit_call_fst:
  "fst (transit_call E t op b w) =
     (case fst (E (transit_url t op) (t_token t) b (service w)) of
        Bad_request msg \<Rightarrow> Inl (ErrMsg msg)
      | No_answer msg \<Rightarrow> Inl (ErrWrap (transit_error op msg) (ErrMsg msg))
      | Status code errs \<Rightarrow>
          if code = 400 then Inl (ErrWrap (transit_error op (join ''; '' errs)) ErrOpen)
          else Inl (ErrMsg (transit_error op (''HTTP '' @ decimal code @ '': '' @ join ''; '' errs)))
      | Bad_json msg \<Rightarrow> Inl (ErrMsg msg)
      | Answer d \<Rightarrow> Inr d)"
  by (simp add: transit_call_def split: prod.splits)

lemma transit_unwrap_decrypts:
  assumes "engine_decrypts E t f"
  shows "fst (transit_unwrap E t x a w) = decrypted f x a"
proof -
  let ?q = "Fields [(''ciphertext'', x), (''context'', b64_encode a)]"
  obtain r w1 where c: "transit_call E t ''decrypt'' ?q w = (r, w1)" by (metis surj_pair)
  with transit_call_fst [of E t "''decrypt''" ?q w]
  have r: "r = (case fst (E (transit_url t ''decrypt'') (t_token t) ?q (service w)) of
        Bad_request msg \<Rightarrow> Inl (ErrMsg msg)
      | No_answer msg \<Rightarrow> Inl (ErrWrap (transit_error ''decrypt'' msg) (ErrMsg msg))
      | Status code errs \<Rightarrow>
          if code = 400 then Inl (ErrWrap (transit_error ''decrypt'' (join ''; '' errs)) ErrOpen)
          else Inl (ErrMsg (transit_error ''decrypt'' (''HTTP '' @ decimal code @ '': '' @ join ''; '' errs)))
      | Bad_json msg \<Rightarrow> Inl (ErrMsg msg)
      | Answer d \<Rightarrow> Inr d)"
    by simp
  note E = conjunct1 [OF assms [unfolded engine_decrypts_def], THEN spec, THEN spec, THEN spec, of x a "service w"]
  show ?thesis
  proof (cases "f x a")
    case (Inl errs)
    with E r c show ?thesis by (simp add: transit_unwrap_def decrypted_def)
  next
    case (Inr p)
    with E obtain d where "fst (E (transit_url t ''decrypt'') (t_token t) ?q (service w)) = Answer d"
      and "d_plaintext d = b64_encode p"
      by auto
    with r c Inr show ?thesis by (simp add: transit_unwrap_def decrypted_def b64_roundtrip)
  qed
qed

lemma batch_items: "map batch_item reqs = map (\<lambda>(x, a). [(''ciphertext'', x), (''context'', b64_encode a)]) reqs"
  by (auto simp: batch_item_def)

lemma transit_batch_decrypts:
  assumes "engine_decrypts E t f" and "reqs \<noteq> []"
  shows "if \<forall>(x, a) \<in> set reqs. is_ok (f x a)
    then \<exists>d. fst (transit_call E t ''decrypt'' (Batch_input (map batch_item reqs)) w) = Inr d
        \<and> length (d_results d) = length reqs \<and> map batch_result (d_results d) = map (\<lambda>(x, a). decrypted f x a) reqs
    else \<exists>e. fst (transit_call E t ''decrypt'' (Batch_input (map batch_item reqs)) w) = Inl e \<and> errors_is e ErrOpen"
proof -
  let ?r = "fst (E (transit_url t ''decrypt'') (t_token t) (Batch_input (map batch_item reqs)) (service w))"
  have E: "if \<forall>(x, a) \<in> set reqs. is_ok (f x a)
      then \<exists>d. ?r = Answer d \<and> d_results d = map (\<lambda>(x, a). (case f x a of Inl _ \<Rightarrow> [] | Inr p \<Rightarrow> b64_encode p, [])) reqs
      else \<exists>errs. ?r = Status 400 errs"
    using assms unfolding engine_decrypts_def batch_items by blast
  show ?thesis
  proof (cases "\<forall>(x, a) \<in> set reqs. is_ok (f x a)")
    case True
    obtain d where d: "?r = Answer d"
      "d_results d = map (\<lambda>(x, a). (case f x a of Inl _ \<Rightarrow> [] | Inr p \<Rightarrow> b64_encode p, [])) reqs"
      using E [unfolded if_P [OF True]] by blast
    have "map batch_result (d_results d) = map (\<lambda>(x, a). decrypted f x a) reqs"
      unfolding d(2) using True
      by (auto simp: batch_result_def decrypted_def b64_roundtrip is_ok_def split: sum.splits)
    with d show ?thesis unfolding if_P [OF True] by (simp add: transit_call_fst)
  next
    case False
    obtain errs where "?r = Status 400 errs" using E [unfolded if_not_P [OF False]] by blast
    then show ?thesis unfolding if_not_P [OF False] by (simp add: transit_call_fst)
  qed
qed

lemma unwrap_many_decrypts:
  assumes "engine_decrypts E t f"
  shows "if \<forall>(x, a) \<in> set reqs. is_ok (f x a)
    then fst (transit_unwrap_many E t reqs w) = Inr (map (\<lambda>(x, a). decrypted f x a) reqs)
    else \<exists>e. fst (transit_unwrap_many E t reqs w) = Inl e \<and> errors_is e ErrOpen"
proof (induction reqs arbitrary: w rule: length_induct)
  case (1 reqs)
  show ?case
  proof (cases "reqs = []")
    case True
    then show ?thesis by (simp add: transit_unwrap_many.simps)
  next
    case False
    let ?now = "take batchSize reqs" and ?later = "drop batchSize reqs"
    from False have now: "?now \<noteq> []" and shorter: "length ?later < length reqs" by (simp_all add: batchSize_def)
    obtain r w1 where c: "transit_call E t ''decrypt'' (Batch_input (map batch_item ?now)) w = (r, w1)"
      by (metis surj_pair)
    note one = transit_batch_decrypts [OF assms now, of w, unfolded c fst_conv]
    have split: "(\<forall>(x, a) \<in> set reqs. is_ok (f x a))
        \<longleftrightarrow> (\<forall>(x, a) \<in> set ?now. is_ok (f x a)) \<and> (\<forall>(x, a) \<in> set ?later. is_ok (f x a))"
      by (metis (no_types, lifting) Un_iff append_take_drop_id set_append)
    show ?thesis
    proof (cases "\<forall>(x, a) \<in> set ?now. is_ok (f x a)")
      case False
      obtain e where "r = Inl e" "errors_is e ErrOpen" using one [unfolded if_not_P [OF False]] by blast
      with c \<open>reqs \<noteq> []\<close> have "\<exists>e. fst (transit_unwrap_many E t reqs w) = Inl e \<and> errors_is e ErrOpen"
        by (subst transit_unwrap_many.simps) (simp add: Let_def)
      with False split show ?thesis by (simp only: simp_thms if_False)
    next
      case True
      obtain d where d: "r = Inr d" "length (d_results d) = length ?now"
        "map batch_result (d_results d) = map (\<lambda>(x, a). decrypted f x a) ?now"
        using one [unfolded if_P [OF True]] by blast
      obtain r2 w2 where c2: "transit_unwrap_many E t ?later w1 = (r2, w2)" by (metis surj_pair)
      have rest: "if \<forall>(x, a) \<in> set ?later. is_ok (f x a) then r2 = Inr (map (\<lambda>(x, a). decrypted f x a) ?later)
          else \<exists>e. r2 = Inl e \<and> errors_is e ErrOpen"
        using 1(1) [rule_format, OF shorter, of w1] by (simp only: c2 fst_conv)
      have run: "fst (transit_unwrap_many E t reqs w)
          = (case r2 of Inl e \<Rightarrow> Inl e | Inr out \<Rightarrow> Inr (map (\<lambda>(x, a). decrypted f x a) ?now @ out))"
        using c c2 d \<open>reqs \<noteq> []\<close> by (subst transit_unwrap_many.simps) (simp add: Let_def split: sum.splits)
      show ?thesis
      proof (cases "\<forall>(x, a) \<in> set ?later. is_ok (f x a)")
        case True
        with rest have "r2 = Inr (map (\<lambda>(x, a). decrypted f x a) ?later)" by (simp only: if_True)
        then have "fst (transit_unwrap_many E t reqs w) = Inr (map (\<lambda>(x, a). decrypted f x a) reqs)"
          unfolding run by (simp add: flip: map_append)
        moreover have all: "\<forall>(x, a) \<in> set reqs. is_ok (f x a)"
          unfolding split using \<open>\<forall>(x, a) \<in> set ?now. is_ok (f x a)\<close> True by (rule conjI)
        ultimately show ?thesis unfolding if_P [OF all] by simp
      next
        case False
        obtain e where "r2 = Inl e" "errors_is e ErrOpen" using rest [unfolded if_not_P [OF False]] by blast
        then have "\<exists>e. fst (transit_unwrap_many E t reqs w) = Inl e \<and> errors_is e ErrOpen" unfolding run by simp
        with False split show ?thesis by (simp only: simp_thms if_False)
      qed
    qed
  qed
qed

text \<open>What a batch or a single call to such an engine gives is the same in every state of the world.\<close>

lemma transit_answers:
  assumes "engine_decrypts E t f"
  shows "moving.answers (decrypted f) (transit_wrapper E t)"
  using transit_unwrap_decrypts [OF assms] unwrap_many_decrypts [OF assms]
  by (auto simp: moving.answers_def transit_wrapper_def) (auto simp: decrypted_def split: sum.splits)

section \<open>AWS KMS\<close>

record 'k kms_config =
  kc_client :: "'k kms_client"
  kc_key :: string
  kc_up :: "'k \<Rightarrow> bool"
  kc_opens :: "'k \<Rightarrow> bytes \<Rightarrow> string gomap \<Rightarrow> bytes \<Rightarrow> bool"

definition kms_contract :: "'k kms_config \<Rightarrow> bool" where
  "kms_contract c \<longleftrightarrow>
     (\<forall>k p ctx. kc_up c k \<longrightarrow>
        (\<exists>b k'. kms_encrypt (kc_client c) (kc_key c) p ctx k = (Kms_blob b, k') \<and> kc_opens c k' b ctx p)) \<and>
     (\<forall>k x ctx p. kc_up c k \<longrightarrow> kc_opens c k x ctx p \<longrightarrow>
        (\<exists>k'. kms_decrypt (kc_client c) (kc_key c) x ctx k = (Kms_blob p, k'))) \<and>
     (\<forall>x ctx k r k'. (kms_encrypt (kc_client c) (kc_key c) x ctx k = (r, k')
                      \<or> kms_decrypt (kc_client c) (kc_key c) x ctx k = (r, k')) \<longrightarrow>
        (kc_up c k \<longrightarrow> kc_up c k') \<and> (\<forall>y a p. kc_opens c k y a p \<longrightarrow> kc_opens c k' y a p))"

definition mk_kms :: "'k kms_config \<Rightarrow> 'k host wrapper" where
  "mk_kms c = kms_wrapper (kc_client c) (kc_key c)"

definition kms_usable :: "'k kms_config \<Rightarrow> 'k \<Rightarrow> bool" where
  "kms_usable c k \<longleftrightarrow> kms_contract c \<and> kc_up c k"

definition kms_holds :: "'k kms_config \<Rightarrow> 'k \<Rightarrow> bytes \<Rightarrow> bytes \<Rightarrow> bytes \<Rightarrow> bool" where
  "kms_holds c k x dek aad \<longleftrightarrow> kms_contract c \<and> kc_opens c k x (encryptionContext aad) dek"

lemma kms_wrap_service:
  "kms_wrap cl key dek aad w = (r, w') \<Longrightarrow> \<exists>s. kms_encrypt cl key dek (encryptionContext aad) (service w) = (s, service w')"
  by (auto simp: kms_wrap_def split: prod.splits)

lemma kms_unwrap_service:
  "kms_unwrap cl key x aad w = (r, w') \<Longrightarrow> \<exists>s. kms_decrypt cl key x (encryptionContext aad) (service w) = (s, service w')"
  by (auto simp: kms_unwrap_def split: prod.splits)

lemma kms_encrypt_keeps:
  assumes "kms_encrypt (kc_client c) (kc_key c) x ctx k = (r, k')" and "kms_contract c"
  shows "kc_up c k \<Longrightarrow> kc_up c k'" and "kc_opens c k y a p \<Longrightarrow> kc_opens c k' y a p"
  using assms unfolding kms_contract_def by blast+

lemma kms_decrypt_keeps:
  assumes "kms_decrypt (kc_client c) (kc_key c) x ctx k = (r, k')" and "kms_contract c"
  shows "kc_up c k \<Longrightarrow> kc_up c k'" and "kc_opens c k y a p \<Longrightarrow> kc_opens c k' y a p"
  using assms unfolding kms_contract_def by blast+

lemma kms_contract_decrypt:
  "kms_contract c \<Longrightarrow> kc_up c k \<Longrightarrow> kc_opens c k x ctx p \<Longrightarrow>
   \<exists>k'. kms_decrypt (kc_client c) (kc_key c) x ctx k = (Kms_blob p, k')"
  by (simp add: kms_contract_def)

interpretation kms_key: wrapper_contract mk_kms kms_usable "\<lambda>_. True" kms_holds
proof (unfold_locales, goal_cases)
  case (1 c w dek aad)
  then have kc: "kms_contract c" and up: "kc_up c (service w)" by (simp_all add: kms_usable_def)
  then obtain b k' where "kms_encrypt (kc_client c) (kc_key c) dek (encryptionContext aad) (service w) = (Kms_blob b, k')"
    and "kc_opens c k' b (encryptionContext aad) dek"
    unfolding kms_contract_def by blast
  with kc show ?case by (auto simp: mk_kms_def kms_wrapper_def kms_wrap_def kms_holds_def)
next
  case (2 c dek aad w r w1)
  then obtain s where s: "kms_encrypt (kc_client c) (kc_key c) dek (encryptionContext aad) (service w) = (s, service w1)"
    using kms_wrap_service by (fastforce simp: mk_kms_def kms_wrapper_def)
  from kms_encrypt_keeps [OF s] 2(2) show ?case by (auto simp: kms_usable_def)
next
  case (3 c dek aad w r w1 y dek' aad')
  then obtain s where s: "kms_encrypt (kc_client c) (kc_key c) dek (encryptionContext aad) (service w) = (s, service w1)"
    using kms_wrap_service by (fastforce simp: mk_kms_def kms_wrapper_def)
  from kms_encrypt_keeps [OF s] 3(2) show ?case by (auto simp: kms_holds_def)
next
  case (4 c w x dek aad)
  then obtain k' where "kms_decrypt (kc_client c) (kc_key c) x (encryptionContext aad) (service w) = (Kms_blob dek, k')"
    using kms_contract_decrypt by (fastforce simp: kms_usable_def kms_holds_def)
  then show ?case by (simp add: mk_kms_def kms_wrapper_def kms_unwrap_def)
next
  case (5 c x aad w r w1)
  then obtain s where s: "kms_decrypt (kc_client c) (kc_key c) x (encryptionContext aad) (service w) = (s, service w1)"
    using kms_unwrap_service by (fastforce simp: mk_kms_def kms_wrapper_def)
  from kms_decrypt_keeps [OF s] 5(2) show ?case by (auto simp: kms_usable_def)
next
  case (6 c x aad w r w1 y dek' aad')
  then obtain s where s: "kms_decrypt (kc_client c) (kc_key c) x (encryptionContext aad) (service w) = (s, service w1)"
    using kms_unwrap_service by (fastforce simp: mk_kms_def kms_wrapper_def)
  from kms_decrypt_keeps [OF s] 6(2) show ?case by (auto simp: kms_holds_def)
qed

text \<open>The same for a KMS that decrypts a blob to \<open>f x ctx\<close> or calls it invalid.\<close>

definition kms_decrypts :: "'k kms_client \<Rightarrow> string \<Rightarrow> (bytes \<Rightarrow> string gomap \<Rightarrow> bytes option) \<Rightarrow> bool" where
  "kms_decrypts cl key f \<longleftrightarrow>
     (\<forall>x ctx k. fst (kms_decrypt cl key x ctx k) =
        (case f x ctx of None \<Rightarrow> Kms_invalid_ciphertext | Some p \<Rightarrow> Kms_blob p))"

lemma kms_answers:
  assumes "kms_decrypts cl key f"
  shows "moving.answers (\<lambda>x a. case f x (encryptionContext a) of None \<Rightarrow> Inl ErrOpen | Some p \<Rightarrow> Inr p) (kms_wrapper cl key)"
proof -
  have "fst (kms_unwrap cl key x a w) = (case f x (encryptionContext a) of None \<Rightarrow> Inl ErrOpen | Some p \<Rightarrow> Inr p)"
    for x a and w :: "'a host"
  proof -
    have "fst (kms_decrypt cl key x (encryptionContext a) (service w))
        = (case f x (encryptionContext a) of None \<Rightarrow> Kms_invalid_ciphertext | Some p \<Rightarrow> Kms_blob p)"
      using assms by (simp add: kms_decrypts_def)
    then show ?thesis by (auto simp: kms_unwrap_def split: prod.splits option.splits)
  qed
  then show ?thesis
    by (auto simp: moving.answers_def kms_wrapper_def split: option.splits)
qed

lemma local_answers:
  "moving.answers (\<lambda>x a. case open_blob C k x a of Inl _ \<Rightarrow> Inl ErrOpen | Inr dek \<Rightarrow> Inr dek) (local_wrapper C k)"
  by (auto simp: moving.answers_def local_wrapper_def local_unwrap_fst split: sum.splits)

end
