(* ===== verification/EnvelopeTheorems.thy ===== *)
theory EnvelopeTheorems
  imports Samples KeyLaws
begin

text \<open>
  What envelope encryption promises, for local master keys, for the transit engine and for moving
  from the one to the other.
\<close>

section \<open>Local master keys\<close>

text \<open>
  C11: What is sealed under the current master key opens again, to the same plaintext, on any
  server whose keyring still holds that key, whether it is the current key there or a previous
  one, and with any other previous keys loaded.
\<close>

theorem Seal_then_Open:
  assumes "valid_keys C keys" and "set (k # ks) \<subseteq> set keys" and "set (k' # ks') \<subseteq> set keys"
    and "k \<in> set (k' # ks')" and "Seal C (local_env C k ks) p a h = (Inr s, h1)"
  shows "Open C (local_env C k' ks') s a h2 = (Inr p, h2)"
proof -
  have k: "k \<in> set keys" using assms(2) by simp
  have r: "reads C keys s a p" by (rule local_Seal_reads [OF assms(1) k assms(5)])
  have "s_key_id s = KeyID C k"
    using assms(5) by (auto simp: Seal_def split: prod.splits sum.splits)
  with assms(4) have "s_key_id s \<in> KeyID C ` set (k' # ks')" by auto
  from local_Open_reads [OF assms(1,3) r this] show ?thesis .
qed

theorem Seal_then_Open_witness:
  "Open sample_crypto (local_env sample_crypto (sample_key CHR ''b'') [sample_key CHR ''a''])
     (case fst (Seal sample_crypto (local_env sample_crypto (sample_key CHR ''a'') []) ''p'' ''row'' sample_host)
        of Inr s \<Rightarrow> s) ''row'' sample_host = (Inr ''p'', sample_host)"
proof -
  have "is_ok (fst (Seal sample_crypto (local_env sample_crypto (sample_key CHR ''a'') []) ''p'' ''row'' sample_host))"
    by code_simp
  then obtain s h1 where s: "Seal sample_crypto (local_env sample_crypto (sample_key CHR ''a'') []) ''p'' ''row'' sample_host
      = (Inr s, h1)"
    by (metis is_okE prod.collapse)
  have "Open sample_crypto (local_env sample_crypto (sample_key CHR ''b'') [sample_key CHR ''a'']) s ''row'' sample_host
      = (Inr ''p'', sample_host)"
    by (rule Seal_then_Open [OF sample_valid _ _ _ s]) (simp_all add: sample_keys_def)
  with s show ?thesis by simp
qed

lemma Seal_parts:
  fixes h :: "'k host"
  assumes "Seal C (local_env C k ks) p a h = (Inr s, h1)"
  shows "\<exists>dek (ha :: 'k host) (hb :: 'k host) (hc :: 'k host). length dek = KeySize \<and> s_key_id s = KeyID C k
     \<and> seal_blob C k dek a ha = (s_wrapped s, hb) \<and> seal_blob C dek p a hb = (s_ciphertext s, hc)"
proof -
  obtain dek ha where r: "rand_read KeySize h = (dek, ha)" by (cases "rand_read KeySize h")
  obtain x hb where w: "seal_blob C k dek a ha = (x, hb)" by (cases "seal_blob C k dek a ha")
  obtain ct hc where c: "seal_blob C dek p a hb = (ct, hc)" by (cases "seal_blob C dek p a hb")
  have "s = \<lparr>s_key_id = KeyID C k, s_wrapped = x, s_ciphertext = ct\<rparr>"
    using assms r w c by (simp add: Seal_def local_wrap_def)
  with w c rand_read_length [OF r] show ?thesis by auto
qed

lemma Open_parts:
  assumes "Open C (local_env C k ks) t a h = (Inr p, h1)"
  shows "\<exists>key dek. open_blob C key (s_wrapped t) a = Inr dek \<and> open_blob C dek (s_ciphertext t) a = Inr p"
proof -
  from assms obtain key dek where
    "open_blob C key (s_wrapped t) a = Inr dek" and o: "openWithDEK C dek (s_ciphertext t) a = Inr p"
    by (auto simp: Open_def unwrap_dek_def local_env_lookup local_unwrap_def
        split: prod.splits sum.splits option.splits if_splits)
  moreover from o have "open_blob C dek (s_ciphertext t) a = Inr p"
    by (auto simp: openWithDEK_def split: sum.splits if_splits)
  ultimately show ?thesis by blast
qed

text \<open>
  C12: A sealed value is bound to its row, each half of it for itself. Under primitives that
  authenticate their associated data, whatever opens with the ciphertext of a sealed value, under
  any keyring and whatever wrapped key stands beside it, opens for the row it was sealed for and to
  the plaintext that was sealed; and whatever opens with its wrapped key, whatever ciphertext stands
  beside it, opens for that row. So a value moved to another row never opens there, and neither does
  a wrapped key of one row grafted onto the ciphertext of another, for either row.
\<close>

theorem bound_to_its_row:
  fixes h :: "'k host"
  assumes "aead_correct C" and "aead_binding C" and "length k = KeySize"
    and "Seal C (local_env C k ks) p a h = (Inr s, h1)"
    and "Open C (local_env C k' ks') t a' h2 = (Inr p', h3)"
  shows "(s_ciphertext t = s_ciphertext s \<longrightarrow> a' = a \<and> p' = p) \<and> (s_wrapped t = s_wrapped s \<longrightarrow> a' = a)"
proof -
  obtain dek and ha hb hc :: "'k host" where len: "length dek = KeySize" and w: "seal_blob C k dek a ha = (s_wrapped s, hb)"
    and c: "seal_blob C dek p a hb = (s_ciphertext s, hc)"
    using Seal_parts [OF assms(4)] by blast
  obtain key dek' where o: "open_blob C key (s_wrapped t) a' = Inr dek'" "open_blob C dek' (s_ciphertext t) a' = Inr p'"
    using Open_parts [OF assms(5)] by blast
  from open_blob_binding [OF assms(1,2) len c, of dek' a' p'] open_blob_binding [OF assms(1,2,3) w, of key a' dek'] o
  show ?thesis by auto
qed

theorem bound_to_its_row_witness:
  "\<exists>s1 s2 h1 h2. Seal sample_crypto (local_env sample_crypto (sample_key CHR ''a'') []) ''p'' ''row'' sample_host = (Inr s1, h1)
     \<and> Seal sample_crypto (local_env sample_crypto (sample_key CHR ''a'') []) ''q'' ''raw'' h1 = (Inr s2, h2)
     \<and> Open sample_crypto (local_env sample_crypto (sample_key CHR ''a'') []) s1 ''row'' h2 = (Inr ''p'', h2)
     \<and> (\<forall>a p h3. Open sample_crypto (local_env sample_crypto (sample_key CHR ''a'') [])
          (s2\<lparr>s_wrapped := s_wrapped s1\<rparr>) a h2 \<noteq> (Inr p, h3))"
proof -
  let ?e = "local_env sample_crypto (sample_key CHR ''a'') []"
  obtain s1 h1 where s1: "Seal sample_crypto ?e ''p'' ''row'' (sample_host :: unit host) = (Inr s1, h1)"
    using local_Seal_ok by blast
  obtain s2 h2 where s2: "Seal sample_crypto ?e ''q'' ''raw'' h1 = (Inr s2, h2)" using local_Seal_ok by blast
  have len: "length (sample_key CHR ''a'') = KeySize" by (simp add: sample_key_def KeySize_def)
  note bound = bound_to_its_row [OF sample_correct sample_binding len]
  have "Open sample_crypto ?e (s2\<lparr>s_wrapped := s_wrapped s1\<rparr>) a h2 \<noteq> (Inr p, h3)" for a p and h3 :: "unit host"
  proof
    assume o: "Open sample_crypto ?e (s2\<lparr>s_wrapped := s_wrapped s1\<rparr>) a h2 = (Inr p, h3)"
    from bound [OF s1 o] have "a = ''row''" by simp
    moreover from bound [OF s2 o] have "a = ''raw''" by simp
    ultimately show False by simp
  qed
  moreover have "Open sample_crypto ?e s1 ''row'' h2 = (Inr ''p'', h2)"
  proof -
    have "reads sample_crypto sample_keys s1 ''row'' ''p''"
      by (rule local_Seal_reads [OF sample_valid _ s1]) (simp add: sample_keys_def)
    moreover have "s_key_id s1 = KeyID sample_crypto (sample_key CHR ''a'')"
      using s1 by (auto simp: Seal_def split: prod.splits sum.splits)
    ultimately show ?thesis by (intro local_Open_reads [OF sample_valid]) (simp_all add: sample_keys_def)
  qed
  ultimately show ?thesis using s1 s2 by blast
qed

text \<open>
  A shredded row opens under no local master key, not even one that will be loaded later: a
  row without its wrapped key is rejected whatever its ciphertext and whatever the keyring.
\<close>

theorem shredded_never_opens:
  fixes h :: "'k host"
  shows "fst (Open C (local_env C k ks) (sealed_of (shred r)) a h) \<in> {Inl ErrOpen, Inl ErrUnknownKey}"
proof -
  have nil: "s_wrapped (sealed_of (shred r)) = []" by (simp add: sealed_of_def nil_if_null_def)
  show ?thesis
  proof (cases "map_of (env_all (local_env C k ks :: 'k host envelope)) (s_key_id (sealed_of (shred r)))")
    case None
    then show ?thesis by (simp add: Open_unknown)
  next
    case (Some wr)
    then obtain key where "wr = local_wrapper C key" by (auto simp: local_env_lookup)
    with Some local_unwrap_dek [of C k ks "sealed_of (shred r)" key a h] nil show ?thesis
      by (simp add: Open_def)
  qed
qed

text \<open>
  C13: Re-wrapping changes who can read, never what is read. Rewrap by a server with a new current
  master key produces, when it reports a change, a value with the new key id and the old
  ciphertext, which opens to the same plaintext on a server that holds only the new key: the old
  master key can be retired.
\<close>

theorem Rewrap_keeps_plaintext:
  fixes h2 :: "'k host"
  assumes "valid_keys C keys" and "set (k # ks) \<subseteq> set keys" and "reads C keys s a p"
    and "Rewrap (local_env C k ks) s a h = (Inr (s', True), h1)"
  shows "s_key_id s' = KeyID C k \<and> s_ciphertext s' = s_ciphertext s
    \<and> Open C (local_env C k []) s' a h2 = (Inr p, h2)"
proof -
  have same: "s\<lparr>s_ciphertext := s_ciphertext s\<rparr> = s" by simp
  have id: "s_key_id s' = KeyID C k" and ct: "s_ciphertext s' = s_ciphertext s"
    using assms(4) by (auto simp: Rewrap_def split: prod.splits sum.splits if_splits)
  have "reads C keys (s'\<lparr>s_ciphertext := s_ciphertext s\<rparr>) a p"
    by (rule local_Rewrap_reads [OF assms(1,2) _ assms(3), of "s_ciphertext s"]) (use assms(4) in simp)
  then have r: "reads C keys s' a p" using ct by (metis sealed.surjective sealed.update_convs(3))
  have "set [k] \<subseteq> set keys" and "s_key_id s' \<in> KeyID C ` set [k]" using assms(2) id by simp_all
  from local_Open_reads [OF assms(1) this(1) r this(2)] id ct show ?thesis by simp
qed

definition sample_sealed :: sealed where
  "sample_sealed =
     (case fst (Seal sample_crypto (local_env sample_crypto (sample_key CHR ''a'') []) ''p'' ''row'' sample_host)
        of Inr s \<Rightarrow> s)"

lemma sample_sealed_reads: "reads sample_crypto sample_keys sample_sealed ''row'' ''p''"
proof -
  have "is_ok (fst (Seal sample_crypto (local_env sample_crypto (sample_key CHR ''a'') []) ''p'' ''row'' sample_host))"
    by code_simp
  then obtain s h1 where s: "Seal sample_crypto (local_env sample_crypto (sample_key CHR ''a'') []) ''p'' ''row'' sample_host
      = (Inr s, h1)"
    by (metis is_okE prod.collapse)
  have "reads sample_crypto sample_keys s ''row'' ''p''"
    by (rule local_Seal_reads [OF sample_valid _ s]) (simp add: sample_keys_def)
  with s show ?thesis by (simp add: sample_sealed_def)
qed

theorem Rewrap_keeps_plaintext_witness:
  "\<exists>s'. s_key_id s' \<noteq> s_key_id sample_sealed \<and> s_ciphertext s' = s_ciphertext sample_sealed
     \<and> Open sample_crypto (local_env sample_crypto (sample_key CHR ''b'') []) s' ''row'' sample_host = (Inr ''p'', sample_host)"
proof -
  let ?e = "local_env sample_crypto (sample_key CHR ''b'') [sample_key CHR ''a'']"
  have "case fst (Rewrap ?e sample_sealed ''row'' sample_host) of Inl e \<Rightarrow> False | Inr (s, changed) \<Rightarrow> changed"
    by code_simp
  then obtain s' h1 where rw: "Rewrap ?e sample_sealed ''row'' sample_host = (Inr (s', True), h1)"
    by (cases "Rewrap ?e sample_sealed ''row'' sample_host") (auto split: sum.splits prod.splits)
  have ne: "KeyID sample_crypto (sample_key CHR ''b'') \<noteq> s_key_id sample_sealed" by code_simp
  have sub: "set (sample_key CHR ''b'' # [sample_key CHR ''a'']) \<subseteq> set sample_keys"
    by (simp add: sample_keys_def)
  from Rewrap_keeps_plaintext [OF sample_valid sub sample_sealed_reads rw, of sample_host] ne
  show ?thesis by metis
qed

section \<open>The transit engine\<close>

text \<open>
  C14: With a transit engine that keeps its documented contract, what is sealed for a row opens
  again for it, to the same plaintext, whatever previous keys are loaded beside. The contract is only
  about requests whose plaintext and context are base64 and about answers whose plaintext is: the
  data key goes to the engine and comes back as base64, in a context made from the row.
\<close>

theorem transit_Seal_then_Open:
  assumes "env_current e = mk_transit c" and "map_of (env_all e) (transit_ID (tc_transit c)) = Some (mk_transit c)"
    and "engine_contract c" and "tc_up c (service w)" and "aead_correct C" and "a \<noteq> []"
  shows "\<exists>s w1 w2. Seal C e p a w = (Inr s, w1) \<and> Open C e s a w1 = (Inr p, w2)
           \<and> s_key_id s = ''transit:'' @ t_mount (tc_transit c) @ ''/'' @ t_key (tc_transit c)"
proof -
  have l: "transit_key.loaded e c" using assms(2) by (simp add: transit_key.loaded_def)
  have u: "transit_usable c (service w)" using assms(3,4) by (simp add: transit_usable_def)
  from transit_key.seal_then_open [where aad = a, OF assms(1) l u assms(5,6)] obtain s w1 w2 where
    s: "Seal C e p a w = (Inr s, w1)" "Open C e s a w1 = (Inr p, w2)" by blast
  from s(1) have "s_key_id s = transit_ID (tc_transit c)"
    by (auto simp: Seal_def assms(1) split: prod.splits sum.splits)
  with s show ?thesis by (auto simp: transit_ID_def)
qed

text \<open>An engine for the witnesses: the ciphertext holds its plaintext and context.\<close>

fun unframed :: "bytes \<Rightarrow> bytes" where
  "unframed (x # c # cs) = (if x = CHR ''x'' then c # unframed cs else [])"
| "unframed _ = []"

lemma unframed_framed: "unframed (framed p @ a) = p"
  by (induction p) (cases a; simp)+

definition sample_engine :: "unit engine" where
  "sample_engine url token body k =
     ((case body of
         Fields fs \<Rightarrow>
           (case map_of fs ''plaintext'' of
              Some p \<Rightarrow> Answer \<lparr>d_ciphertext = framed p @ (case map_of fs ''context'' of Some a \<Rightarrow> a),
                               d_plaintext = [], d_results = []\<rparr>
            | None \<Rightarrow> Answer \<lparr>d_ciphertext = [],
                 d_plaintext = (case map_of fs ''ciphertext'' of Some x \<Rightarrow> unframed x),
                 d_results = []\<rparr>)
       | Batch_input _ \<Rightarrow> Status 500 []), k)"

definition sample_transit :: "unit transit_config" where
  "sample_transit =
     \<lparr>tc_engine = sample_engine, tc_transit = NewTransit ''http://vault/'' ''/transit/'' ''sealbox'' ''t'',
      tc_up = (\<lambda>_. True), tc_opens = (\<lambda>_ x a p. x = framed (b64_encode p) @ b64_encode a)\<rparr>"

lemma sample_engine_contract: "engine_contract sample_transit"
  by (auto simp: engine_contract_def sample_transit_def sample_engine_def unframed_framed)

theorem transit_Seal_then_Open_witness:
  "\<exists>s w1 w2. Seal sample_crypto (new_envelope (mk_transit sample_transit) []) ''p'' ''row'' sample_host = (Inr s, w1)
     \<and> Open sample_crypto (new_envelope (mk_transit sample_transit) []) s ''row'' w1 = (Inr ''p'', w2)
     \<and> s_key_id s = ''transit:transit/sealbox''"
proof -
  have "t_mount (tc_transit sample_transit) = ''transit''" "t_key (tc_transit sample_transit) = ''sealbox''"
    by (simp_all add: sample_transit_def) code_simp+
  with transit_Seal_then_Open [where e = "new_envelope (mk_transit sample_transit) []" and c = sample_transit
      and w = sample_host and C = sample_crypto and p = "''p''" and a = "''row''"] sample_engine_contract sample_correct
  show ?thesis by (simp add: new_envelope_def sample_transit_def)
qed

text \<open>
  Moving from a local master key to the transit engine loses nothing. Re-wrapping a value
  readable under a previous local key, by a server whose current wrapper is the engine, succeeds,
  reports a change, keeps the ciphertext, names the engine as its key, and what it yields is
  readable through the engine as the same plaintext.
\<close>

theorem migrate_to_transit:
  assumes "env_current e = mk_transit c" and "map_of (env_all e) (transit_ID (tc_transit c)) = Some (mk_transit c)"
    and "engine_contract c" and "tc_up c (service w)" and "aead_correct C" and "length k = KeySize"
    and "map_of (env_all e) (KeyID C k) = Some (local_wrapper C k)" and "KeyID C k \<noteq> transit_ID (tc_transit c)"
    and "reads C [k] s a p" and "a \<noteq> []"
  shows "\<exists>s' w1 w2. Rewrap e s a w = (Inr (s', True), w1) \<and> s_ciphertext s' = s_ciphertext s
           \<and> s_key_id s' = transit_ID (tc_transit c) \<and> Open C e s' a w1 = (Inr p, w2)"
proof -
  have old: "local_key.loaded e (C, k)" using assms(7) by (simp add: local_key.loaded_def mk_local_def)
  have new: "transit_key.loaded e c" using assms(2) by (simp add: transit_key.loaded_def)
  have u: "transit_usable c (service w)" using assms(3,4) by (simp add: transit_usable_def)
  have lu: "local_usable (C, k) (service w)" using assms(5,6) by (simp add: local_usable_def)
  have ne: "w_id (mk_local (C, k)) \<noteq> w_id (mk_transit c)" using assms(8) by (simp add: mk_local_def)
  have o: "local_key.opens_to C (C, k) (service w) s a p"
    using assms(9) by (auto simp: local_key.opens_to_def reads_def mk_local_def local_holds_def
        openWithDEK_def split: if_splits)
  from to_transit.Rewrap_opens_to [OF old assms(1) ne lu u o assms(10)] obtain s' w1 where
    r: "Rewrap e s a w = (Inr (s', True), w1)" "s_ciphertext s' = s_ciphertext s"
    and o': "transit_key.opens_to C c (service w1) s' a p" and u': "transit_usable c (service w1)" by blast
  from transit_key.Open_opens_to [OF new u' o'] r o' show ?thesis
    by (auto simp: transit_key.opens_to_def)
qed

theorem migrate_to_transit_witness:
  "\<exists>s' w1 w2. Rewrap (new_envelope (mk_transit sample_transit) [local_wrapper sample_crypto (sample_key CHR ''a'')])
        sample_sealed ''row'' sample_host = (Inr (s', True), w1)
     \<and> Open sample_crypto (new_envelope (mk_transit sample_transit) [local_wrapper sample_crypto (sample_key CHR ''a'')])
         s' ''row'' w1 = (Inr ''p'', w2)"
proof -
  let ?e = "new_envelope (mk_transit sample_transit) [local_wrapper sample_crypto (sample_key CHR ''a'')]"
  have ne: "KeyID sample_crypto (sample_key CHR ''a'') \<noteq> transit_ID (tc_transit sample_transit)"
    unfolding sample_transit_def transit_config.select_convs by code_simp
  have old: "map_of (env_all ?e) (KeyID sample_crypto (sample_key CHR ''a'')) = Some (local_wrapper sample_crypto (sample_key CHR ''a''))"
    and cur: "map_of (env_all ?e) (transit_ID (tc_transit sample_transit)) = Some (mk_transit sample_transit)"
    using ne by (auto simp: new_envelope_def)
  have rd: "reads sample_crypto [sample_key CHR ''a''] sample_sealed ''row'' ''p''"
  proof -
    have "s_key_id sample_sealed = KeyID sample_crypto (sample_key CHR ''a'')" by code_simp
    moreover have "KeyID sample_crypto (sample_key CHR ''b'') \<noteq> KeyID sample_crypto (sample_key CHR ''a'')" by code_simp
    ultimately show ?thesis using sample_sealed_reads by (auto simp: reads_def sample_keys_def)
  qed
  have env: "env_current ?e = mk_transit sample_transit" by (simp add: new_envelope_def)
  have up: "tc_up sample_transit (service sample_host)" by (simp add: sample_transit_def)
  have len: "length (sample_key CHR ''a'') = KeySize" by (simp add: sample_key_def KeySize_def)
  from migrate_to_transit [OF env cur sample_engine_contract up sample_correct len old ne rd] show ?thesis by fastforce
qed

end
