(* ===== verification/TransitBatch.thy ===== *)
theory TransitBatch
  imports EnvelopeTheorems
begin

text \<open>
  Opening many values at once: what the grouping of \<open>OpenMany\<close> and the batches of the transit
  engine change, which is the number of round trips and who pays for a refused key, and what they
  leave alone, which is every result.
\<close>

section \<open>A batching engine for the witnesses\<close>

text \<open>It refuses every context but one, and a batch as a whole.\<close>

definition sample_decrypt :: "string \<Rightarrow> bytes \<Rightarrow> string list + bytes" where
  "sample_decrypt x a = (if a = ''row'' then Inr x else Inl [''denied''])"

definition batch_engine :: "unit engine" where
  "batch_engine url token body k =
     ((case body of
         Fields fs \<Rightarrow>
           if the (map_of fs ''context'') = b64_encode ''row''
           then Answer \<lparr>d_ciphertext = [], d_plaintext = b64_encode (the (map_of fs ''ciphertext'')), d_results = []\<rparr>
           else Status 400 [''denied'']
       | Batch_input items \<Rightarrow>
           if \<forall>fs \<in> set items. the (map_of fs ''context'') = b64_encode ''row''
           then Answer \<lparr>d_ciphertext = [], d_plaintext = [],
                  d_results = map (\<lambda>fs. (b64_encode (the (map_of fs ''ciphertext'')), [])) items\<rparr>
           else Status 400 []), k)"

lemma batch_engine_decrypts: "engine_decrypts batch_engine t sample_decrypt"
proof -
  have row: "b64_encode a = b64_encode ''row'' \<longleftrightarrow> a = ''row''" for a by (metis b64_roundtrip option.inject)
  show ?thesis
    unfolding engine_decrypts_def sample_decrypt_def batch_engine_def
    by (auto simp: row case_prod_beta is_ok_def simp del: b64_encode.simps)
qed

definition mixed_env :: "unit host envelope" where
  "mixed_env = new_envelope (transit_wrapper batch_engine (tc_transit sample_transit))
     [local_wrapper sample_crypto (sample_key CHR ''a'')]"

section \<open>OpenMany\<close>

text \<open>
  The three wrappers of the program, over a key service that answers as documented: a local master
  key, a transit key, a key of AWS KMS.
\<close>

definition serviced :: "crypto \<Rightarrow> 'k host wrapper \<Rightarrow> bool" where
  "serviced C wr \<longleftrightarrow>
     (\<exists>key. wr = local_wrapper C key)
     \<or> (\<exists>E t f. wr = transit_wrapper E t \<and> engine_decrypts E t f)
     \<or> (\<exists>cl key f. wr = kms_wrapper cl key \<and> kms_decrypts cl key f)"

lemma serviced_answers: "serviced C wr \<Longrightarrow> \<exists>f. moving.answers f wr"
  unfolding serviced_def using local_answers transit_answers kms_answers by blast

text \<open>
  C15: Opening a batch gives, position by position, what opening each value alone gives, errors
  included: whatever mix of local, transit and KMS keys the batch has, known or not, whatever order
  Go visits the groups in and however the services' state moves meanwhile, no result lands in
  another position and none is left out. The one exception is a value whose wrapper unwraps a group
  in one call, as the transit engine does, and refuses its key: then the whole call fails, with
  ErrOpen, and nothing is returned for the others either. The services are up, and answer as Vault
  and OpenBao document, who answer a batch with a refused item with status 400, and as KMS does.
\<close>

theorem OpenMany_pointwise:
  fixes e :: "'k host envelope"
  assumes "\<forall>k wr. map_of (env_all e) k = Some wr \<longrightarrow> serviced C wr"
  shows "if \<exists>item \<in> set items. refused e w item
    then \<exists>err. fst (OpenMany C e items w) = Inl err \<and> errors_is err ErrOpen
    else fst (OpenMany C e items w) = Inr (map (\<lambda>(s, a). fst (Open C e s a w)) items)"
proof -
  have "moving.answering e" using assms serviced_answers by (fastforce simp: moving.answering_def)
  from moving.OpenMany_answers [OF this, where w = w and C = C and items = items]
  show ?thesis by (simp add: opened_def case_prod_beta cong: map_cong)
qed

definition transit_value :: sealed where
  "transit_value =
     \<lparr>s_key_id = ''transit:transit/sealbox'', s_wrapped = sample_key CHR ''d'',
      s_ciphertext = fst (seal_blob sample_crypto (sample_key CHR ''d'') ''q'' ''row'' sample_host)\<rparr>"

definition mixed_items :: "(sealed \<times> bytes) list" where
  "mixed_items =
     [(transit_value, ''row''), (\<lparr>s_key_id = ''gone'', s_wrapped = [], s_ciphertext = []\<rparr>, ''row''),
      (sample_sealed, ''row''), (sample_sealed, ''raw'')]"

lemma mixed_serviced:
  "map_of (env_all mixed_env) k = Some wr \<Longrightarrow> serviced sample_crypto wr"
  using batch_engine_decrypts
  by (auto simp: mixed_env_def new_envelope_def serviced_def AList.update_conv' split: option.splits if_splits)

lemma mixed_ids:
  "map_of (env_all mixed_env) (s_key_id transit_value) = Some (transit_wrapper batch_engine (tc_transit sample_transit))"
  "map_of (env_all mixed_env) ''gone'' = None"
  "map_of (env_all mixed_env) (s_key_id sample_sealed) = Some (local_wrapper sample_crypto (sample_key CHR ''a''))"
proof -
  have t: "transit_ID (tc_transit sample_transit) = ''transit:transit/sealbox''"
    unfolding sample_transit_def transit_config.select_convs by code_simp
  have k: "KeyID sample_crypto (sample_key CHR ''a'') = s_key_id sample_sealed"
    "s_key_id sample_sealed \<noteq> ''transit:transit/sealbox''" "s_key_id sample_sealed \<noteq> ''gone''"
    by code_simp+
  show "map_of (env_all mixed_env) (s_key_id transit_value) = Some (transit_wrapper batch_engine (tc_transit sample_transit))"
    "map_of (env_all mixed_env) ''gone'' = None"
    "map_of (env_all mixed_env) (s_key_id sample_sealed) = Some (local_wrapper sample_crypto (sample_key CHR ''a''))"
    using t k by (auto simp: mixed_env_def new_envelope_def transit_wrapper_def transit_value_def)
qed

lemma mixed_refused:
  "\<not> (\<exists>item \<in> set mixed_items. refused mixed_env sample_host item)"
  "refused mixed_env sample_host (transit_value, ''raw'')"
  by (auto simp: mixed_items_def refused_def mixed_ids transit_wrapper_def local_wrapper_def
      transit_unwrap_decrypts [OF batch_engine_decrypts] sample_decrypt_def)

lemma mixed_opened:
  "map (\<lambda>(s, a). fst (Open sample_crypto mixed_env s a sample_host)) mixed_items
     = [Inr ''q'', Inl ErrUnknownKey, Inr ''p'', Inl ErrOpen]"
proof -
  have "fst (Open sample_crypto mixed_env transit_value ''row'' sample_host) = Inr ''q''"
  proof -
    obtain w1 where "transit_unwrap batch_engine (tc_transit sample_transit) (s_wrapped transit_value) ''row'' sample_host
        = (Inr (sample_key CHR ''d''), w1)"
      using transit_unwrap_decrypts [OF batch_engine_decrypts, of "tc_transit sample_transit"
          "s_wrapped transit_value" "''row''" sample_host]
      by (cases "transit_unwrap batch_engine (tc_transit sample_transit) (s_wrapped transit_value) ''row'' sample_host")
        (simp add: decrypted_def sample_decrypt_def transit_value_def)
    moreover have "openWithDEK sample_crypto (sample_key CHR ''d'') (s_ciphertext transit_value) ''row'' = Inr ''q''"
    proof -
      obtain b w2 where s: "seal_blob sample_crypto (sample_key CHR ''d'') ''q'' ''row'' sample_host = (b, w2)"
        by (metis surj_pair)
      have len: "length (sample_key CHR ''d'') = KeySize" by (simp add: sample_key_def KeySize_def)
      from open_seal_blob [OF sample_correct len s] len s show ?thesis
        by (simp add: openWithDEK_def transit_value_def)
    qed
    moreover have "length (sample_key CHR ''d'') = KeySize" by (simp add: sample_key_def KeySize_def)
    ultimately show ?thesis by (simp add: Open_def unwrap_dek_def mixed_ids transit_wrapper_def)
  qed
  moreover have "fst (Open sample_crypto mixed_env sample_sealed a sample_host)
      = fst (Open sample_crypto (local_env sample_crypto (sample_key CHR ''a'') []) sample_sealed a sample_host)" for a
  proof -
    have "map_of (env_all (local_env sample_crypto (sample_key CHR ''a'') [] :: unit host envelope)) (s_key_id sample_sealed)
        = Some (local_wrapper sample_crypto (sample_key CHR ''a''))"
    proof -
      have "KeyID sample_crypto (sample_key CHR ''a'') = s_key_id sample_sealed" by code_simp
      then show ?thesis by (simp add: local_env_lookup)
    qed
    then show ?thesis by (simp add: Open_def unwrap_dek_def mixed_ids)
  qed
  moreover have "fst (Open sample_crypto (local_env sample_crypto (sample_key CHR ''a'') []) sample_sealed ''row'' sample_host) = Inr ''p''"
    by code_simp
  moreover have "fst (Open sample_crypto (local_env sample_crypto (sample_key CHR ''a'') []) sample_sealed ''raw'' sample_host) = Inl ErrOpen"
    by code_simp
  ultimately show ?thesis by (simp add: mixed_items_def Open_unknown mixed_ids)
qed

theorem OpenMany_pointwise_witness:
  "fst (OpenMany sample_crypto mixed_env mixed_items sample_host) = Inr [Inr ''q'', Inl ErrUnknownKey, Inr ''p'', Inl ErrOpen]
   \<and> (\<exists>err. fst (OpenMany sample_crypto mixed_env ((transit_value, ''raw'') # mixed_items) sample_host) = Inl err
        \<and> errors_is err ErrOpen)"
proof -
  have all: "\<forall>k wr. map_of (env_all mixed_env) k = Some wr \<longrightarrow> serviced sample_crypto wr"
    using mixed_serviced by blast
  have "\<exists>item \<in> set ((transit_value, ''raw'') # mixed_items). refused mixed_env sample_host item"
    using mixed_refused(2) by simp
  with OpenMany_pointwise [OF all, where w = sample_host and items = "(transit_value, ''raw'') # mixed_items"]
  have bad: "\<exists>err. fst (OpenMany sample_crypto mixed_env ((transit_value, ''raw'') # mixed_items) sample_host) = Inl err
        \<and> errors_is err ErrOpen"
    by (simp only: if_True)
  from OpenMany_pointwise [OF all, where w = sample_host and items = mixed_items] mixed_refused(1)
  have "fst (OpenMany sample_crypto mixed_env mixed_items sample_host)
      = Inr (map (\<lambda>(s, a). fst (Open sample_crypto mixed_env s a sample_host)) mixed_items)"
    by (simp only: if_False)
  with bad show ?thesis by (simp only: mixed_opened)
qed

section \<open>Batches of the engine\<close>

fun chunks :: "nat \<Rightarrow> 'a list \<Rightarrow> 'a list list" where
  "chunks n xs = (if n = 0 \<or> xs = [] then [] else take n xs # chunks n (drop n xs))"

declare chunks.simps [simp del]

lemma round_up_step:
  fixes l n :: nat
  assumes "0 < n" and "0 < l"
  shows "Suc ((l - n + n - 1) div n) = (l + n - 1) div n"
proof (cases "l \<le> n")
  case True
  then have "(l - n + n - 1) div n = 0" using assms(1) by simp
  moreover have "l + n - 1 = (l - 1) + n" using assms(2) by simp
  moreover have "(l - 1) div n = 0" using True assms by simp
  ultimately show ?thesis using assms(1) by (simp only: div_add_self2)
next
  case False
  then have "l + n - 1 = (l - n + n - 1) + n" using assms(1) by simp
  then show ?thesis using assms(1) by (simp only: div_add_self2)
qed

lemma length_chunks: "0 < n \<Longrightarrow> length (chunks n xs) = (length xs + n - 1) div n"
proof (induction xs rule: length_induct)
  case (1 xs)
  show ?case
  proof (cases "xs = []")
    case True
    then show ?thesis using 1(2) by (simp add: chunks.simps)
  next
    case False
    then have "length (drop n xs) < length xs" using 1(2) by simp
    with 1 have IH: "length (chunks n (drop n xs)) = (length xs - n + n - 1) div n" by (metis length_drop)
    have "chunks n xs = take n xs # chunks n (drop n xs)"
      using False 1(2) by (subst chunks.simps) simp
    then have "length (chunks n xs) = Suc ((length xs - n + n - 1) div n)"
      by (simp only: list.size(4) IH)
    with round_up_step [OF 1(2), of "length xs"] False show ?thesis by simp
  qed
qed

text \<open>An engine with a log of the requests it was sent.\<close>

definition logging :: "'k engine \<Rightarrow> ('k \<times> engine_request list) engine" where
  "logging E url token body s =
     (case E url token body (fst s) of (r, k) \<Rightarrow> (r, (k, snd s @ [body])))"

lemma logging_decrypts:
  assumes "engine_decrypts E t f"
  shows "engine_decrypts (logging E) t f"
proof -
  have log: "fst (logging E u tk b k) = fst (E u tk b (fst k))" for u tk b k
    by (simp add: logging_def split: prod.splits)
  show ?thesis using assms unfolding engine_decrypts_def log by simp
qed

lemma unwrap_many_log:
  assumes "transit_unwrap_many (logging E) t reqs w = (Inr out, w')"
  shows "length out = length reqs
    \<and> snd (service w') = snd (service w) @ map (Batch_input \<circ> map batch_item) (chunks batchSize reqs)"
  using assms
proof (induction "logging E" t reqs w arbitrary: out rule: transit_unwrap_many.induct)
  case (1 t reqs w)
  show ?case
  proof (cases "reqs = []")
    case True
    with 1(2) show ?thesis by (simp add: transit_unwrap_many.simps chunks.simps)
  next
    case False
    let ?items = "take batchSize reqs"
    obtain r1 w1 where c: "transit_call (logging E) t ''decrypt'' (Batch_input (map batch_item ?items)) w = (r1, w1)"
      by (metis surj_pair)
    then have log: "snd (service w1) = snd (service w) @ [Batch_input (map batch_item ?items)]"
      by (auto simp: transit_call_def logging_def split: prod.splits)
    from 1(2) False c obtain d where d: "r1 = Inr d" "length (d_results d) = length ?items"
      by (subst (asm) transit_unwrap_many.simps) (auto simp: Let_def split: sum.splits if_splits)
    obtain r2 w2 where rec: "transit_unwrap_many (logging E) t (drop batchSize reqs) w1 = (r2, w2)"
      by (metis surj_pair)
    from 1(2) False c d rec obtain out2 where o: "r2 = Inr out2" "w2 = w'" "out = map batch_result (d_results d) @ out2"
      by (subst (asm) transit_unwrap_many.simps) (auto simp: Let_def split: sum.splits if_splits)
    have IH: "length out2 = length (drop batchSize reqs) \<and> snd (service w') = snd (service w1)
        @ map (Batch_input \<circ> map batch_item) (chunks batchSize (drop batchSize reqs))"
      by (rule 1(1) [OF False refl c [symmetric] d(1)]) (use d rec o in auto)
    have "chunks batchSize reqs = ?items # chunks batchSize (drop batchSize reqs)"
      using False by (subst chunks.simps) (simp add: batchSize_def)
    with IH log d o show ?thesis by simp
  qed
qed

text \<open>
  C17: UnwrapMany spends one round trip for every 500 keys, and no more: a call that succeeds has
  sent the engine exactly the chunks of 500 of its input in order, which is the length divided by
  500 rounded up, and returns one result per key.
\<close>

theorem UnwrapMany_round_trips:
  assumes "transit_unwrap_many (logging E) t reqs w = (Inr out, w')"
  shows "length out = length reqs
    \<and> (\<exists>calls. snd (service w') = snd (service w) @ calls
        \<and> calls = map (Batch_input \<circ> map batch_item) (chunks 500 reqs)
        \<and> length calls = (length reqs + 499) div 500)"
  using unwrap_many_log [OF assms] by (simp add: batchSize_def length_chunks)

text \<open>
  C16: A batch is its items when the engine accepts them all: UnwrapMany then returns, in input
  order and whatever the length, exactly the key that Unwrap returns for each. When it refuses one
  of them, the engine answers the batch that holds it with status 400, as Vault and OpenBao document
  for a request that does not ask otherwise, and the whole call fails with ErrOpen: the caller gets
  no key, not even of the items whose Unwrap succeeds.
\<close>

theorem UnwrapMany_is_Unwrap:
  assumes "engine_decrypts E t f"
  shows "if \<forall>(x, a) \<in> set reqs. is_ok (fst (transit_unwrap E t x a w))
    then fst (transit_unwrap_many E t reqs w) = Inr (map (\<lambda>(x, a). fst (transit_unwrap E t x a w)) reqs)
    else \<exists>e. fst (transit_unwrap_many E t reqs w) = Inl e \<and> errors_is e ErrOpen"
  using unwrap_many_decrypts [OF assms, of reqs w] by (simp add: transit_unwrap_decrypts [OF assms])

theorem UnwrapMany_is_Unwrap_witness:
  "fst (transit_unwrap_many batch_engine (tc_transit sample_transit) [(''k1'', ''row''), (''k2'', ''row'')] sample_host)
     = Inr [Inr ''k1'', Inr ''k2'']
   \<and> (\<exists>e. fst (transit_unwrap_many batch_engine (tc_transit sample_transit) [(''k1'', ''row''), (''k2'', ''raw'')] sample_host)
     = Inl e \<and> errors_is e ErrOpen)"
proof -
  let ?u = "\<lambda>x a. fst (transit_unwrap batch_engine (tc_transit sample_transit) x a sample_host)"
  have u: "?u ''k1'' ''row'' = Inr ''k1''" "?u ''k2'' ''row'' = Inr ''k2''" "\<not> is_ok (?u ''k2'' ''raw'')"
    by (simp_all add: transit_unwrap_decrypts [OF batch_engine_decrypts] decrypted_def sample_decrypt_def)
  from UnwrapMany_is_Unwrap [OF batch_engine_decrypts, of "[(''k1'', ''row''), (''k2'', ''row'')]" "tc_transit sample_transit" sample_host]
    UnwrapMany_is_Unwrap [OF batch_engine_decrypts, of "[(''k1'', ''row''), (''k2'', ''raw'')]" "tc_transit sample_transit" sample_host]
  show ?thesis by (simp add: u)
qed

theorem UnwrapMany_round_trips_witness:
  "\<exists>out w'. transit_unwrap_many (logging batch_engine) (tc_transit sample_transit) (replicate 1001 (''k1'', ''row''))
       \<lparr>entropy = (\<lambda>_. CHR ''r''), service = ((), []), ranges = (\<lambda>ks. ks)\<rparr> = (Inr out, w')
     \<and> length out = 1001 \<and> length (snd (service w')) = 3"
proof -
  let ?w = "\<lparr>entropy = (\<lambda>_. CHR ''r''), service = ((), []), ranges = (\<lambda>ks. ks)\<rparr> :: (unit \<times> engine_request list) host"
  let ?t = "tc_transit sample_transit"
  from unwrap_many_decrypts [OF logging_decrypts [OF batch_engine_decrypts], where t = ?t
      and reqs = "replicate 1001 (''k1'', ''row'')" and w = ?w]
  have "\<exists>out w'. transit_unwrap_many (logging batch_engine) ?t (replicate 1001 (''k1'', ''row'')) ?w = (Inr out, w')"
    by (cases "transit_unwrap_many (logging batch_engine) ?t (replicate 1001 (''k1'', ''row'')) ?w")
      (simp add: sample_decrypt_def)
  then obtain out w' where run: "transit_unwrap_many (logging batch_engine) ?t (replicate 1001 (''k1'', ''row'')) ?w = (Inr out, w')"
    by blast
  from UnwrapMany_round_trips [OF run] run show ?thesis by auto
qed

end
