(* ===== verification/Hardening.thy ===== *)
theory Hardening
  imports Prelude "HOL-Library.Word"
begin

text \<open>
  What \<open>main\<close> does first (cmd/sealbox/harden_linux.go and harden_other.go): no core dumps, and no
  tracing by other processes of the same user. The kernel is a record of its two system calls on a
  state of its own; a failure is a warning, and the process goes on.
\<close>

section \<open>System calls\<close>

record rlimit =
  rl_cur :: "64 word"
  rl_max :: "64 word"

record 'h kernel =
  sys_setrlimit :: "nat \<Rightarrow> rlimit \<Rightarrow> 'h \<Rightarrow> unit result \<times> 'h"
  sys_prctl :: "nat \<Rightarrow> nat \<Rightarrow> 'h \<Rightarrow> unit result \<times> 'h"

definition RLIMIT_CORE :: nat where "RLIMIT_CORE = 4"
definition PR_SET_DUMPABLE :: nat where "PR_SET_DUMPABLE = 4"

definition harden_linux :: "'h kernel \<Rightarrow> 'h \<Rightarrow> unit result \<times> 'h" where
  "harden_linux K h =
     (case sys_setrlimit K RLIMIT_CORE \<lparr>rl_cur = 0, rl_max = 0\<rparr> h of
        (Inl e, h1) \<Rightarrow> (Inl (ErrWrap ''disable core dumps'' e), h1)
      | (Inr _, h1) \<Rightarrow>
     (case sys_prctl K PR_SET_DUMPABLE 0 h1 of
        (Inl e, h2) \<Rightarrow> (Inl (ErrWrap ''mark process non-dumpable'' e), h2)
      | (Inr _, h2) \<Rightarrow> (Inr (), h2)))"

definition harden_other :: "'h \<Rightarrow> unit result \<times> 'h" where
  "harden_other h = (Inr (), h)"

text \<open>The beginning of \<open>main\<close>: the warnings it logs, and what follows on the state it leaves.\<close>

definition main_with ::
  "('h \<Rightarrow> unit result \<times> 'h) \<Rightarrow> ('h \<Rightarrow> 'a \<times> 'h) \<Rightarrow> 'h \<Rightarrow> goerr list \<times> 'a \<times> 'h" where
  "main_with harden rest h =
     (case harden h of
        (Inl e, h1) \<Rightarrow> ([e], rest h1)
      | (Inr _, h1) \<Rightarrow> ([], rest h1))"

section \<open>What it leaves behind\<close>

text \<open>
  The two calls as Linux documents them: a call that succeeds sets what it names and nothing else,
  one that fails sets nothing. \<open>core\<close> is the limit on core dumps and \<open>dumpable\<close> the process's flag.
\<close>

definition linux :: "'h kernel \<Rightarrow> ('h \<Rightarrow> rlimit) \<Rightarrow> ('h \<Rightarrow> nat) \<Rightarrow> bool" where
  "linux K core dumpable \<longleftrightarrow>
     (\<forall>l h r h'. sys_setrlimit K RLIMIT_CORE l h = (r, h') \<longrightarrow>
        core h' = (if is_ok r then l else core h) \<and> dumpable h' = dumpable h)
   \<and> (\<forall>d h r h'. sys_prctl K PR_SET_DUMPABLE d h = (r, h') \<longrightarrow>
        dumpable h' = (if is_ok r then d else dumpable h) \<and> core h' = core h)"

text \<open>
  Without a warning there are no core dumps and the process is not dumpable. With one, \<open>main\<close> still
  runs, and the warning tells which half is missing: after the first the process is as it was,
  after the second core dumps are off all the same.
\<close>

theorem hardened:
  assumes "linux K core dumpable" and "main_with (harden_linux K) rest h = (ws, x)"
  obtains h' where "x = rest h'"
    and "ws = [] \<Longrightarrow> core h' = \<lparr>rl_cur = 0, rl_max = 0\<rparr> \<and> dumpable h' = 0"
    and "\<And>e. ws = [ErrWrap ''disable core dumps'' e] \<Longrightarrow> core h' = core h \<and> dumpable h' = dumpable h"
    and "\<And>e. ws = [ErrWrap ''mark process non-dumpable'' e] \<Longrightarrow>
      core h' = \<lparr>rl_cur = 0, rl_max = 0\<rparr> \<and> dumpable h' = dumpable h"
    and "length ws \<le> 1"
proof -
  obtain r h' where h: "harden_linux K h = (r, h')" by (metis surj_pair)
  have x: "x = rest h'" and ws: "ws = (case r of Inl e \<Rightarrow> [e] | Inr _ \<Rightarrow> [])"
    using assms(2) by (auto simp: main_with_def h split: sum.splits)
  from h show thesis
    by (intro that [OF x])
      (use assms(1) in \<open>auto simp: ws harden_linux_def linux_def split: prod.splits sum.splits\<close>)
qed

end
