(* ===== verification/Findable.thy ===== *)
theory Findable
  imports StoreReads
begin

text \<open>
  How long a stored object can be found (\<open>PutMany\<close> and \<open>Search\<close> of internal/store/store.go): the
  index rows of an object leave only in a transaction that logs a delete or a reindex of it.
\<close>

definition unindexed :: "string \<Rightarrow> string \<Rightarrow> audit_row list \<Rightarrow> bool" where
  "unindexed c oid rows \<longleftrightarrow>
     (\<exists>row \<in> set rows. a_action row \<in> {''delete'', ''reindex''} \<and> a_collection row = c \<and> a_object row = nullif_empty oid)"

lemma unindexed_append [simp]: "unindexed c oid (xs @ ys) \<longleftrightarrow> unindexed c oid xs \<or> unindexed c oid ys"
  by (auto simp: unindexed_def)

text \<open>What a transaction does to an entry of the index, and what it adds to the log.\<close>

definition keeps_entry :: "index_row \<Rightarrow> db \<Rightarrow> db \<Rightarrow> bool" where
  "keeps_entry x d d' \<longleftrightarrow>
     (\<exists>rows. audit_log d' = audit_log d @ rows
        \<and> (x \<in> set (blind_index d) \<longrightarrow> x \<in> set (blind_index d') \<or> unindexed (x_collection x) (x_object x) rows))"

lemma keeps_same: "set (blind_index d) \<subseteq> set (blind_index d') \<Longrightarrow> audit_log d' = audit_log d @ rows \<Longrightarrow> keeps_entry x d d'"
  by (auto simp: keeps_entry_def)

lemma keeps_trans: "keeps_entry x d1 d2 \<Longrightarrow> keeps_entry x d2 d3 \<Longrightarrow> keeps_entry x d1 d3"
  by (fastforce simp: keeps_entry_def)

lemma commit_keeps: "commit C ix G d d' \<Longrightarrow> keeps_entry x d d'"
proof (induction rule: commit.induct)
  case (create s c oid p d d' actor subject vals)
  then show ?case by (intro keeps_same) (auto simp: created_def)
next
  case (destroy actor c oid d d')
  then show ?case
    by (auto simp: delete_effect_def keeps_entry_def unindexed_def audit_row_of_def object_entry_def)
next
  case (forget d actor subject)
  show ?case
    by (auto simp: subject_effect_def erase_effect_def refers_def keeps_entry_def unindexed_def
        audit_row_of_def delete_entry_def object_entry_def)
next
  case (reindex oid d c d' actor vals)
  then show ?case
    by (auto simp: reindexed_def keeps_entry_def unindexed_def audit_row_of_def object_entry_def)
next
  case (rewrap oid k k' wrapped d n d')
  then show ?case by (intro keeps_same [where rows = "[]"]) (auto simp: sql_rewrap_object_Inr [OF rewrap(1)])
next
  case (claim r d u d' p)
  then show ?case by (intro keeps_same [where rows = "[]"]) (auto simp: sql_insert_key_def split: if_splits)
next
  case (rekey name k k' wrapped d n d')
  then show ?case by (intro keeps_same [where rows = "[]"]) (auto simp: sql_update_key_def Let_def)
next
  case (note_read rows d u d')
  then show ?case by (intro keeps_same [where rows = rows]) (auto simp: sql_insert_audit_def)
qed

lemma commits_keep: "(commit C ix G)\<^sup>*\<^sup>* d d' \<Longrightarrow> keeps_entry x d d'"
  by (induction rule: rtranclp_induct) (auto intro: keeps_same [where rows = "[]"] keeps_trans commit_keeps)

lemma stored_entry:
  assumes "stored C st actor c items oids d d'" and "i < length items" and "(f, v) \<in> set (it_indexed (items ! i))"
  shows "\<lparr>x_collection = c, x_field = f, x_hash = Hash C (st_index st) c f v, x_object = oids ! i\<rparr> \<in> set (blind_index d')"
proof -
  from assms(1) obtain rows xs where rows: "map o_id rows = oids" "list_all2 (stores_item C st c) items rows"
    and xs: "blind_index d' = blind_index d @ xs" "mset xs = mset (index_rows C st c items oids)"
    unfolding stored_def by blast
  from rows have len: "length oids = length items" by (auto dest: list_all2_lengthD)
  from xs(2) have "set xs = set (index_rows C st c items oids)" by (rule mset_eq_setD)
  moreover have "(items ! i, oids ! i) \<in> set (zip items oids)" using assms(2) len by (auto simp: set_zip)
  with assms(3) have "entry_of C (st_index st) c (oids ! i) (f, v) \<in> set (index_rows C st c items oids)"
    by (force simp: index_rows_def)
  ultimately show ?thesis using xs(1) by (simp add: entry_of_def)
qed

lemma put_run_search:
  assumes "valid_keys C keys" and "trusted C (reads C keys) (st_env st1)"
    and "trusted C (reads C keys) (st_env st2)" and "st_index st2 = st_index st1" and "st_index st3 = st_index st1"
    and "rivals_obey C (st_index st1) (reads C keys) w" and "db_ok (reads C keys) (w_db w)"
    and "\<forall>it \<in> set items. gomap_ok (it_indexed it)"
    and "PutMany C st1 actor c items w = (Inr oids, w1)" and "(serve C st2)\<^sup>*\<^sup>* w1 w2" and "fine w2"
    and "i < length items" and "(f, v) \<in> set (it_indexed (items ! i))" and "after < oids ! i"
  shows "\<exists>ids w3 rows. Search C st3 c f v after w2 = (Inr ids, w3) \<and> audit_log (found_db w2) = audit_log (w_db w1) @ rows
    \<and> set ids \<subseteq> o_id ` set (objects (found_db w2))
    \<and> (oids ! i \<in> set ids \<or> length ids = SearchPage \<and> (\<forall>z \<in> set ids. z < oids ! i) \<or> unindexed c (oids ! i) rows)"
proof -
  let ?ix = "st_index st1"
  note run = put_run [OF assms(1-4,6-10)]
  let ?x = "\<lparr>x_collection = c, x_field = f, x_hash = Hash C ?ix c f v, x_object = oids ! i\<rparr>"
  have "?x \<in> set (blind_index (w_db w1))" using run(1) assms(12,13) by (rule stored_entry)
  then obtain rows where rows: "audit_log (found_db w2) = audit_log (w_db w1) @ rows"
      "?x \<in> set (blind_index (found_db w2)) \<or> unindexed c (oids ! i) rows"
    using commits_keep [OF run(2), of ?x] by (auto simp: keeps_entry_def)
  obtain ids w3 where ids: "Search C st3 c f v after w2 = (Inr ids, w3)"
    and sub: "set ids \<subseteq> {oid \<in> matches C (st_index st3) (found_db w2) c f v. after < oid}"
    and all: "\<forall>oid \<in> matches C (st_index st3) (found_db w2) c f v. after < oid \<longrightarrow> oid \<notin> set ids \<longrightarrow>
          length ids = SearchPage \<and> (\<forall>z \<in> set ids. z < oid)"
    using Search_ids [OF assms(11) run(3)] by blast
  have "oids ! i \<in> matches C (st_index st3) (found_db w2) c f v" if "?x \<in> set (blind_index (found_db w2))"
    using that assms(5) by (force simp: matches_def)
  moreover have "set ids \<subseteq> o_id ` set (objects (found_db w2))" using sub matches_live [OF run(3)] by fastforce
  ultimately show ?thesis using ids rows all assms(14) by blast
qed

text \<open>
  C2: What is stored is found until the audit log says why not. Once PutMany has reported the ids of
  its items, then after any run of any server with still others working in between (rotations,
  reindexing and restarts included), a search for an index value an item was stored with returns its
  id, on the page where it belongs: a page that lacks it and starts before it is full, and every id
  on it comes before. Otherwise the log has an entry, written since, for a delete or a reindex of
  exactly that object.
\<close>

theorem put_then_search:
  assumes "valid_keys C keys" and "trusted C (reads C keys) (st_env st1)"
    and "trusted C (reads C keys) (st_env st2)" and "st_index st2 = st_index st1" and "st_index st3 = st_index st1"
    and "rivals_obey C (st_index st1) (reads C keys) w" and "db_ok (reads C keys) (w_db w)"
    and "\<forall>it \<in> set items. gomap_ok (it_indexed it)"
    and "PutMany C st1 actor c items w = (Inr oids, w1)" and "(serve C st2)\<^sup>*\<^sup>* w1 w2" and "fine w2"
    and "i < length items" and "(f, v) \<in> set (it_indexed (items ! i))" and "after < oids ! i"
  shows "\<exists>ids w3 rows. Search C st3 c f v after w2 = (Inr ids, w3) \<and> audit_log (found_db w2) = audit_log (w_db w1) @ rows
    \<and> (oids ! i \<in> set ids \<or> length ids = SearchPage \<and> (\<forall>z \<in> set ids. z < oids ! i) \<or> unindexed c (oids ! i) rows)"
  using put_run_search [OF assms] by blast

theorem put_then_search_witness:
  "\<exists>ids w3 rows. Search sample_crypto rotated_store ''c'' ''mail'' ''a@b'' [] rotated_world = (Inr ids, w3)
     \<and> audit_log (found_db rotated_world) = audit_log (w_db put_world) @ rows
     \<and> (sample_id \<in> set ids \<or> length ids = SearchPage \<and> (\<forall>z \<in> set ids. z < sample_id) \<or> unindexed ''c'' sample_id rows)"
proof -
  have ix: "st_index rotated_store = st_index sample_store" by (simp add: rotated_store_def sample_store_def)
  have ok: "db_ok (reads sample_crypto sample_keys) (w_db sample_world)" by (simp add: sample_empty empty_db_ok)
  have maps: "\<forall>it \<in> set [sample_item]. gomap_ok (it_indexed it)" by (simp add: sample_item_def)
  have i: "0 < length [sample_item]" "(''mail'', ''a@b'') \<in> set (it_indexed ([sample_item] ! 0))" "[] < [sample_id] ! 0"
    by (simp_all add: sample_item_def sample_id_def)
  from put_then_search [OF sample_valid sample_trusted ix ix sample_rivals ok maps sample_put_result
      rotated_run fine_rotated_world i]
  show ?thesis by simp
qed

end
