(* ===== verification/Spec2Isabelle.thy ===== *)
theory Spec2Isabelle
  imports RequestTheorems ProcessTheorems Wire TransitBatch Hardening Findable
begin

text \<open>
  A model of sealbox, an encrypted vault for personal data: a Go server that keeps JSON objects in
  Postgres, each sealed under a data key of its own, which in turn is wrapped by a master key or
  by a key service. Deleting an object destroys its data key; every read, search and change is
  logged.

  The program's parts, from the bottom up, and the theories that model them.

  Field types and schemas (internal/schema). FieldTypes has the declarable types with their
  validation, masking and normal form; Schema the declaration of collections, \<open>Parse\<close> with its
  checks, and \<open>Validate\<close>, \<open>Mask\<close>, \<open>Indexed\<close> and \<open>Normalize\<close> on objects. A nil function value of the
  table of types is \<open>None\<close>, and calling it a panic of its own. SchemaTheorems: masks release only
  the declared parts, a search finds what was indexed, a mistyped card number is refused.

  Envelope encryption (internal/envelope). Envelope has the \<open>Wrapper\<close> interface as a record of
  functions, the local wrapper and \<open>Seal\<close>, \<open>Open\<close>, \<open>OpenMany\<close>, \<open>Rewrap\<close>; KeyServices the transit and
  the AWS KMS wrappers. The interface is the locale \<open>wrapper_contract\<close>, with \<open>rewrap_contract\<close> for
  a change of wrapper (EnvelopeLaws); all three wrappers interpret it (EnvelopeLaws, KeyLaws). What
  is asked of the transit engine (\<open>engine_contract\<close>) is its answer to requests whose fields are base64
  and whose context is not empty, and nothing else. EnvelopeBatch has opening many values over the
  locale \<open>steady_backend\<close>: wrappers whose answer to a key does not depend on the state of their
  service, which may move (interpretation \<open>moving\<close>) or not (\<open>unmoved\<close>). TransitBatch shows that local
  keys, a transit engine and AWS KMS are such, so that opening many values at once is opening each,
  except that one key a transit engine refuses fails the whole batch, since the engine answers it
  with status 400. EnvelopeTheorems has the round trips and the binding of a value to its row: no
  other value's ciphertext or wrapped key can take a part's place.

  The store (internal/store). Database has the tables, the SQL statements as functions on them,
  and how statements reach Postgres: any round trip may be lost before or after it took effect
  (\<open>weather\<close>), and other processes may change the database before each (\<open>w_rivals\<close>). Store has the
  operations on objects, Maintenance \<open>Reindex\<close>, \<open>Rotate\<close> and opening the store, Privileges
  \<open>Grant\<close> and \<open>Ping\<close>. The abstract specification is the transition system \<open>commit\<close> of Lawful: one
  step per committed transaction. StoreLaws states rely/guarantee reasoning about the database as
  the locale \<open>rely_guarantee\<close>, interpreted twice: as \<open>spec\<close> on the specification (Operations, where
  every operation is shown to take only steps of it) and as \<open>work\<close> on what is left to do for a
  rotation or a reindex (Progress). Effects, StoreContents and StoreReads say what each operation
  does, PutMany down to the multiset of index rows it adds; StoreTheorems has the invariants of
  reachable databases; Progress that the page loops end; Findable that a stored object is found until the log has a delete or a reindex of it;
  Retire that a clean rotation leaves nothing under an old key and that all servers share one
  blind-index key.

  The HTTP API (internal/api). Auth has the keys file, its validation and the check of a bearer
  key; Api requests, answers, the reveal budget and the checks handlers share; Handlers the
  handlers, the routes and \<open>New\<close>. The \<open>Vault\<close> interface of the code is a record of operations here
  and its contract the locale \<open>vault_laws\<close> (ApiLaws, ApiGate), which Gateway interprets on the
  store. ApiTheorems and RequestTheorems: nothing leaves unlogged, plaintext has its price, a
  refused request touches nothing, no request panics, a deleted object is gone, a batch is stored
  whole or not at all, authentication and validation are exact. Stored: what POST stores decodes to
  the object that was sent, in a canonical form with the same strings, hence the same masks and,
  if no field is named like another one's fragment, the same index values in whatever order the
  fields are visited.

  Metrics (internal/metrics): the theory Metrics has the registry with 64-bit counters, the
  middleware, which reads the pattern of a request object the mux wrote to, and the page.

  The command (cmd/sealbox). Hardening has what a process does first, over the kernel's two calls.
  NetAddr has \<open>isLoopback\<close> with the address syntax of package net; Command everything \<open>main\<close> decides
  before it opens the store, as a function from the environment to a refusal or a plan; Process what
  a plan sets off: \<open>migrateUp\<close>, the tasks with their exit status, the server behind its mux and the
  middleware, and the listener for metrics. CommandTheorems and ProcessTheorems: master keys are
  read back, a process starts guarded, a started server answers every request and its counters are
  the numbers of its answers, exit status 0 of a rotation means the old keys can go.

  The client library (client/client.go): ClientLib has every call; ClientTheorems shows that each
  call arrives at its route with its values, and that refusals are told apart. Answers is what
  \<open>writeJSON\<close> sends for each answer and what the client's decoders read of it. Calls runs each call
  over \<open>api_network\<close>, the API as the network of a client: it returns what the server answered. Wire puts
  client, server and store together: \<open>client_create_then_get\<close> follows an object from Create through the
  server, the store and any run of other servers back to Get.

  Underneath lie Prelude (errors, results, loops that stop at an error, Go maps as association
  lists), GoStrings, Json, JsonCodec, Base64 and Documents: the parts of Go's strings, unicode,
  encoding/json, encoding/base64 and number parsing that the program uses, executable. What is
  printed is parsed back: JsonScan for the scanner's tokens, JsonText for whole values, JsonLocal
  that a parser sees only the text of its value, JsonCompact for UTF-8, compaction and maps of raw
  messages, JsonEscape that escaping for HTML changes no string, JsonPrint for the documents made
  of strings of valid UTF-8, raw JSON values, lists and objects.

  Conventions. Strings and byte slices are lists of bytes. An operation that touches the world
  takes and returns it. An error is a value on the left of a sum; a panic is a value as well. The
  order in which Go ranges over a map is an argument, and nothing is assumed of it but that it is
  a permutation. Cryptographic primitives are the record \<open>crypto\<close>, an argument; theorems name what
  they use of it (\<open>aead_correct\<close>, distinct key ids, binding), and Samples has a concrete instance on
  which the witnesses run.

  Fuel. The page loops of \<open>Rotate\<close> and \<open>Reindex\<close> take the number of pages as fuel, since servers
  may add rows while they run. \<open>Rotate_terminates\<close> and \<open>Reindex_terminates\<close> show how much is enough:
  one more than the rows to be dealt with at the start, when nobody adds work. The JSON parser's
  fuel is twice the length of its input and two more.

  Not modelled: headers of answers; the texts of refusals made with \<open>%q\<close> (an argument of \<open>answer_body\<close>); log lines, time-outs, contexts
  and the goroutines of net/http (requests to one server come one after the other, while other
  servers run between any two round trips); path cleaning and the choice of a redirect's status
  in ServeMux; what goose does with the migrations it is given (an argument behind \<open>migrateUp\<close>), timestamps and the partitions of the audit log; the quoting of
  a role's name; the SDK of AWS and the HTTP exchange with the transit engine, which are
  arguments. The rate limiter is a package of its own: what it allows is an argument.

  Where the model is coarser than the machine. Postgres refuses a text parameter with a NUL byte or
  with invalid UTF-8, which the API would answer with 500; in the model such a text is compared like
  any other and matches no row the program wrote. Text is ordered by bytes here and by the
  database's collation there; the ids the program makes are ASCII of one length. \<open>OpenStore\<close> begins
  with the first statement: the error of \<open>pgxpool.New\<close> on a malformed URL comes before it. An answer
  of AWS KMS without a ciphertext blob is the empty blob here, and NULL in the database. The panic
  of a wrapper that returns fewer keys than it was given (\<open>open_group\<close>) is an error value; the
  wrappers of the program never do (\<open>UnwrapMany_round_trips\<close>).
\<close>

end
